(* ===== verification/Sar_Prelude.thy ===== *)
theory Sar_Prelude
  imports Main "HOL-Library.Word"
begin

text \<open>
  Shared vocabulary of the development: machine integers and byte strings,
  the result type with the early return of the \<^verbatim>\<open>?\<close> operator, the checked
  arithmetic of the Rust standard library, little-endian encodings of words
  with both round trips, and generic facts on lists that the components use.

  Integers that travel on the wire (\<^verbatim>\<open>u8\<close> .. \<^verbatim>\<open>u64\<close>) are words of that width.
  \<^verbatim>\<open>usize\<close> is \<^typ>\<open>nat\<close> with the bound of a 64-bit target written out wherever
  the code checks for it.  \<^verbatim>\<open>Result\<close> is a sum type: \<^const>\<open>Inl\<close> is \<^verbatim>\<open>Err\<close> and
  \<^const>\<open>Inr\<close> is \<^verbatim>\<open>Ok\<close>.
\<close>

unbundle bit_operations_syntax

section \<open>Machine integers\<close>

type_synonym u8 = "8 word"
type_synonym u16 = "16 word"
type_synonym u32 = "32 word"
type_synonym u64 = "64 word"
type_synonym bytes = "8 word list"

definition usize_max :: nat where
  "usize_max = 2 ^ 64 - 1"

definition isize_max :: nat where
  "isize_max = 2 ^ 63 - 1"

abbreviation u64_max :: u64 where
  "u64_max \<equiv> (- 1)"

abbreviation u32_max :: u32 where
  "u32_max \<equiv> - 1"

named_theorems result_simps "evaluation of results and checked arithmetic"
named_theorems size_simps "numeric bounds of the machine integer types"

lemma usize_max_less [size_simps]: "n \<le> usize_max \<longleftrightarrow> n < 2 ^ 64"
  by (auto simp: usize_max_def)

lemma isize_max_less [size_simps]: "n \<le> isize_max \<longleftrightarrow> n < 2 ^ 63"
  by (auto simp: isize_max_def)

lemma isize_le_usize [intro]: "n \<le> isize_max \<Longrightarrow> n \<le> usize_max"
  by (simp add: isize_max_def usize_max_def)

lemma unat_lt2p: "unat (x :: 'a::len word) < 2 ^ LENGTH('a)"
  by (fact unsigned_less)

lemma unat_eqI: "unat x = unat y \<Longrightarrow> x = (y :: 'a::len word)"
  by (simp add: word_unat_eq_iff)

lemma unat_u8_less [simp]: "unat (x :: u8) < 256"
  using unat_lt2p [of x] by simp

lemma unat_u16_less [simp]: "unat (x :: u16) < 65536"
  using unat_lt2p [of x] by simp

lemma unat_u32_less [simp]: "unat (x :: u32) < 4294967296"
  using unat_lt2p [of x] by simp

lemma unat_u64_less [simp]: "unat (x :: u64) < 18446744073709551616"
  using unat_lt2p [of x] by simp

lemma unat_of_nat_word_le:
  "n < 2 ^ LENGTH('a) \<Longrightarrow> unat (of_nat n :: 'a::len word) = n"
  by (simp add: unat_of_nat take_bit_nat_eq_self)

lemma unat_of_nat_u64 [simp]: "n < 18446744073709551616 \<Longrightarrow> unat (of_nat n :: u64) = n"
  by (rule unat_of_nat_word_le) simp

lemma unat_of_nat_u32 [simp]: "n < 4294967296 \<Longrightarrow> unat (of_nat n :: u32) = n"
  by (rule unat_of_nat_word_le) simp

lemma unat_of_nat_u16 [simp]: "n < 65536 \<Longrightarrow> unat (of_nat n :: u16) = n"
  by (rule unat_of_nat_word_le) simp

lemma unat_of_nat_u8 [simp]: "n < 256 \<Longrightarrow> unat (of_nat n :: u8) = n"
  by (rule unat_of_nat_word_le) simp

lemma unat_ucast_up:
  "LENGTH('a) \<le> LENGTH('b) \<Longrightarrow> unat (ucast (x :: 'a::len word) :: 'b::len word) = unat x"
  by (simp add: unsigned_ucast_eq take_bit_nat_eq_self less_le_trans [OF unat_lt2p])

section \<open>Results\<close>

text \<open>\<open>bindR m k\<close> is the code after a call whose error is returned early (\<^verbatim>\<open>m?\<close>).\<close>

definition bindR :: "'e + 'a \<Rightarrow> ('a \<Rightarrow> 'e + 'b) \<Rightarrow> 'e + 'b" where
  "bindR m k = (case m of Inl e \<Rightarrow> Inl e | Inr x \<Rightarrow> k x)"

definition map_err :: "('e \<Rightarrow> 'f) \<Rightarrow> 'e + 'a \<Rightarrow> 'f + 'a" where
  "map_err h m = (case m of Inl e \<Rightarrow> Inl (h e) | Inr x \<Rightarrow> Inr x)"

definition ok_or :: "'a option \<Rightarrow> 'e \<Rightarrow> 'e + 'a" where
  "ok_or m e = (case m of None \<Rightarrow> Inl e | Some x \<Rightarrow> Inr x)"

lemma bindR_Inr [simp]: "bindR (Inr x) k = k x"
  by (simp add: bindR_def)

lemma bindR_Inl [simp]: "bindR (Inl e) k = Inl e"
  by (simp add: bindR_def)

lemma bindR_eq_Inr [result_simps]:
  "bindR m k = Inr y \<longleftrightarrow> (\<exists>x. m = Inr x \<and> k x = Inr y)"
  by (cases m) simp_all

lemma bindR_eq_Inl [result_simps]:
  "bindR m k = Inl e \<longleftrightarrow> m = Inl e \<or> (\<exists>x. m = Inr x \<and> k x = Inl e)"
  by (cases m) simp_all

lemma bindR_InrE:
  assumes "bindR m k = Inr y"
  obtains x where "m = Inr x" "k x = Inr y"
  using assms by (auto simp: bindR_eq_Inr)

lemma bindR_assoc: "bindR (bindR m f) g = bindR m (\<lambda>x. bindR (f x) g)"
  by (cases m) simp_all

lemma bindR_cong [fundef_cong]:
  "m = m' \<Longrightarrow> (\<And>x. m' = Inr x \<Longrightarrow> k x = k' x) \<Longrightarrow> bindR m k = bindR m' k'"
  by (cases m') simp_all

lemma map_err_Inr [simp]: "map_err h (Inr x) = Inr x"
  by (simp add: map_err_def)

lemma map_err_Inl [simp]: "map_err h (Inl e) = Inl (h e)"
  by (simp add: map_err_def)

lemma map_err_eq_Inr [simp]: "map_err h m = Inr x \<longleftrightarrow> m = Inr x"
  by (cases m) simp_all

lemma map_err_eq_Inl [result_simps]: "map_err h m = Inl e \<longleftrightarrow> (\<exists>d. m = Inl d \<and> e = h d)"
  by (cases m) auto

lemma ok_or_Some [simp]: "ok_or (Some x) e = Inr x"
  by (simp add: ok_or_def)

lemma ok_or_None [simp]: "ok_or None e = Inl e"
  by (simp add: ok_or_def)

lemma ok_or_eq_Inr [simp]: "ok_or m e = Inr x \<longleftrightarrow> m = Some x"
  by (cases m) simp_all

lemma if_Inl_eq_Inr [result_simps]: "(if c then Inl e else m) = Inr x \<longleftrightarrow> \<not> c \<and> m = Inr x"
  by simp

lemma if_Inr_eq_Inr [result_simps]:
  "(if c then m else Inl e) = Inr x \<longleftrightarrow> c \<and> m = Inr x"
  by simp

text \<open>A \<^verbatim>\<open>for\<close> loop whose body may return early with an error.\<close>

primrec foldR :: "('a \<Rightarrow> 's \<Rightarrow> 'e + 's) \<Rightarrow> 'a list \<Rightarrow> 's \<Rightarrow> 'e + 's" where
  "foldR f [] s = Inr s"
| "foldR f (x # xs) s = bindR (f x s) (foldR f xs)"

lemma foldR_append: "foldR f (xs @ ys) s = bindR (foldR f xs s) (foldR f ys)"
  by (induction xs arbitrary: s) (auto simp: bindR_assoc intro!: bindR_cong)

lemma foldR_cong [fundef_cong]:
  "xs = ys \<Longrightarrow> s = t \<Longrightarrow> (\<And>x u. x \<in> set ys \<Longrightarrow> f x u = g x u) \<Longrightarrow> foldR f xs s = foldR g ys t"
proof (induction ys arbitrary: xs s t)
  case (Cons y ys)
  then show ?case
    by (auto intro!: bindR_cong)
qed simp

lemma foldR_Inr_fold:
  "(\<And>x u. x \<in> set xs \<Longrightarrow> f x u = Inr (g x u)) \<Longrightarrow> foldR f xs s = Inr (fold g xs s)"
  by (induction xs arbitrary: s) simp_all

lemma foldR_invariant:
  assumes "foldR f xs s = Inr t" "P s"
    and "\<And>x u v. x \<in> set xs \<Longrightarrow> P u \<Longrightarrow> f x u = Inr v \<Longrightarrow> P v"
  shows "P t"
  using assms
proof (induction xs arbitrary: s)
  case (Cons x xs)
  then obtain u where "f x s = Inr u" "foldR f xs u = Inr t"
    by (auto simp: bindR_eq_Inr)
  with Cons show ?case
    by (meson list.set_intros)
qed simp

section \<open>Checked arithmetic\<close>

definition checked_add_usize :: "nat \<Rightarrow> nat \<Rightarrow> nat option" where
  "checked_add_usize a b = (if a + b \<le> usize_max then Some (a + b) else None)"

definition checked_sub_usize :: "nat \<Rightarrow> nat \<Rightarrow> nat option" where
  "checked_sub_usize a b = (if b \<le> a then Some (a - b) else None)"

definition checked_mul_usize :: "nat \<Rightarrow> nat \<Rightarrow> nat option" where
  "checked_mul_usize a b = (if a * b \<le> usize_max then Some (a * b) else None)"

definition saturating_add_usize :: "nat \<Rightarrow> nat \<Rightarrow> nat" where
  "saturating_add_usize a b = min (a + b) usize_max"

definition checked_add_word :: "'a::len word \<Rightarrow> 'a word \<Rightarrow> 'a word option" where
  "checked_add_word a b = (if unat a + unat b < 2 ^ LENGTH('a) then Some (a + b) else None)"

definition checked_sub_word :: "'a::len word \<Rightarrow> 'a word \<Rightarrow> 'a word option" where
  "checked_sub_word a b = (if b \<le> a then Some (a - b) else None)"

definition checked_mul_word :: "'a::len word \<Rightarrow> 'a word \<Rightarrow> 'a word option" where
  "checked_mul_word a b = (if unat a * unat b < 2 ^ LENGTH('a) then Some (a * b) else None)"

definition saturating_add_word :: "'a::len word \<Rightarrow> 'a word \<Rightarrow> 'a word" where
  "saturating_add_word a b = (if unat a + unat b < 2 ^ LENGTH('a) then a + b else (- 1))"

text \<open>\<^verbatim>\<open>usize::try_from\<close>, \<^verbatim>\<open>u64::try_from\<close> and \<^verbatim>\<open>u32::try_from\<close>: \<^const>\<open>None\<close> is a failed conversion.\<close>

definition usize_of_word :: "'a::len word \<Rightarrow> nat option" where
  "usize_of_word x = (if unat x \<le> usize_max then Some (unat x) else None)"

definition word_of_usize :: "nat \<Rightarrow> 'a::len word option" where
  "word_of_usize n = (if n < 2 ^ LENGTH('a) then Some (of_nat n) else None)"

definition narrow_word :: "'a::len word \<Rightarrow> 'b::len word option" where
  "narrow_word x = (if unat x < 2 ^ LENGTH('b) then Some (ucast x) else None)"

lemma checked_add_usize_Some [simp]:
  "checked_add_usize a b = Some c \<longleftrightarrow> c = a + b \<and> a + b \<le> usize_max"
  by (auto simp: checked_add_usize_def)

lemma checked_add_usize_fits [result_simps]:
  "a + b \<le> usize_max \<Longrightarrow> checked_add_usize a b = Some (a + b)"
  by simp

lemma checked_sub_usize_Some [simp]:
  "checked_sub_usize a b = Some c \<longleftrightarrow> b \<le> a \<and> c = a - b"
  by (auto simp: checked_sub_usize_def)

lemma checked_mul_usize_Some [simp]:
  "checked_mul_usize a b = Some c \<longleftrightarrow> c = a * b \<and> a * b \<le> usize_max"
  by (auto simp: checked_mul_usize_def)

lemma checked_add_word_Some:
  "checked_add_word a b = Some (c :: 'a::len word) \<longleftrightarrow>
     unat c = unat a + unat b \<and> unat a + unat b < 2 ^ LENGTH('a)"
proof
  assume "checked_add_word a b = Some c"
  then show "unat c = unat a + unat b \<and> unat a + unat b < 2 ^ LENGTH('a)"
    by (auto simp: checked_add_word_def unat_add_lem split: if_splits)
next
  assume *: "unat c = unat a + unat b \<and> unat a + unat b < 2 ^ LENGTH('a)"
  then have "a + b = c"
    by (intro unat_eqI) (simp add: unat_add_lem)
  with * show "checked_add_word a b = Some c"
    by (simp add: checked_add_word_def)
qed

lemma checked_sub_word_Some:
  "checked_sub_word a b = Some (c :: 'a::len word) \<longleftrightarrow> b \<le> a \<and> c = a - b"
  by (auto simp: checked_sub_word_def)

lemma checked_mul_word_Some:
  "checked_mul_word a b = Some (c :: 'a::len word) \<longleftrightarrow>
     unat c = unat a * unat b \<and> unat a * unat b < 2 ^ LENGTH('a)"
proof
  assume "checked_mul_word a b = Some c"
  then show "unat c = unat a * unat b \<and> unat a * unat b < 2 ^ LENGTH('a)"
    by (auto simp: checked_mul_word_def unat_mult_lem split: if_splits)
next
  assume *: "unat c = unat a * unat b \<and> unat a * unat b < 2 ^ LENGTH('a)"
  then have "a * b = c"
    by (intro unat_eqI) (simp add: unat_mult_lem)
  with * show "checked_mul_word a b = Some c"
    by (simp add: checked_mul_word_def)
qed

lemma unat_minus_one_word: "unat (- 1 :: 'a::len word) = 2 ^ LENGTH('a) - 1"
  by (simp add: unsigned_minus_1_eq_mask mask_eq_exp_minus_1)

lemma unat_saturating_add [simp]:
  "unat (saturating_add_word a b :: 'a::len word) = min (unat a + unat b) (2 ^ LENGTH('a) - 1)"
proof (cases "unat a + unat b < 2 ^ LENGTH('a)")
  case True
  then have "unat (a + b) = unat a + unat b"
    by (simp add: unat_add_lem)
  with True show ?thesis
    by (simp add: saturating_add_word_def)
next
  case False
  then show ?thesis
    by (simp add: saturating_add_word_def unat_minus_one_word)
qed

lemma usize_of_word_u64 [simp]: "usize_of_word (x :: u64) = Some (unat x)"
  by (simp add: usize_of_word_def usize_max_less)

lemma usize_of_word_u32 [simp]: "usize_of_word (x :: u32) = Some (unat x)"
  by (simp add: usize_of_word_def usize_max_less less_trans [OF unat_u32_less])

lemma word_of_usize_Some:
  "word_of_usize n = Some (w :: 'a::len word) \<longleftrightarrow> unat w = n"
proof
  assume "word_of_usize n = Some w"
  then show "unat w = n"
    by (auto simp: word_of_usize_def unat_of_nat_word_le split: if_splits)
next
  assume "unat w = n"
  then show "word_of_usize n = Some w"
    using unat_lt2p [of w] by (auto simp: word_of_usize_def)
qed

lemma word_of_usize_fits [simp]:
  "n < 2 ^ LENGTH('a) \<Longrightarrow> word_of_usize n = Some (of_nat n :: 'a::len word)"
  by (simp add: word_of_usize_def)

lemma narrow_word_Some:
  "narrow_word (x :: 'a::len word) = Some (y :: 'b::len word) \<longleftrightarrow> unat y = unat x"
proof -
  have "unat (ucast x :: 'b word) = unat x" if "unat x < 2 ^ LENGTH('b)"
    using that by (simp add: unsigned_ucast_eq take_bit_nat_eq_self)
  moreover have "y = ucast x" if "unat y = unat x"
    using that unat_lt2p [of y] by (intro unat_eqI) (simp add: unsigned_ucast_eq take_bit_nat_eq_self)
  moreover have "unat x < 2 ^ LENGTH('b)" if "unat y = unat x"
    using unat_lt2p [of y] that by simp
  ultimately show ?thesis
    by (auto simp: narrow_word_def)
qed

section \<open>Buffers\<close>

text \<open>
  \<open>slice xs i n\<close> is \<^verbatim>\<open>xs[i..i + n]\<close> and \<open>copy_into xs i ys\<close> is
  \<^verbatim>\<open>xs[i..i + ys.len()].copy_from_slice(ys)\<close>; both are used within the bounds of \<open>xs\<close>.
\<close>

definition slice :: "'a list \<Rightarrow> nat \<Rightarrow> nat \<Rightarrow> 'a list" where
  "slice xs i n = take n (drop i xs)"

definition copy_into :: "'a list \<Rightarrow> nat \<Rightarrow> 'a list \<Rightarrow> 'a list" where
  "copy_into xs i ys = take i xs @ ys @ drop (i + length ys) xs"

lemma length_slice [simp]: "i + n \<le> length xs \<Longrightarrow> length (slice xs i n) = n"
  by (simp add: slice_def)

lemma nth_slice [simp]: "i + n \<le> length xs \<Longrightarrow> j < n \<Longrightarrow> slice xs i n ! j = xs ! (i + j)"
  by (simp add: slice_def)

lemma slice_drop: "k = i + n \<Longrightarrow> slice xs i n @ drop k xs = drop i xs"
  using append_take_drop_id [of n "drop i xs"] by (simp add: slice_def add.commute)

lemma length_copy_into [simp]:
  "i + length ys \<le> length xs \<Longrightarrow> length (copy_into xs i ys) = length xs"
  by (simp add: copy_into_def)

lemma nth_copy_into:
  "i + length ys \<le> length xs \<Longrightarrow> p < length xs \<Longrightarrow>
   copy_into xs i ys ! p = (if i \<le> p \<and> p < i + length ys then ys ! (p - i) else xs ! p)"
  by (auto simp: copy_into_def nth_append min_def)

lemma copy_into_Nil [simp]: "copy_into xs i [] = xs"
  by (simp add: copy_into_def)

lemma slice_copy_into_same [simp]:
  "i + length ys \<le> length xs \<Longrightarrow> n = length ys \<Longrightarrow> slice (copy_into xs i ys) i n = ys"
  by (simp add: slice_def copy_into_def)

lemma slice_all [simp]: "n = length xs \<Longrightarrow> slice xs 0 n = xs"
  by (simp add: slice_def)

text \<open>A buffer of \<open>n\<close> blocks of \<open>k\<close> elements.\<close>

lemma concat_slices:
  "length xs = n * k \<Longrightarrow> concat (map (\<lambda>i. slice xs (i * k) k) [0..<n]) = xs"
proof (induction n arbitrary: xs)
  case (Suc n)
  have "map (\<lambda>i. slice xs (i * k) k) [0..<n] = map (\<lambda>i. slice (take (n * k) xs) (i * k) k) [0..<n]"
  proof (rule map_cong)
    fix i assume "i \<in> set [0..<n]"
    then have "i * k + k \<le> n * k"
      by (metis Suc_leI add.commute atLeastLessThan_iff mult_Suc mult_le_mono1 set_upt)
    then show "slice xs (i * k) k = slice (take (n * k) xs) (i * k) k"
      by (simp add: slice_def drop_take min_def)
  qed simp
  then have "concat (map (\<lambda>i. slice xs (i * k) k) [0..<n]) = take (n * k) xs"
    using Suc.IH [of "take (n * k) xs"] Suc.prems by (simp only: length_take mult_Suc)
  moreover have "slice xs (n * k) k = drop (n * k) xs"
    using Suc.prems by (simp add: slice_def)
  ultimately show ?case
    by simp
qed simp

lemma slice_concat:
  "list_all (\<lambda>xs. length xs = k) xss \<Longrightarrow> i < length xss \<Longrightarrow> slice (concat xss) (i * k) k = xss ! i"
proof (induction xss arbitrary: i)
  case (Cons xs xss)
  then show ?case
    by (cases i) (auto simp: slice_def)
qed simp

lemma length_concat_blocks: "list_all (\<lambda>xs. length xs = k) xss \<Longrightarrow> length (concat xss) = length xss * k"
  by (induction xss) auto

section \<open>Little-endian encodings\<close>

text \<open>
  \<open>le_bytes n w\<close> is \<^verbatim>\<open>w.to_le_bytes()\<close> cut to its first \<open>n\<close> bytes and \<open>from_le bs\<close> is
  \<^verbatim>\<open>from_le_bytes\<close> with the missing high bytes taken as zero.
\<close>

primrec le_bytes :: "nat \<Rightarrow> 'a::len word \<Rightarrow> bytes" where
  "le_bytes 0 w = []"
| "le_bytes (Suc n) w = ucast w # le_bytes n (drop_bit 8 w)"

primrec from_le :: "bytes \<Rightarrow> 'a::len word" where
  "from_le [] = 0"
| "from_le (b # bs) = ucast b OR push_bit 8 (from_le bs)"

lemma length_le_bytes [simp]: "length (le_bytes n w) = n"
  by (induction n arbitrary: w) simp_all

lemma from_le_le_bytes_take: "from_le (le_bytes n w) = take_bit (8 * n) (w :: 'a::len word)"
proof (induction n arbitrary: w)
  case (Suc n)
  have "from_le (le_bytes (Suc n) w) =
      ucast (ucast w :: u8) OR push_bit 8 (take_bit (8 * n) (drop_bit 8 w))"
    by (simp add: Suc.IH)
  also have "\<dots> = take_bit (8 * Suc n) w"
    by (rule bit_word_eqI)
      (auto simp: bit_or_iff bit_push_bit_iff bit_take_bit_iff bit_drop_bit_eq bit_ucast_iff
        not_less)
  finally show ?case .
qed simp

lemma from_le_le_bytes:
  "LENGTH('a) \<le> 8 * n \<Longrightarrow> from_le (le_bytes n w) = (w :: 'a::len word)"
  by (simp add: from_le_le_bytes_take take_bit_word_eq_self)

lemma le_bytes_from_le:
  "8 * length bs \<le> LENGTH('a) \<Longrightarrow> le_bytes (length bs) (from_le bs :: 'a::len word) = bs"
proof (induction bs)
  case (Cons b bs)
  have len: "8 * length bs + 8 \<le> LENGTH('a)"
    using Cons.prems by simp
  have bit_high: "\<not> bit (from_le bs :: 'a word) i" if "8 * length bs \<le> i" for i
  proof -
    have "bit (from_le bs :: 'a word) i \<longrightarrow> i < 8 * length bs" for i
    proof (induction bs arbitrary: i)
      case (Cons c cs)
      show ?case
        using bit_imp_le_length [of c i] Cons.IH [of "i - 8"]
        by (auto simp: bit_or_iff bit_push_bit_iff bit_ucast_iff)
    qed simp
    with that show ?thesis
      by (meson not_le)
  qed
  have 1: "(ucast (ucast b OR push_bit 8 (from_le bs) :: 'a word) :: u8) = b"
    using len
    by (intro bit_word_eqI)
      (auto simp: bit_or_iff bit_push_bit_iff bit_ucast_iff dest: bit_imp_le_length)
  have 2: "drop_bit 8 (ucast b OR push_bit 8 (from_le bs) :: 'a word) = from_le bs"
  proof (rule bit_word_eqI)
    fix i assume "i < LENGTH('a)"
    then show "bit (drop_bit 8 (ucast b OR push_bit 8 (from_le bs) :: 'a word)) i
        = bit (from_le bs :: 'a word) i"
      using len bit_high [of i] bit_imp_le_length [of b "8 + i"]
      by (cases "i + 8 < LENGTH('a)")
        (auto simp: bit_drop_bit_eq bit_or_iff bit_push_bit_iff bit_ucast_iff add.commute)
  qed
  show ?case
    unfolding length_Cons from_le.simps le_bytes.simps 1 2 using Cons.IH len by simp
qed simp

lemma le_bytes_inj:
  "LENGTH('a) \<le> 8 * n \<Longrightarrow> le_bytes n v = le_bytes n w \<longleftrightarrow> v = (w :: 'a::len word)"
  by (metis from_le_le_bytes)

lemma le_bytes_numeral: "le_bytes (numeral k) w = ucast w # le_bytes (pred_numeral k) (drop_bit 8 w)"
  by (simp add: numeral_eq_Suc)

lemma replicate_numeral: "replicate (numeral k) x = x # replicate (pred_numeral k) x"
  by (simp add: numeral_eq_Suc)

end
