(* ===== verification/Sar_Fec_Base.thy ===== *)
theory Sar_Fec_Base
  imports Sar_Prelude
begin

text \<open>
  The parts of \<^verbatim>\<open>sar-fec\<close> that both codecs share: the error type, the values exchanged
  with callers and the algorithm registry (\<^verbatim>\<open>error.rs\<close>, \<^verbatim>\<open>types.rs\<close>, \<^verbatim>\<open>registry.rs\<close>), and the
  interface \<open>erasure_codec\<close> that \<^verbatim>\<open>XorCodec\<close> and \<^verbatim>\<open>RsCodec\<close> both implement.
\<close>

datatype FecError =
  Truncated
| Malformed
| InvalidLength
| Overflow
| LimitExceeded
| EcFailed
| ReservedValue
| Unsupported
| RecoveryUnavailable

record FecValue =
  fv_algo_id :: u8
  fv_data :: bytes

record Erasure =
  er_index :: u64

record FecRecoverInput =
  ri_original_protected_len :: u64
  ri_available_data :: bytes
  ri_fec_value_data :: bytes
  ri_erasures :: "Erasure list"

record XorMeta =
  xm_stripe_size :: u8
  xm_block_size :: u32
  xm_original_protected_len :: u64
  xm_stripe_count :: u32
  xm_parity_data_len :: nat

record RsMeta =
  rm_k :: u8
  rm_parity_count :: u8
  rm_symbol_size :: u32
  rm_original_protected_len :: u64
  rm_group_count :: u32
  rm_parity_data_len :: nat

datatype FecMeta = Xor XorMeta | Rs RsMeta

definition FEC_ALGO_REED_SOLOMON :: u8 where
  "FEC_ALGO_REED_SOLOMON = 0x11"

definition FEC_ALGO_XOR :: u8 where
  "FEC_ALGO_XOR = 0x14"

definition validate_fec_algo_id :: "u8 \<Rightarrow> FecError + unit" where
  "validate_fec_algo_id algo =
     (if algo = 0x00 then Inr ()
      else if algo = 0x10 then Inl FecError.ReservedValue
      else if algo = 0x11 then Inr ()
      else if algo = 0x12 \<or> algo = 0x13 \<or> algo = 0x15 \<or> algo = 0x16 then Inl FecError.Unsupported
      else if algo = 0x14 then Inr ()
      else if 0x17 \<le> algo \<and> algo \<le> 0x1F then Inl FecError.ReservedValue
      else Inl FecError.ReservedValue)"

lemma validate_fec_algo_id_Inr:
  "validate_fec_algo_id algo = Inr u \<longleftrightarrow> algo = 0 \<or> algo = FEC_ALGO_REED_SOLOMON \<or> algo = FEC_ALGO_XOR"
  by (simp add: validate_fec_algo_id_def FEC_ALGO_REED_SOLOMON_def FEC_ALGO_XOR_def)

section \<open>The interface of an erasure code\<close>

text \<open>
  What callers rely on of a codec: \<open>encode p\<close> gives the stored recovery value, \<open>recover v n a es\<close>
  rebuilds \<open>n\<close> protected bytes from the value \<open>v\<close>, the available bytes \<open>a\<close> and the listed erasures.
  \<open>agree es a p\<close> says that \<open>a\<close> differs from \<open>p\<close> at listed erasures only, and \<open>within es p\<close> that the
  erasures are within the budget of the code.
\<close>

locale erasure_codec =
  fixes encode :: "bytes \<Rightarrow> FecError + bytes"
    and recover :: "bytes \<Rightarrow> nat \<Rightarrow> bytes \<Rightarrow> Erasure list \<Rightarrow> FecError + bytes"
    and agree :: "Erasure list \<Rightarrow> bytes \<Rightarrow> bytes \<Rightarrow> bool"
    and within :: "Erasure list \<Rightarrow> bytes \<Rightarrow> bool"
  assumes recover_encode: "encode p = Inr v \<Longrightarrow> agree es a p \<Longrightarrow>
      recover v (length p) a es = (if within es p then Inr p else Inl FecError.EcFailed)"
    and agree_refl: "agree es p p"
    and within_Nil: "within [] p"
begin

lemma recover_undamaged: "encode p = Inr v \<Longrightarrow> recover v (length p) p [] = Inr p"
  using recover_encode [OF _ agree_refl] within_Nil by simp

lemma damage_irrelevant:
  "encode p = Inr v \<Longrightarrow> agree es a p \<Longrightarrow> agree es b p \<Longrightarrow> recover v (length p) a es = recover v (length p) b es"
  using recover_encode [of p v es a] recover_encode [of p v es b] by simp

text \<open>The distance of the code: within the budget, a value belongs to one protected content only.\<close>

lemma value_determines:
  assumes "encode p = Inr v" "encode q = Inr v" "length p = length q" "agree es q p" "within es p"
  shows "p = q"
proof -
  have "recover v (length q) q es = Inr p"
    using recover_encode [OF assms(1,4)] assms(5) unfolding assms(3) by simp
  then have "(if within es q then Inr q else Inl FecError.EcFailed) = Inr p"
    unfolding recover_encode [OF assms(2) agree_refl] .
  then show ?thesis
    by (simp split: if_splits)
qed

end

end
