(* ===== verification/Sar_Fec_Blocks.thy ===== *)
theory Sar_Fec_Blocks
  imports Sar_Fec_Base
begin

text \<open>
  What the two codecs of \<^verbatim>\<open>sar-fec\<close> share: the protected bytes as zero-padded blocks in rows of
  \<open>ss\<close> blocks, the number of rows, the erasures listed for a row, and the loop that repairs the
  rows one after the other.
\<close>

section \<open>Number of rows\<close>

definition xor_ceil_div :: "u64 \<Rightarrow> u64 \<Rightarrow> FecError + u64" where
  "xor_ceil_div a b =
     (if b = 0 then Inl FecError.Overflow else
      bindR (ok_or (checked_add_word a (b - 1)) FecError.Overflow) (\<lambda>s. Inr (s div b)))"

definition expected_stripe_count :: "u64 \<Rightarrow> u8 \<Rightarrow> u32 \<Rightarrow> FecError + u32" where
  "expected_stripe_count original_len stripe_size block_size =
     bindR (ok_or (checked_mul_word (ucast stripe_size) (ucast block_size)) FecError.Overflow) (\<lambda>effective.
     bindR (xor_ceil_div original_len effective) (\<lambda>sc.
     ok_or (narrow_word sc) FecError.Overflow))"

lemma xor_ceil_div_Inr:
  "xor_ceil_div a b = Inr q \<longleftrightarrow> b \<noteq> 0 \<and> unat a + unat b - 1 < 2 ^ 64 \<and> unat q = (unat a + unat b - 1) div unat b"
proof (cases "b = 0")
  case False
  then have b: "unat (b - 1) = unat b - 1" "0 < unat b"
    by (simp_all add: unat_minus_one unat_gt_0)
  let ?s = "of_nat (unat a + unat b - 1) :: u64"
  have sum: "unat a + unat (b - 1) = unat a + unat b - 1"
    using b by simp
  show ?thesis
  proof (cases "unat a + unat b - 1 < 2 ^ 64")
    case True
    then have u: "unat ?s = unat a + unat b - 1"
      by (simp add: unat_of_nat_u64)
    have "checked_add_word a (b - 1) = Some ?s"
      unfolding checked_add_word_Some sum u using True by simp
    moreover have "q = ?s div b \<longleftrightarrow> unat q = (unat a + unat b - 1) div unat b"
      by (metis u unat_div word_unat_eq_iff)
    ultimately show ?thesis
      using False True by (auto simp: xor_ceil_div_def)
  next
    case no: False
    then have "checked_add_word a (b - 1) = None"
      unfolding checked_add_word_def sum by simp
    with no show ?thesis
      using False by (simp add: xor_ceil_div_def)
  qed
qed (simp add: xor_ceil_div_def)

definition stripes :: "nat \<Rightarrow> nat \<Rightarrow> nat" where
  "stripes e n = (n + e - 1) div e"

lemma stripes_bounds: "0 < e \<Longrightarrow> n \<le> stripes e n * e \<and> stripes e n * e < n + e"
proof -
  assume e: "0 < e"
  have "(n + e - 1) div e * e + (n + e - 1) mod e = n + e - 1"
    by (rule div_mult_mod_eq)
  moreover have "(n + e - 1) mod e < e"
    using e by simp
  ultimately show ?thesis
    using e unfolding stripes_def by linarith
qed

lemma expected_stripe_count_Inr:
  assumes "ss \<noteq> 0" "bs \<noteq> 0" "unat ss * unat bs < 2 ^ 64"
  shows "expected_stripe_count n ss bs = Inr sc \<longleftrightarrow>
    unat n + unat ss * unat bs - 1 < 2 ^ 64 \<and> unat sc = stripes (unat ss * unat bs) (unat n)"
proof -
  let ?e = "of_nat (unat ss * unat bs) :: u64"
  have e: "unat ?e = unat ss * unat bs" "?e \<noteq> 0"
    using assms by (simp_all add: unat_of_nat_u64 flip: unat_gt_0 del: of_nat_mult)
  have mul: "checked_mul_word (ucast ss) (ucast bs) = Some v \<longleftrightarrow> v = ?e" for v :: u64
    using assms(3) e(1) by (auto simp: checked_mul_word_Some unat_ucast_up intro: unat_eqI)
  have "(\<exists>q :: u64. unat n + unat ss * unat bs - 1 < 2 ^ 64 \<and> unat q = k \<and> unat sc = unat q) \<longleftrightarrow>
      unat n + unat ss * unat bs - 1 < 2 ^ 64 \<and> unat sc = k" for k
    by (auto intro!: exI [of _ "ucast sc :: u64"] simp: unat_ucast_up)
  then show ?thesis
    using e by (auto simp: expected_stripe_count_def bindR_eq_Inr mul xor_ceil_div_Inr narrow_word_Some stripes_def)
qed

section \<open>Blocks\<close>

definition blk :: "nat \<Rightarrow> bytes \<Rightarrow> nat \<Rightarrow> bytes" where
  "blk bs data i = slice data (i * bs) bs @ replicate (bs - length (slice data (i * bs) bs)) 0"

lemma length_blk [simp]: "length (blk bs data i) = bs"
  by (simp add: blk_def slice_def)

lemma row_bound: "s < m \<Longrightarrow> s * bs + bs \<le> m * (bs :: nat)"
  by (metis Suc_leI add.commute mult_Suc mult_le_mono1)

lemma block_index_bound: "s < sc \<Longrightarrow> i < ss \<Longrightarrow> s * ss + i < sc * (ss :: nat)"
proof -
  assume "s < sc" "i < ss"
  then have "s * ss + i < Suc s * ss" "Suc s * ss \<le> sc * ss"
    by (simp_all add: Suc_leI mult_le_mono1 del: mult_Suc)
     (simp add: mult.commute)
  then show ?thesis
    by linarith
qed

text \<open>Blocks of a buffer that is padded with zeros to whole blocks.\<close>

lemma slice_padded:
  assumes "length (data @ replicate k 0) = m * bs" "i < m"
  shows "slice (data @ replicate k 0) (i * bs) bs = blk bs data i"
proof -
  have fit: "i * bs + bs \<le> length data + k"
    using assms(1) row_bound [OF assms(2), of bs] by simp
  show ?thesis
  proof (rule nth_equalityI)
    show "length (slice (data @ replicate k 0) (i * bs) bs) = length (blk bs data i)"
      using fit by simp
    fix j assume "j < length (slice (data @ replicate k 0) (i * bs) bs)"
    then have j: "j < bs"
      using fit by simp
    show "slice (data @ replicate k 0) (i * bs) bs ! j = blk bs data i ! j"
      using fit j by (auto simp: blk_def slice_def nth_append)
  qed
qed

lemma slice_copy_block:
  assumes "length ys = bs" "i * bs + bs \<le> length xs" "j * bs + bs \<le> length xs"
  shows "slice (copy_into xs (i * bs) ys) (j * bs) bs = (if i = j then ys else slice xs (j * bs) bs)"
proof (cases "i = j")
  case False
  have disj: "\<not> (i * bs \<le> j * bs + q \<and> j * bs + q < i * bs + bs)" if "q < bs" for q
  proof (cases "i < j")
    case True
    from row_bound [OF this, of bs] show ?thesis
      by linarith
  next
    case False
    with \<open>i \<noteq> j\<close> row_bound [of j i bs] show ?thesis
      using that by linarith
  qed
  have "slice (copy_into xs (i * bs) ys) (j * bs) bs = slice xs (j * bs) bs"
    using assms disj by (intro nth_equalityI) (auto simp: nth_copy_into)
  with False show ?thesis
    by simp
qed (use assms in simp)

lemma blocks_eqI:
  assumes "length xs = m * bs" "length ys = m * bs"
    and "\<And>i. i < m \<Longrightarrow> slice xs (i * bs) bs = slice ys (i * bs) bs"
  shows "xs = ys"
proof -
  have "map (\<lambda>i. slice xs (i * bs) bs) [0..<m] = map (\<lambda>i. slice ys (i * bs) bs) [0..<m]"
    using assms(3) by simp
  then show ?thesis
    using concat_slices [OF assms(1)] concat_slices [OF assms(2)] by (metis (no_types))
qed

text \<open>The output buffer before the first row is repaired.\<close>

lemma initial_blocks:
  assumes "i < m"
  shows "slice (copy_into (replicate (m * bs) 0) 0 (take (min (m * bs) (length a)) a)) (i * bs) bs = blk bs a i"
proof -
  let ?T = "m * bs"
  have out: "copy_into (replicate ?T 0) 0 (take (min ?T (length a)) a) = take ?T a @ replicate (?T - length (take ?T a)) 0"
    by (simp add: copy_into_def min_def)
  have "slice (take ?T a @ replicate (?T - length (take ?T a)) 0) (i * bs) bs = blk bs (take ?T a) i"
    by (rule slice_padded [OF _ assms]) simp
  moreover have "slice (take ?T a) (i * bs) bs = slice a (i * bs) bs"
    using row_bound [OF assms, of bs] by (simp add: slice_def drop_take min_def)
  ultimately show ?thesis
    by (simp add: out blk_def)
qed

lemma padded_take:
  assumes "length out = m * bs" "length p \<le> m * bs"
    and "\<And>i. i < m \<Longrightarrow> slice out (i * bs) bs = blk bs p i"
  shows "take (length p) out = p"
proof -
  have len: "length (p @ replicate (m * bs - length p) 0) = m * bs"
    using assms(2) by simp
  have "out = p @ replicate (m * bs - length p) 0"
    by (rule blocks_eqI [OF assms(1) len]) (unfold slice_padded [OF len], fact assms(3))
  then show ?thesis
    by simp
qed

section \<open>Erasures\<close>

definition stripe_erasures :: "Erasure list \<Rightarrow> u64 \<Rightarrow> u64 \<Rightarrow> nat list" where
  "stripe_erasures erasures stripe_start stripe_end =
     List.map_filter (\<lambda>e. if er_index e \<ge> stripe_start \<and> er_index e < stripe_end
       then usize_of_word (er_index e - stripe_start) else None) erasures"

text \<open>The erased blocks of row \<open>s\<close>, relative to its first block, as often as they are listed.\<close>

definition stripe_lost :: "nat \<Rightarrow> Erasure list \<Rightarrow> nat \<Rightarrow> nat list" where
  "stripe_lost ss es s = map (\<lambda>e. unat (er_index e) - s * ss) (filter (\<lambda>e. unat (er_index e) div ss = s) es)"

lemma div_eq_range: "0 < ss \<Longrightarrow> (n :: nat) div ss = s \<longleftrightarrow> s * ss \<le> n \<and> n < (s + 1) * ss"
proof
  assume "0 < ss" "n div ss = s"
  then show "s * ss \<le> n \<and> n < (s + 1) * ss"
    using times_div_less_eq_dividend [of ss n] dividend_less_times_div [of ss n] by (simp add: mult.commute)
next
  assume "s * ss \<le> n \<and> n < (s + 1) * ss"
  then show "n div ss = s"
    by (intro div_nat_eqI) (simp_all add: mult.commute)
qed

lemma stripe_erasures_eq:
  assumes "0 < ss" "unat lo = s * ss" "unat hi = (s + 1) * ss"
  shows "stripe_erasures es lo hi = stripe_lost ss es s"
proof -
  have eq: "(if er_index e \<ge> lo \<and> er_index e < hi then usize_of_word (er_index e - lo) else None) =
      (if unat (er_index e) div ss = s then Some (unat (er_index e) - s * ss) else None)" for e
    using assms by (simp add: word_le_nat_alt word_less_nat_alt div_eq_range unat_sub)
  have "stripe_erasures es lo hi =
      List.map_filter (\<lambda>e. if unat (er_index e) div ss = s then Some (unat (er_index e) - s * ss) else None) es"
    unfolding stripe_erasures_def by (intro arg_cong2 [where f = List.map_filter] ext eq refl)
  also have "\<dots> = stripe_lost ss es s"
    by (induction es) (simp_all add: stripe_lost_def map_filter_simps)
  finally show ?thesis .
qed

text \<open>\<open>intact bs n es a p\<close>: of the first \<open>n\<close> blocks, those that are not listed as erased agree.\<close>

definition intact :: "nat \<Rightarrow> nat \<Rightarrow> Erasure list \<Rightarrow> bytes \<Rightarrow> bytes \<Rightarrow> bool" where
  "intact bs n es a p \<longleftrightarrow>
     (\<forall>i < n. i \<notin> (\<lambda>e. unat (er_index e)) ` set es \<longrightarrow> blk bs a i = blk bs p i)"

lemma stripe_lost_iff: "0 < ss \<Longrightarrow> i < ss \<Longrightarrow> i \<in> set (stripe_lost ss es s) \<longleftrightarrow> s * ss + i \<in> (\<lambda>e. unat (er_index e)) ` set es"
proof
  assume "0 < ss" "i \<in> set (stripe_lost ss es s)"
  then obtain e where "e \<in> set es" "i = unat (er_index e) - s * ss" "s * ss \<le> unat (er_index e)"
    by (auto simp: stripe_lost_def div_eq_range)
  then have "e \<in> set es" "s * ss + i = unat (er_index e)"
    by linarith+
  then show "s * ss + i \<in> (\<lambda>e. unat (er_index e)) ` set es"
    by blast
next
  assume "0 < ss" "i < ss" "s * ss + i \<in> (\<lambda>e. unat (er_index e)) ` set es"
  then obtain e where e: "e \<in> set es" "unat (er_index e) = s * ss + i"
    by auto
  then have "unat (er_index e) div ss = s" "i = unat (er_index e) - s * ss"
    using \<open>0 < ss\<close> \<open>i < ss\<close> by (simp_all add: div_eq_range)
  with e(1) show "i \<in> set (stripe_lost ss es s)"
    unfolding stripe_lost_def by (intro image_eqI [of _ _ e, THEN set_map [THEN equalityD2, THEN subsetD]]) simp_all
qed

lemma stripe_lost_less: "0 < ss \<Longrightarrow> i \<in> set (stripe_lost ss es s) \<Longrightarrow> i < ss"
  by (auto simp: stripe_lost_def div_eq_range)

lemma stripe_lost_Nil [simp]: "stripe_lost ss [] s = []"
  by (simp add: stripe_lost_def)

section \<open>Repairing row after row\<close>

lemma foldR_snoc: "foldR f [0..<Suc k] s = bindR (foldR f [0..<k] s) (f k)"
  by (simp add: foldR_append) (rule bindR_cong, simp_all add: bindR_def split: sum.split)

text \<open>
  \<open>repaired ss bs n k p a out\<close>: in the output \<open>out\<close> of \<open>n\<close> rows, the first \<open>k\<close> rows are those of \<open>p\<close> and
  the others those of \<open>a\<close>.
\<close>

definition repaired :: "nat \<Rightarrow> nat \<Rightarrow> nat \<Rightarrow> nat \<Rightarrow> bytes \<Rightarrow> bytes \<Rightarrow> bytes \<Rightarrow> bool" where
  "repaired ss bs n k p a out \<longleftrightarrow> length out = n * ss * bs \<and>
     (\<forall>i < n * ss. slice out (i * bs) bs = blk bs (if i < k * ss then p else a) i)"

lemma repair_rows:
  assumes step: "\<And>k out. k < n \<Longrightarrow> repaired ss bs n k p a out \<Longrightarrow>
      if good k then \<exists>out'. f k out = Inr out' \<and> repaired ss bs n (Suc k) p a out' else f k out = Inl e"
    and "repaired ss bs n 0 p a out" "k \<le> n"
  shows "if \<forall>s < k. good s then \<exists>out'. foldR f [0..<k] out = Inr out' \<and> repaired ss bs n k p a out'
    else foldR f [0..<k] out = Inl e"
  using assms(3)
proof (induction k)
  case 0
  then show ?case
    using assms(2) by simp
next
  case (Suc k)
  have run: "foldR f [0..<Suc k] out = bindR (foldR f [0..<k] out) (f k)"
    by (rule foldR_snoc)
  show ?case
  proof (cases "\<forall>s < k. good s")
    case False
    then show ?thesis
      using Suc run by (auto simp: less_Suc_eq)
  next
    case True
    with Suc obtain mid where mid: "foldR f [0..<k] out = Inr mid" "repaired ss bs n k p a mid"
      by auto
    have "if good k then \<exists>out'. f k mid = Inr out' \<and> repaired ss bs n (Suc k) p a out' else f k mid = Inl e"
      using step [OF _ mid(2)] Suc.prems by simp
    then show ?thesis
      using True unfolding run mid(1) bindR_Inr by (auto simp: less_Suc_eq)
  qed
qed

end
