(* ===== verification/Sar_Fec_Xor.thy ===== *)
theory Sar_Fec_Xor
  imports Sar_Fec_Blocks
begin

text \<open>
  The XOR erasure code of \<^verbatim>\<open>crates/sar-fec/src/xor.rs\<close>.  The protected bytes are cut into blocks,
  zero-padded at the end; every stripe of \<^verbatim>\<open>stripe_size\<close> blocks has one parity block.  The lemmas show
  that an encoded value passes \<^verbatim>\<open>validate\<close>, that \<^verbatim>\<open>recover\<close> rebuilds the protected bytes from any
  damaged copy with at most one erased block per stripe, and that it refuses more.
\<close>

unbundle bit_operations_syntax

section \<open>Header\<close>

definition MAX_PARITY_SIZE :: nat where
  "MAX_PARITY_SIZE = 256 * 1024 * 1024"

definition BLOCK_SIZE_TABLE :: "(u8 \<times> u32) list" where
  "BLOCK_SIZE_TABLE = [
     (0x00, 256), (0x01, 512), (0x02, 1024), (0x03, 2048), (0x04, 4096),
     (0x05, 8192), (0x06, 16384), (0x07, 32768), (0x08, 65536)]"

definition HEADER_SIZE :: nat where
  "HEADER_SIZE = 14"

definition block_size_for_index :: "u8 \<Rightarrow> FecError + u32" where
  "block_size_for_index index = ok_or (map_of BLOCK_SIZE_TABLE index) FecError.ReservedValue"

definition xor_parse_header :: "bytes \<Rightarrow> FecError + (u8 \<times> u32 \<times> u64 \<times> u32)" where
  "xor_parse_header data =
     (if length data < HEADER_SIZE then Inl FecError.Truncated else
      let stripe_size = data ! 0; block_size_index = data ! 1 in
      if stripe_size = 0 then Inl FecError.ReservedValue else
      bindR (block_size_for_index block_size_index) (\<lambda>block_size.
      let original_len = from_le (slice data 2 8); stripe_count = from_le (slice data 10 4) in
      Inr (stripe_size, block_size, original_len, stripe_count)))"

definition xor_parity_len :: "u32 \<Rightarrow> u32 \<Rightarrow> FecError + nat" where
  "xor_parity_len stripe_count block_size =
     bindR (ok_or (checked_mul_word (ucast stripe_count) (ucast block_size)) FecError.Overflow) (\<lambda>(pl :: u64).
     ok_or (usize_of_word pl) FecError.Overflow)"

definition parse_xor_meta :: "bytes \<Rightarrow> FecError + XorMeta" where
  "parse_xor_meta data =
     bindR (xor_parse_header data) (\<lambda>(stripe_size, block_size, original_len, stripe_count).
     bindR (xor_parity_len stripe_count block_size) (\<lambda>parity_data_len.
     Inr \<lparr> xm_stripe_size = stripe_size, xm_block_size = block_size,
           xm_original_protected_len = original_len, xm_stripe_count = stripe_count,
           xm_parity_data_len = parity_data_len \<rparr>))"

section \<open>Codec\<close>

record XorCodec =
  xc_stripe_size :: u8
  xc_block_size :: u32
  xc_block_size_index :: u8

definition XorCodec_new :: "u8 \<Rightarrow> u8 \<Rightarrow> FecError + XorCodec" where
  "XorCodec_new stripe_size block_size_index =
     (if stripe_size = 0 then Inl FecError.ReservedValue else
      bindR (block_size_for_index block_size_index) (\<lambda>block_size.
      Inr \<lparr> xc_stripe_size = stripe_size, xc_block_size = block_size,
            xc_block_size_index = block_size_index \<rparr>))"

definition XorCodec_from_fec_value :: "bytes \<Rightarrow> FecError + XorCodec" where
  "XorCodec_from_fec_value data =
     (if length data < 2 then Inl FecError.Truncated else XorCodec_new (data ! 0) (data ! 1))"

text \<open>The buffer that \<^verbatim>\<open>block_bytes\<close> fills: one block of \<open>data\<close>, padded with zeros.\<close>

definition block_bytes :: "XorCodec \<Rightarrow> bytes \<Rightarrow> nat \<Rightarrow> FecError + bytes" where
  "block_bytes self data block_idx =
     bindR (ok_or (usize_of_word (xc_block_size self)) FecError.Overflow) (\<lambda>bs.
     bindR (ok_or (checked_mul_usize block_idx bs) FecError.Overflow) (\<lambda>start.
     if start \<ge> length data then Inr (replicate bs 0) else
     let end_pos = min (start + bs) (length data) in
     Inr (slice data start (end_pos - start) @ replicate (bs - (end_pos - start)) 0)))"

definition xor_into :: "bytes \<Rightarrow> bytes \<Rightarrow> bytes" where
  "xor_into dst src = map2 (XOR) dst src @ drop (length src) dst"

definition encode_stripe :: "XorCodec \<Rightarrow> bytes \<Rightarrow> nat \<Rightarrow> nat \<Rightarrow> nat \<Rightarrow> bytes \<Rightarrow> FecError + bytes" where
  "encode_stripe self protected ss bs stripe parity =
     bindR (foldR (\<lambda>i p_slice.
         bindR (block_bytes self protected (stripe * ss + i)) (\<lambda>block_buf.
         Inr (xor_into p_slice block_buf)))
       [0..<ss] (slice parity (stripe * bs) bs)) (\<lambda>p_slice.
     Inr (copy_into parity (stripe * bs) p_slice))"

definition xor_encode_recovery :: "XorCodec \<Rightarrow> bytes \<Rightarrow> FecError + FecValue" where
  "xor_encode_recovery self protected =
     bindR (ok_or (word_of_usize (length protected)) FecError.Overflow) (\<lambda>original_len.
     bindR (expected_stripe_count original_len (xc_stripe_size self) (xc_block_size self)) (\<lambda>stripe_count.
     bindR (xor_parity_len stripe_count (xc_block_size self)) (\<lambda>pl.
     if pl > MAX_PARITY_SIZE then Inl FecError.LimitExceeded else
     let ss = unat (xc_stripe_size self) in
     bindR (ok_or (usize_of_word (xc_block_size self)) FecError.Overflow) (\<lambda>bs.
     bindR (ok_or (usize_of_word stripe_count) FecError.Overflow) (\<lambda>sc.
     bindR (ok_or (checked_mul_usize sc bs) FecError.Overflow) (\<lambda>parity_len.
     bindR (foldR (encode_stripe self protected ss bs) [0..<sc] (replicate parity_len 0)) (\<lambda>parity.
     Inr \<lparr> fv_algo_id = FEC_ALGO_XOR,
           fv_data = [xc_stripe_size self, xc_block_size_index self] @ le_bytes 8 original_len @
             le_bytes 4 stripe_count @ parity \<rparr>)))))))"

definition xor_validate :: "XorCodec \<Rightarrow> bytes \<Rightarrow> FecError + unit" where
  "xor_validate self fec_value_data =
     bindR (xor_parse_header fec_value_data) (\<lambda>(stripe_size, block_size, original_len, stripe_count).
     if stripe_size \<noteq> xc_stripe_size self \<or> block_size \<noteq> xc_block_size self
     then Inl FecError.InvalidLength else
     bindR (expected_stripe_count original_len stripe_size block_size) (\<lambda>expected_sc.
     if stripe_count \<noteq> expected_sc then Inl FecError.InvalidLength else
     bindR (xor_parity_len stripe_count block_size) (\<lambda>pl.
     if pl > MAX_PARITY_SIZE then Inl FecError.LimitExceeded else
     bindR (ok_or (checked_sub_usize (length fec_value_data) HEADER_SIZE) FecError.Truncated) (\<lambda>available.
     if available \<noteq> pl then Inl FecError.InvalidLength else Inr ()))))"

definition recover_stripe ::
  "XorCodec \<Rightarrow> FecRecoverInput \<Rightarrow> bytes \<Rightarrow> nat \<Rightarrow> nat \<Rightarrow> nat \<Rightarrow> bytes \<Rightarrow> FecError + bytes" where
  "recover_stripe self inp parity ss bs stripe out =
     bindR (ok_or (checked_mul_usize stripe ss) FecError.Overflow) (\<lambda>start.
     bindR (ok_or (word_of_usize start) FecError.Overflow) (\<lambda>stripe_start.
     bindR (ok_or (checked_mul_usize (stripe + 1) ss) FecError.Overflow) (\<lambda>end_idx.
     bindR (ok_or (word_of_usize end_idx) FecError.Overflow) (\<lambda>stripe_end.
     case stripe_erasures (ri_erasures inp) stripe_start stripe_end of
       [] \<Rightarrow> Inr out
     | [erased_in_stripe] \<Rightarrow>
         let erased_block_idx = stripe * ss + erased_in_stripe in
         bindR (foldR (\<lambda>i recovered.
             if i = erased_in_stripe then Inr recovered else
             bindR (block_bytes self (ri_available_data inp) (stripe * ss + i)) (\<lambda>block_buf.
             Inr (xor_into recovered block_buf)))
           [0..<ss] (slice parity (stripe * bs) bs)) (\<lambda>recovered.
         let out_start = erased_block_idx * bs; out_end = out_start + bs in
         Inr (if out_end \<le> length out then copy_into out out_start recovered else out))
     | _ \<Rightarrow> Inl FecError.EcFailed))))"

definition xor_recover :: "XorCodec \<Rightarrow> FecRecoverInput \<Rightarrow> FecError + bytes" where
  "xor_recover self inp =
     bindR (xor_parse_header (ri_fec_value_data inp)) (\<lambda>(_, block_size, original_len, stripe_count).
     bindR (xor_validate self (ri_fec_value_data inp)) (\<lambda>_.
     if original_len \<noteq> ri_original_protected_len inp then Inl FecError.InvalidLength else
     bindR (ok_or (usize_of_word stripe_count) FecError.Overflow) (\<lambda>sc.
     let ss = unat (xc_stripe_size self) in
     bindR (ok_or (usize_of_word block_size) FecError.Overflow) (\<lambda>bs.
     bindR (xor_parity_len stripe_count block_size) (\<lambda>pl.
     let parity = slice (ri_fec_value_data inp) HEADER_SIZE pl in
     bindR (ok_or (Option.bind (checked_mul_usize sc ss) (\<lambda>value. checked_mul_usize value bs)) FecError.Overflow)
       (\<lambda>total_data_len.
     let copy_len = min total_data_len (length (ri_available_data inp));
         out = copy_into (replicate total_data_len 0) 0 (take copy_len (ri_available_data inp)) in
     bindR (foldR (recover_stripe self inp parity ss bs) [0..<sc] out) (\<lambda>out.
     bindR (ok_or (usize_of_word original_len) FecError.Overflow) (\<lambda>orig_len.
     Inr (take orig_len out)))))))))"

definition validate_xor_fec_value :: "bytes \<Rightarrow> FecError + unit" where
  "validate_xor_fec_value data =
     bindR (XorCodec_from_fec_value data) (\<lambda>codec. xor_validate codec data)"

section \<open>Sizes\<close>

definition codec_ok :: "XorCodec \<Rightarrow> bool" where
  "codec_ok c \<longleftrightarrow> xc_stripe_size c \<noteq> 0 \<and> map_of BLOCK_SIZE_TABLE (xc_block_size_index c) = Some (xc_block_size c)"

lemma XorCodec_new_Inr:
  "XorCodec_new ss i = Inr c \<longleftrightarrow> codec_ok c \<and> xc_stripe_size c = ss \<and> xc_block_size_index c = i"
  by (cases c) (auto simp: XorCodec_new_def block_size_for_index_def codec_ok_def bindR_eq_Inr)

lemma block_size_range: "map_of BLOCK_SIZE_TABLE i = Some b \<Longrightarrow> 256 \<le> unat b \<and> unat b \<le> 65536"
  by (auto simp: BLOCK_SIZE_TABLE_def split: if_splits)

abbreviation c_ss :: "XorCodec \<Rightarrow> nat" where "c_ss c \<equiv> unat (xc_stripe_size c)"
abbreviation c_bs :: "XorCodec \<Rightarrow> nat" where "c_bs c \<equiv> unat (xc_block_size c)"

lemma codec_range: "codec_ok c \<Longrightarrow> 0 < c_ss c \<and> c_ss c \<le> 255 \<and> 256 \<le> c_bs c \<and> c_bs c \<le> 65536"
  using block_size_range [of "xc_block_size_index c"] unat_lt2p [of "xc_stripe_size c"]
  by (auto simp: codec_ok_def unat_gt_0 simp del: unat_u8_less)

lemma xor_parity_len_Inr: "xor_parity_len sc bs = Inr pl \<longleftrightarrow> pl = unat sc * unat bs"
proof -
  have "unat sc * unat bs < 2 ^ 32 * 2 ^ 32"
    by (intro mult_strict_mono) simp_all
  then have lt: "unat sc * unat bs < 2 ^ 64"
    by simp
  let ?p = "of_nat (unat sc * unat bs) :: u64"
  have "checked_mul_word (ucast sc) (ucast bs) = Some ?p" "unat ?p = unat sc * unat bs"
    using lt by (simp_all add: checked_mul_word_Some unat_ucast_up unat_of_nat_u64 del: of_nat_mult)
  then show ?thesis
    by (auto simp: xor_parity_len_def)
qed

section \<open>Blocks\<close>

lemma block_bytes_eq:
  assumes "i * c_bs c \<le> usize_max"
  shows "block_bytes c data i = Inr (blk (c_bs c) data i)"
proof -
  have "slice data (i * c_bs c) (min (i * c_bs c + c_bs c) (length data) - i * c_bs c) = slice data (i * c_bs c) (c_bs c)"
    by (simp add: slice_def min_def)
  moreover have "c_bs c - (min (i * c_bs c + c_bs c) (length data) - i * c_bs c) =
      c_bs c - length (slice data (i * c_bs c) (c_bs c))"
    by (simp add: slice_def min_def) linarith
  ultimately show ?thesis
    using assms by (auto simp: block_bytes_def blk_def Let_def checked_mul_usize_def slice_def)
qed

section \<open>Parity\<close>

definition xor_blocks :: "(nat \<Rightarrow> bytes) \<Rightarrow> nat list \<Rightarrow> bytes \<Rightarrow> bytes" where
  "xor_blocks f is p = fold (\<lambda>i p. xor_into p (f i)) is p"

lemma length_xor_into [simp]: "length (xor_into dst src) = length dst"
  by (simp add: xor_into_def)

lemma nth_xor_into: "length src = length dst \<Longrightarrow> j < length dst \<Longrightarrow> xor_into dst src ! j = dst ! j XOR src ! j"
  by (simp add: xor_into_def)

lemma length_xor_blocks [simp]: "length (xor_blocks f is p) = length p"
  by (induction "is" arbitrary: p) (simp_all add: xor_blocks_def)

lemma nth_xor_blocks:
  "(\<And>i. length (f i) = length p) \<Longrightarrow> j < length p \<Longrightarrow>
   xor_blocks f is p ! j = fold (\<lambda>i a. a XOR f i ! j) is (p ! j)"
proof (induction "is" arbitrary: p)
  case (Cons i "is")
  then show ?case
    using Cons.IH [of "xor_into p (f i)"] by (simp add: xor_blocks_def nth_xor_into)
qed (simp add: xor_blocks_def)

lemma fold_xor_init: "fold (\<lambda>i a. a XOR g i) is (a :: u8) = a XOR fold (\<lambda>i a. a XOR g i) is 0"
proof (induction "is" arbitrary: a)
  case (Cons i "is")
  show ?case
    using Cons [of "a XOR g i"] Cons [of "0 XOR g i"] by (simp add: xor.assoc)
qed simp

lemma fold_xor_remove:
  "distinct is \<Longrightarrow> e \<in> set is \<Longrightarrow>
   fold (\<lambda>i a. a XOR g i) is (0 :: u8) = g e XOR fold (\<lambda>i a. a XOR g i) (filter (\<lambda>i. i \<noteq> e) is) 0"
proof (induction "is")
  case (Cons i "is")
  show ?case
  proof (cases "i = e")
    case True
    with Cons.prems have "filter (\<lambda>i. i \<noteq> e) is = is"
      by (auto intro: filter_True)
    with True show ?thesis
      by (simp add: fold_xor_init [of g "is" "g e"])
  next
    case False
    with Cons show ?thesis
      using fold_xor_init [of g "is" "g i"] fold_xor_init [of g "filter (\<lambda>i. i \<noteq> e) is" "g i"]
      by (simp add: xor.left_commute)
  qed
qed simp

text \<open>The missing block is the parity with the other blocks removed.\<close>

lemma xor_blocks_recover:
  assumes "\<And>i. length (f i) = bs" "\<And>i. length (g i) = bs" "distinct is" "e \<in> set is"
    and "\<And>i. i \<in> set is \<Longrightarrow> i \<noteq> e \<Longrightarrow> g i = f i"
  shows "xor_blocks g (filter (\<lambda>i. i \<noteq> e) is) (xor_blocks f is (replicate bs 0)) = f e"
proof (rule nth_equalityI)
  let ?others = "filter (\<lambda>i. i \<noteq> e) is"
  fix j assume "j < length (xor_blocks g ?others (xor_blocks f is (replicate bs 0)))"
  then have j: "j < bs"
    by simp
  have "xor_blocks g ?others (xor_blocks f is (replicate bs 0)) ! j =
      fold (\<lambda>i a. a XOR g i ! j) ?others (fold (\<lambda>i a. a XOR f i ! j) is 0)"
    using j assms(1,2) by (simp add: nth_xor_blocks)
  also have "\<dots> = fold (\<lambda>i a. a XOR f i ! j) ?others (fold (\<lambda>i a. a XOR f i ! j) is 0)"
    by (rule fold_cong) (use assms(5) in auto)
  also have "\<dots> = fold (\<lambda>i a. a XOR f i ! j) is 0 XOR fold (\<lambda>i a. a XOR f i ! j) ?others 0"
    by (rule fold_xor_init)
  also have "\<dots> = f e ! j"
    using fold_xor_remove [OF assms(3,4), of "\<lambda>i. f i ! j"] by (simp add: xor.assoc)
  finally show "xor_blocks g ?others (xor_blocks f is (replicate bs 0)) ! j = f e ! j" .
qed (simp add: assms(1))

lemma foldR_xor_blocks:
  "(\<And>i. i \<in> set is \<Longrightarrow> F i = Inr (f i)) \<Longrightarrow>
   foldR (\<lambda>i p. bindR (F i) (\<lambda>b. Inr (xor_into p b))) is p = Inr (xor_blocks f is p)"
  by (induction "is" arbitrary: p) (simp_all add: xor_blocks_def)

lemma foldR_xor_blocks_skip:
  "(\<And>i. i \<in> set is \<Longrightarrow> F i = Inr (f i)) \<Longrightarrow>
   foldR (\<lambda>i p. if i = e then Inr p else bindR (F i) (\<lambda>b. Inr (xor_into p b))) is p =
     Inr (xor_blocks f (filter (\<lambda>i. i \<noteq> e) is) p)"
  by (induction "is" arbitrary: p) (simp_all add: xor_blocks_def)

section \<open>Encoding\<close>

definition stripe_parity :: "nat \<Rightarrow> nat \<Rightarrow> bytes \<Rightarrow> nat \<Rightarrow> bytes" where
  "stripe_parity ss bs data s = xor_blocks (\<lambda>i. blk bs data (s * ss + i)) [0..<ss] (replicate bs 0)"

lemma length_stripe_parity [simp]: "length (stripe_parity ss bs data s) = bs"
  by (simp add: stripe_parity_def)

lemma encode_stripes:
  assumes "sc * c_ss c * c_bs c \<le> usize_max" "k \<le> sc"
  shows "\<exists>par. foldR (encode_stripe c data (c_ss c) (c_bs c)) [0..<k] (replicate (sc * c_bs c) 0) = Inr par \<and>
    length par = sc * c_bs c \<and>
    (\<forall>s < sc. slice par (s * c_bs c) (c_bs c) =
       (if s < k then stripe_parity (c_ss c) (c_bs c) data s else replicate (c_bs c) 0))"
  using assms(2)
proof (induction k)
  case 0
  have "c_bs c \<le> sc * c_bs c - s * c_bs c" if "s < sc" for s
    using row_bound [OF that, of "c_bs c"] by linarith
  then show ?case
    by (auto simp: slice_def)
next
  case (Suc k)
  let ?ss = "c_ss c" and ?bs = "c_bs c"
  note row = row_bound [of _ sc ?bs]
  from Suc obtain par where par: "foldR (encode_stripe c data ?ss ?bs) [0..<k] (replicate (sc * ?bs) 0) = Inr par"
    "length par = sc * ?bs"
    "\<And>s. s < sc \<Longrightarrow> slice par (s * ?bs) ?bs = (if s < k then stripe_parity ?ss ?bs data s else replicate ?bs 0)"
    by auto
  have "block_bytes c data (k * ?ss + i) = Inr (blk ?bs data (k * ?ss + i))" if "i \<in> set [0..<?ss]" for i
  proof (rule block_bytes_eq)
    have "(k * ?ss + i) * ?bs \<le> sc * ?ss * ?bs"
      using block_index_bound [of k sc i ?ss] Suc.prems that by (intro mult_le_mono1) simp
    then show "(k * ?ss + i) * ?bs \<le> usize_max"
      using assms(1) by linarith
  qed
  then have fold: "foldR (\<lambda>i p. bindR (block_bytes c data (k * ?ss + i)) (\<lambda>b. Inr (xor_into p b))) [0..<?ss] q =
      Inr (xor_blocks (\<lambda>i. blk ?bs data (k * ?ss + i)) [0..<?ss] q)" for q
    by (rule foldR_xor_blocks)
  have step: "encode_stripe c data ?ss ?bs k par = Inr (copy_into par (k * ?bs) (stripe_parity ?ss ?bs data k))"
    using par(3) [of k] Suc.prems by (simp add: encode_stripe_def fold stripe_parity_def)
  have "slice (copy_into par (k * ?bs) (stripe_parity ?ss ?bs data k)) (s * ?bs) ?bs =
      (if s < Suc k then stripe_parity ?ss ?bs data s else replicate ?bs 0)" if "s < sc" for s
    using slice_copy_block [of "stripe_parity ?ss ?bs data k" ?bs k par s] row [of k] row [of s] par(2,3) that Suc.prems
    by auto
  moreover have "length (copy_into par (k * ?bs) (stripe_parity ?ss ?bs data k)) = sc * ?bs"
    using row [of k] par(2) Suc.prems by simp
  ultimately show ?case
    using par(1) step by (simp add: foldR_append)
qed

text \<open>What the encoder produces, field by field.\<close>

definition xor_total :: "XorCodec \<Rightarrow> bytes \<Rightarrow> nat" where
  "xor_total c data = stripes (c_ss c * c_bs c) (length data)"

definition xor_encodable :: "XorCodec \<Rightarrow> bytes \<Rightarrow> bool" where
  "xor_encodable c data \<longleftrightarrow> length data + c_ss c * c_bs c - 1 < 2 ^ 64 \<and> length data < 2 ^ 64 \<and>
     xor_total c data < 2 ^ 32 \<and> xor_total c data * c_bs c \<le> MAX_PARITY_SIZE"

lemma xor_total_bound:
  assumes "codec_ok c" "xor_total c data * c_bs c \<le> MAX_PARITY_SIZE"
  shows "xor_total c data * c_ss c * c_bs c < 2 ^ 36"
proof -
  have "xor_total c data * c_bs c * c_ss c \<le> MAX_PARITY_SIZE * 255"
    using assms codec_range [OF assms(1)] by (intro mult_le_mono) simp_all
  then show ?thesis
    by (simp add: MAX_PARITY_SIZE_def ac_simps)
qed

lemma codec_sizes:
  assumes "codec_ok c"
  shows "xc_stripe_size c \<noteq> 0" "xc_block_size c \<noteq> 0" "c_ss c * c_bs c < 2 ^ 64"
proof -
  note rng = codec_range [OF assms]
  have "c_ss c * c_bs c \<le> 255 * 65536"
    using rng by (intro mult_le_mono) simp_all
  then show "c_ss c * c_bs c < 2 ^ 64"
    by simp
qed (use codec_range [OF assms] in \<open>auto simp: unat_gt_0 [symmetric]\<close>)

lemma xor_encode_Inr:
  assumes "codec_ok c" "xor_encode_recovery c data = Inr v"
  shows "xor_encodable c data" "fv_algo_id v = FEC_ALGO_XOR"
    "\<exists>par. fv_data v = [xc_stripe_size c, xc_block_size_index c] @ le_bytes 8 (of_nat (length data) :: u64) @
       le_bytes 4 (of_nat (xor_total c data) :: u32) @ par \<and> length par = xor_total c data * c_bs c \<and>
       (\<forall>s < xor_total c data. slice par (s * c_bs c) (c_bs c) = stripe_parity (c_ss c) (c_bs c) data s)"
proof -
  note e = codec_sizes [OF assms(1)]
  from assms(2) obtain n :: u64 and sc par where v: "unat n = length data"
    "expected_stripe_count n (xc_stripe_size c) (xc_block_size c) = Inr sc"
    "unat sc * c_bs c \<le> MAX_PARITY_SIZE"
    "foldR (encode_stripe c data (c_ss c) (c_bs c)) [0..<unat sc] (replicate (unat sc * c_bs c) 0) = Inr par"
    "v = \<lparr> fv_algo_id = FEC_ALGO_XOR, fv_data = [xc_stripe_size c, xc_block_size_index c] @ le_bytes 8 n @
             le_bytes 4 sc @ par \<rparr>"
    by (auto simp: xor_encode_recovery_def bindR_eq_Inr word_of_usize_Some xor_parity_len_Inr Let_def not_less split: if_splits)
  have sc: "unat sc = xor_total c data" "length data + c_ss c * c_bs c - 1 < 2 ^ 64"
    using v(1,2) expected_stripe_count_Inr [OF e] by (auto simp: xor_total_def)
  then have words: "n = of_nat (length data)" "sc = of_nat (xor_total c data)"
    by (simp_all flip: v(1) sc(1))
  show "xor_encodable c data"
    using sc v(1,3) unat_lt2p [of n] unat_lt2p [of sc]
    by (simp add: xor_encodable_def del: unat_u32_less unat_u64_less)
  show "fv_algo_id v = FEC_ALGO_XOR"
    by (simp add: v(5))
  have "xor_total c data * c_ss c * c_bs c \<le> usize_max"
    using xor_total_bound [OF assms(1), of data] v(3) sc(1) by (simp add: usize_max_def)
  from encode_stripes [OF this order_refl, of data] v(4) sc(1)
  have "length par = xor_total c data * c_bs c \<and>
      (\<forall>s < xor_total c data. slice par (s * c_bs c) (c_bs c) = stripe_parity (c_ss c) (c_bs c) data s)"
    by auto
  with v(5) words show "\<exists>par. fv_data v = [xc_stripe_size c, xc_block_size_index c] @ le_bytes 8 (of_nat (length data) :: u64) @
       le_bytes 4 (of_nat (xor_total c data) :: u32) @ par \<and> length par = xor_total c data * c_bs c \<and>
       (\<forall>s < xor_total c data. slice par (s * c_bs c) (c_bs c) = stripe_parity (c_ss c) (c_bs c) data s)"
    by auto
qed

section \<open>Validation\<close>

lemma xor_header:
  assumes "codec_ok c"
  shows "xor_parse_header ([xc_stripe_size c, xc_block_size_index c] @ le_bytes 8 n @ le_bytes 4 sc @ par) =
    Inr (xc_stripe_size c, xc_block_size c, n, sc)"
proof -
  let ?d = "[xc_stripe_size c, xc_block_size_index c] @ le_bytes 8 n @ le_bytes 4 sc @ par"
  have "slice ?d 2 8 = le_bytes 8 n" "slice ?d 10 4 = le_bytes 4 sc"
    by (simp_all add: slice_def)
  then show ?thesis
    using assms
    by (simp add: xor_parse_header_def HEADER_SIZE_def codec_ok_def block_size_for_index_def from_le_le_bytes)
qed

lemma xor_encode_validates:
  assumes "codec_ok c" "xor_encode_recovery c data = Inr v"
  shows "xor_validate c (fv_data v) = Inr ()"
proof -
  obtain par where par: "fv_data v = [xc_stripe_size c, xc_block_size_index c] @
      le_bytes 8 (of_nat (length data) :: u64) @ le_bytes 4 (of_nat (xor_total c data) :: u32) @ par"
    "length par = xor_total c data * c_bs c"
    using xor_encode_Inr(3) [OF assms] by auto
  have enc: "xor_encodable c data"
    by (rule xor_encode_Inr(1) [OF assms])
  then have u: "unat (of_nat (length data) :: u64) = length data" "unat (of_nat (xor_total c data) :: u32) = xor_total c data"
    by (simp_all add: xor_encodable_def)
  have "expected_stripe_count (of_nat (length data)) (xc_stripe_size c) (xc_block_size c) =
      Inr (of_nat (xor_total c data))"
    by (rule expected_stripe_count_Inr [OF codec_sizes [OF assms(1)], THEN iffD2])
      (use enc u in \<open>simp add: xor_encodable_def xor_total_def\<close>)
  moreover have "xor_parity_len (of_nat (xor_total c data)) (xc_block_size c) = Inr (xor_total c data * c_bs c)"
    by (simp add: xor_parity_len_Inr u(2))
  moreover have "length (fv_data v) = HEADER_SIZE + xor_total c data * c_bs c"
    by (simp add: par HEADER_SIZE_def)
  moreover have "xor_total c data * c_bs c \<le> MAX_PARITY_SIZE"
    using enc by (simp add: xor_encodable_def)
  ultimately show ?thesis
    unfolding xor_validate_def by (simp add: par(1) xor_header [OF assms(1)] checked_sub_usize_def del: append_Cons append_Nil)
qed

section \<open>Recovery\<close>

lemma recover_stripe_eq:
  assumes "codec_ok c" "sc * c_ss c * c_bs c \<le> usize_max" "k < sc" "length out = sc * c_ss c * c_bs c"
    and "slice parity (k * c_bs c) (c_bs c) = stripe_parity (c_ss c) (c_bs c) p k"
    and "intact (c_bs c) (sc * c_ss c) (ri_erasures inp) (ri_available_data inp) p"
  shows "recover_stripe c inp parity (c_ss c) (c_bs c) k out =
    (case stripe_lost (c_ss c) (ri_erasures inp) k of
       [] \<Rightarrow> Inr out
     | [e] \<Rightarrow> Inr (copy_into out ((k * c_ss c + e) * c_bs c) (blk (c_bs c) p (k * c_ss c + e)))
     | _ \<Rightarrow> Inl FecError.EcFailed)"
proof -
  let ?ss = "c_ss c" and ?bs = "c_bs c" and ?es = "ri_erasures inp" and ?a = "ri_available_data inp"
  note rng = codec_range [OF assms(1)]
  have "(k + 1) * ?ss \<le> sc * ?ss"
    using assms(3) by (intro mult_le_mono1) simp
  moreover have "sc * ?ss \<le> sc * ?ss * ?bs"
    using rng by simp
  ultimately have stripe_max: "(k + 1) * ?ss \<le> usize_max"
    using assms(2) by linarith
  then obtain lo hi :: u64 where ends: "unat lo = k * ?ss" "unat hi = (k + 1) * ?ss"
    "word_of_usize (k * ?ss) = Some lo" "word_of_usize ((k + 1) * ?ss) = Some hi"
    using that [of "of_nat (k * ?ss)" "of_nat ((k + 1) * ?ss)"] unat_of_nat_u64 [of "k * ?ss"] unat_of_nat_u64 [of "(k + 1) * ?ss"]
    unfolding word_of_usize_Some by (simp add: usize_max_def)
  have muls: "checked_mul_usize k ?ss = Some (k * ?ss)" "checked_mul_usize (k + 1) ?ss = Some ((k + 1) * ?ss)"
    using stripe_max by (simp_all add: checked_mul_usize_def)
  have erasures: "stripe_erasures ?es lo hi = stripe_lost ?ss ?es k"
    by (rule stripe_erasures_eq) (use rng ends in simp_all)
  have blocks: "block_bytes c ?a (k * ?ss + i) = Inr (blk ?bs ?a (k * ?ss + i))" if "i \<in> set [0..<?ss]" for i
  proof (rule block_bytes_eq)
    have "(k * ?ss + i) * ?bs \<le> sc * ?ss * ?bs"
      using block_index_bound [of k sc i ?ss] assms(3) that by (intro mult_le_mono1) simp
    then show "(k * ?ss + i) * ?bs \<le> usize_max"
      using assms(2) by linarith
  qed
  have fold: "foldR (\<lambda>i r. if i = e then Inr r else
        bindR (block_bytes c ?a (k * ?ss + i)) (\<lambda>b. Inr (xor_into r b))) [0..<?ss] q =
      Inr (xor_blocks (\<lambda>i. blk ?bs ?a (k * ?ss + i)) (filter (\<lambda>i. i \<noteq> e) [0..<?ss]) q)" for e q
    by (rule foldR_xor_blocks_skip) (rule blocks)
  have one: "xor_blocks (\<lambda>i. blk ?bs ?a (k * ?ss + i)) (filter (\<lambda>i. i \<noteq> e) [0..<?ss]) (stripe_parity ?ss ?bs p k) =
      blk ?bs p (k * ?ss + e)" "(k * ?ss + e) * ?bs + ?bs \<le> length out" if "stripe_lost ?ss ?es k = [e]" for e
  proof -
    have e: "e < ?ss"
      using that rng by (auto intro: stripe_lost_less [of ?ss e ?es k])
    have "blk ?bs ?a (k * ?ss + i) = blk ?bs p (k * ?ss + i)" if "i \<in> set [0..<?ss]" "i \<noteq> e" for i
    proof -
      have "k * ?ss + i \<notin> (\<lambda>e. unat (er_index e)) ` set ?es"
        using stripe_lost_iff [of ?ss i ?es k] \<open>stripe_lost ?ss ?es k = [e]\<close> that rng by simp
      then show ?thesis
        using assms(3,6) block_index_bound [of k sc i ?ss] that by (simp add: intact_def)
    qed
    with e show "xor_blocks (\<lambda>i. blk ?bs ?a (k * ?ss + i)) (filter (\<lambda>i. i \<noteq> e) [0..<?ss]) (stripe_parity ?ss ?bs p k) =
        blk ?bs p (k * ?ss + e)"
      unfolding stripe_parity_def by (intro xor_blocks_recover) simp_all
    show "(k * ?ss + e) * ?bs + ?bs \<le> length out"
      using row_bound [OF block_index_bound [OF assms(3) e]] assms(4) by simp
  qed
  show ?thesis
    unfolding recover_stripe_def muls ends(3,4) ok_or_Some bindR_Inr erasures fold assms(5)
    using one by (auto split: list.split)
qed

lemma recover_stripe_repairs:
  assumes "codec_ok c" "sc * c_ss c * c_bs c \<le> usize_max" "k < sc"
    and "slice parity (k * c_bs c) (c_bs c) = stripe_parity (c_ss c) (c_bs c) p k"
    and "intact (c_bs c) (sc * c_ss c) (ri_erasures inp) (ri_available_data inp) p"
    and rep: "repaired (c_ss c) (c_bs c) sc k p (ri_available_data inp) out"
  shows "if length (stripe_lost (c_ss c) (ri_erasures inp) k) \<le> 1
    then \<exists>out'. recover_stripe c inp parity (c_ss c) (c_bs c) k out = Inr out' \<and>
      repaired (c_ss c) (c_bs c) sc (Suc k) p (ri_available_data inp) out'
    else recover_stripe c inp parity (c_ss c) (c_bs c) k out = Inl FecError.EcFailed"
proof -
  let ?ss = "c_ss c" and ?bs = "c_bs c" and ?es = "ri_erasures inp" and ?a = "ri_available_data inp"
  note rng = codec_range [OF assms(1)]
  from rep have len: "length out = sc * ?ss * ?bs"
    and out: "\<And>i. i < sc * ?ss \<Longrightarrow> slice out (i * ?bs) ?bs = blk ?bs (if i < k * ?ss then p else ?a) i"
    by (simp_all add: repaired_def)
  note eq = recover_stripe_eq [OF assms(1-3) len assms(4,5)]
  have kept: "blk ?bs ?a i = blk ?bs p i"
    if "i < sc * ?ss" "\<not> i < k * ?ss" "i < Suc k * ?ss" "i - k * ?ss \<notin> set (stripe_lost ?ss ?es k)" for i
    using stripe_lost_iff [of ?ss "i - k * ?ss" ?es k] rng assms(5) that by (simp add: intact_def)
  consider "stripe_lost ?ss ?es k = []" | e where "stripe_lost ?ss ?es k = [e]"
    | "\<not> length (stripe_lost ?ss ?es k) \<le> 1"
    by (cases "stripe_lost ?ss ?es k" rule: remdups_adj.cases) auto
  then show ?thesis
  proof cases
    case 1
    have "slice out (i * ?bs) ?bs = blk ?bs (if i < Suc k * ?ss then p else ?a) i" if "i < sc * ?ss" for i
      using out [OF that] kept [OF that] 1 by (auto split: if_splits)
    with 1 len show ?thesis
      by (simp add: eq repaired_def)
  next
    case (2 e)
    let ?b = "k * ?ss + e"
    have e: "e < ?ss"
      using 2 rng by (auto intro: stripe_lost_less [of ?ss e ?es k])
    have fits: "i * ?bs + ?bs \<le> length out" if "i < sc * ?ss" for i
      using row_bound [OF that] len by simp
    have b: "?b < sc * ?ss"
      by (rule block_index_bound [OF assms(3) e])
    let ?out = "copy_into out (?b * ?bs) (blk ?bs p ?b)"
    have "slice ?out (i * ?bs) ?bs = blk ?bs (if i < Suc k * ?ss then p else ?a) i" if i: "i < sc * ?ss" for i
    proof (cases "i = ?b")
      case True
      then show ?thesis
        using fits [OF b] e by simp
    next
      case False
      then have "slice ?out (i * ?bs) ?bs = slice out (i * ?bs) ?bs"
        using slice_copy_block [OF length_blk fits [OF b] fits [OF i], of p ?b] by simp
      moreover have "i - k * ?ss \<notin> set (stripe_lost ?ss ?es k)" if "\<not> i < k * ?ss"
        using False that 2 by auto
      ultimately show ?thesis
        using out [OF i] kept [OF i] by auto
    qed
    then have "repaired ?ss ?bs sc (Suc k) p ?a ?out"
      using fits [OF b] len by (simp add: repaired_def)
    with 2 show ?thesis
      by (simp add: eq)
  next
    case 3
    then show ?thesis
      by (auto simp: eq split: list.split)
  qed
qed

definition xor_within :: "XorCodec \<Rightarrow> Erasure list \<Rightarrow> bytes \<Rightarrow> bool" where
  "xor_within c es p \<longleftrightarrow> (\<forall>s < xor_total c p. length (stripe_lost (c_ss c) es s) \<le> 1)"

definition xor_agree :: "XorCodec \<Rightarrow> Erasure list \<Rightarrow> bytes \<Rightarrow> bytes \<Rightarrow> bool" where
  "xor_agree c es a p \<longleftrightarrow> intact (c_bs c) (xor_total c p * c_ss c) es a p"

lemma xor_recover_encoded:
  assumes "codec_ok c" "xor_encode_recovery c p = Inr v" "xor_agree c es a p"
  shows "xor_recover c \<lparr> ri_original_protected_len = of_nat (length p), ri_available_data = a,
      ri_fec_value_data = fv_data v, ri_erasures = es \<rparr> =
    (if xor_within c es p then Inr p else Inl FecError.EcFailed)"
proof -
  let ?ss = "c_ss c" and ?bs = "c_bs c" and ?n = "xor_total c p"
  let ?inp = "\<lparr> ri_original_protected_len = of_nat (length p), ri_available_data = a,
      ri_fec_value_data = fv_data v, ri_erasures = es \<rparr>"
  note rng = codec_range [OF assms(1)]
  obtain par where par: "fv_data v = [xc_stripe_size c, xc_block_size_index c] @
      le_bytes 8 (of_nat (length p) :: u64) @ le_bytes 4 (of_nat ?n :: u32) @ par"
    "length par = ?n * ?bs" "\<And>s. s < ?n \<Longrightarrow> slice par (s * ?bs) ?bs = stripe_parity ?ss ?bs p s"
    using xor_encode_Inr(3) [OF assms(1,2)] by auto
  have enc: "xor_encodable c p"
    by (rule xor_encode_Inr(1) [OF assms(1,2)])
  then have u: "unat (of_nat (length p) :: u64) = length p" "unat (of_nat ?n :: u32) = ?n"
    by (simp_all add: xor_encodable_def)
  have bound: "?n * ?ss * ?bs \<le> usize_max"
    using xor_total_bound [OF assms(1), of p] enc by (simp add: xor_encodable_def usize_max_def)
  have "?n * ?ss \<le> ?n * ?ss * ?bs"
    using rng by simp
  also note bound
  finally have mul: "checked_mul_usize ?n ?ss = Some (?n * ?ss)"
    "checked_mul_usize (?n * ?ss) ?bs = Some (?n * ?ss * ?bs)"
    using bound by (simp_all only: checked_mul_usize_Some)
  have parity: "slice (fv_data v) HEADER_SIZE (?n * ?bs) = par"
    by (simp add: par(1,2) HEADER_SIZE_def slice_def)
  have hdr: "xor_parse_header (fv_data v) = Inr (xc_stripe_size c, xc_block_size c, of_nat (length p), of_nat ?n)"
    unfolding par(1) by (rule xor_header [OF assms(1)])
  have plen: "xor_parity_len (of_nat ?n) (xc_block_size c) = Inr (?n * ?bs)"
    by (simp add: xor_parity_len_Inr u(2))
  let ?out = "copy_into (replicate (?n * ?ss * ?bs) 0) 0 (take (min (?n * ?ss * ?bs) (length a)) a)"
  have run: "xor_recover c ?inp =
      bindR (foldR (recover_stripe c ?inp par ?ss ?bs) [0..<?n] ?out) (\<lambda>out. Inr (take (length p) out))"
    unfolding xor_recover_def Let_def
    by (simp add: hdr xor_encode_validates [OF assms(1,2)] u mul plen parity)
  have inp: "ri_erasures ?inp = es" "ri_available_data ?inp = a" "intact ?bs (?n * ?ss) es a p"
    using assms(3) by (simp_all add: xor_agree_def)
  have start: "repaired ?ss ?bs ?n 0 p a ?out"
    using initial_blocks by (auto simp: repaired_def copy_into_def min_def)
  have rows: "if \<forall>s < ?n. length (stripe_lost ?ss es s) \<le> 1
    then \<exists>out'. foldR (recover_stripe c ?inp par ?ss ?bs) [0..<?n] ?out = Inr out' \<and> repaired ?ss ?bs ?n ?n p a out'
    else foldR (recover_stripe c ?inp par ?ss ?bs) [0..<?n] ?out = Inl FecError.EcFailed"
  proof (rule repair_rows [OF _ start order_refl])
    fix k out assume "k < ?n" "repaired ?ss ?bs ?n k p a out"
    then show "if length (stripe_lost ?ss es k) \<le> 1
      then \<exists>out'. recover_stripe c ?inp par ?ss ?bs k out = Inr out' \<and> repaired ?ss ?bs ?n (Suc k) p a out'
      else recover_stripe c ?inp par ?ss ?bs k out = Inl FecError.EcFailed"
      using recover_stripe_repairs [OF assms(1) bound _ par(3), of k ?inp out] inp(3) by (simp cong: if_cong)
  qed
  have fits: "length p \<le> ?n * ?ss * ?bs"
    using stripes_bounds [of "?ss * ?bs" "length p"] rng by (simp add: xor_total_def mult.assoc)
  show ?thesis
  proof (cases "xor_within c es p")
    case True
    with rows obtain out where "foldR (recover_stripe c ?inp par ?ss ?bs) [0..<?n] ?out = Inr out"
      "repaired ?ss ?bs ?n ?n p a out"
      by (auto simp: xor_within_def)
    with True show ?thesis
      using padded_take [OF _ fits, of out] by (simp add: run repaired_def)
  next
    case False
    then show ?thesis
      using rows by (auto simp: xor_within_def run)
  qed
qed

lemma xor_encode_defined:
  assumes "codec_ok c" "xor_encodable c p"
  shows "\<exists>v. xor_encode_recovery c p = Inr v"
proof -
  let ?ss = "c_ss c" and ?bs = "c_bs c" and ?n = "xor_total c p"
  have u: "unat (of_nat (length p) :: u64) = length p" "unat (of_nat ?n :: u32) = ?n"
    using assms(2) by (simp_all add: xor_encodable_def)
  have count: "expected_stripe_count (of_nat (length p)) (xc_stripe_size c) (xc_block_size c) = Inr (of_nat ?n)"
    by (rule expected_stripe_count_Inr [OF codec_sizes [OF assms(1)], THEN iffD2])
      (use assms(2) u in \<open>simp add: xor_encodable_def xor_total_def\<close>)
  have plen: "xor_parity_len (of_nat ?n) (xc_block_size c) = Inr (?n * ?bs)"
    by (simp add: xor_parity_len_Inr u(2))
  have mul: "checked_mul_usize ?n ?bs = Some (?n * ?bs)"
    using assms(2) by (simp add: xor_encodable_def MAX_PARITY_SIZE_def usize_max_def)
  have "?n * ?ss * ?bs \<le> usize_max"
    using xor_total_bound [OF assms(1), of p] assms(2) by (simp add: xor_encodable_def usize_max_def)
  from encode_stripes [OF this order_refl, of p] obtain par where
    "foldR (encode_stripe c p ?ss ?bs) [0..<?n] (replicate (?n * ?bs) 0) = Inr par"
    by blast
  then show ?thesis
    using assms(2) unfolding xor_encode_recovery_def Let_def
    by (simp add: count plen mul u xor_encodable_def)
qed

section \<open>The interface, and the properties of the code\<close>

definition xor_fec_encode :: "u8 \<Rightarrow> u8 \<Rightarrow> bytes \<Rightarrow> FecError + bytes" where
  "xor_fec_encode ss bi p =
     bindR (XorCodec_new ss bi) (\<lambda>c. bindR (xor_encode_recovery c p) (\<lambda>v. Inr (fv_data v)))"

definition xor_fec_recover :: "bytes \<Rightarrow> nat \<Rightarrow> bytes \<Rightarrow> Erasure list \<Rightarrow> FecError + bytes" where
  "xor_fec_recover v n a es = bindR (XorCodec_from_fec_value v) (\<lambda>c.
     xor_recover c \<lparr> ri_original_protected_len = of_nat n, ri_available_data = a,
       ri_fec_value_data = v, ri_erasures = es \<rparr>)"

text \<open>The parameters of a configuration, with those of the smallest block for a reserved one.\<close>

definition xor_config :: "u8 \<Rightarrow> u8 \<Rightarrow> XorCodec" where
  "xor_config ss bi = (case XorCodec_new ss bi of Inr c \<Rightarrow> c
     | Inl _ \<Rightarrow> \<lparr> xc_stripe_size = ss, xc_block_size = 256, xc_block_size_index = bi \<rparr>)"

lemma xor_fec_encode_Inr:
  assumes "xor_fec_encode ss bi p = Inr d"
  obtains v where "codec_ok (xor_config ss bi)" "xor_encode_recovery (xor_config ss bi) p = Inr v" "fv_data v = d"
    "XorCodec_from_fec_value d = Inr (xor_config ss bi)"
proof -
  from assms obtain c v where c: "XorCodec_new ss bi = Inr c" "xor_encode_recovery c p = Inr v" "fv_data v = d"
    by (auto simp: xor_fec_encode_def bindR_eq_Inr)
  then have ok: "codec_ok c" "xc_stripe_size c = ss" "xc_block_size_index c = bi"
    by (simp_all add: XorCodec_new_Inr)
  obtain rest where "d = ss # bi # rest"
    using xor_encode_Inr(3) [OF ok(1) c(2)] c(3) ok(2,3) by auto
  then have "XorCodec_from_fec_value d = Inr c"
    using c(1) by (simp add: XorCodec_from_fec_value_def)
  with c ok(1) that [of v] show ?thesis
    by (simp add: xor_config_def)
qed

interpretation xor: erasure_codec "xor_fec_encode ss bi" xor_fec_recover "xor_agree (xor_config ss bi)"
  "xor_within (xor_config ss bi)" for ss bi
proof
  fix p d es a
  assume "xor_fec_encode ss bi p = Inr d" "xor_agree (xor_config ss bi) es a p"
  then show "xor_fec_recover d (length p) a es =
      (if xor_within (xor_config ss bi) es p then Inr p else Inl FecError.EcFailed)"
    by (elim xor_fec_encode_Inr) (simp add: xor_fec_recover_def xor_recover_encoded [symmetric])
qed (simp_all add: xor_agree_def intact_def xor_within_def)

text \<open>
  (C8) The XOR code does what an erasure code promises.  Encoding succeeds exactly when the parity
  fits its limits; the encoded value passes \<^verbatim>\<open>validate\<close>; and from any damaged copy that agrees with
  the protected bytes outside the listed erasures, \<^verbatim>\<open>recover\<close> returns the protected bytes when no
  stripe has two listed erasures and \<^verbatim>\<open>EcFailed\<close> when one has.
\<close>

theorem xor_recover_exact:
  assumes "XorCodec_new ss bi = Inr c"
  shows "((\<exists>v. xor_encode_recovery c p = Inr v) \<longleftrightarrow> xor_encodable c p) \<and>
    (\<forall>v. xor_encode_recovery c p = Inr v \<longrightarrow> validate_xor_fec_value (fv_data v) = Inr () \<and>
      (\<forall>es a. xor_agree c es a p \<longrightarrow>
        xor_recover c \<lparr> ri_original_protected_len = of_nat (length p), ri_available_data = a,
          ri_fec_value_data = fv_data v, ri_erasures = es \<rparr> =
        (if xor_within c es p then Inr p else Inl FecError.EcFailed)))"
proof -
  from assms have ok: "codec_ok c"
    by (simp add: XorCodec_new_Inr)
  have "validate_xor_fec_value (fv_data v) = Inr ()" if v: "xor_encode_recovery c p = Inr v" for v
  proof -
    have "xor_fec_encode ss bi p = Inr (fv_data v)" "xor_config ss bi = c"
      using assms v by (simp_all add: xor_fec_encode_def xor_config_def)
    then have "XorCodec_from_fec_value (fv_data v) = Inr c"
      by (elim xor_fec_encode_Inr) simp
    then show ?thesis
      using xor_encode_validates [OF ok v] by (simp add: validate_xor_fec_value_def)
  qed
  then show ?thesis
    using xor_encode_defined [OF ok] xor_encode_Inr(1) [OF ok] xor_recover_encoded [OF ok] by blast
qed

lemma xor_recover_exact_witness:
  "\<exists>v. xor_encode_recovery \<lparr> xc_stripe_size = 2, xc_block_size = 256, xc_block_size_index = 0 \<rparr> [5] = Inr v \<and>
     xor_recover \<lparr> xc_stripe_size = 2, xc_block_size = 256, xc_block_size_index = 0 \<rparr>
       \<lparr> ri_original_protected_len = 1, ri_available_data = [], ri_fec_value_data = fv_data v,
         ri_erasures = [\<lparr> er_index = 0 \<rparr>] \<rparr> = Inr [5]"
proof -
  let ?c = "\<lparr> xc_stripe_size = 2, xc_block_size = 256, xc_block_size_index = 0 \<rparr>"
  have c: "XorCodec_new 2 0 = Inr ?c"
    by (simp add: XorCodec_new_def block_size_for_index_def BLOCK_SIZE_TABLE_def)
  have total: "xor_total ?c [5] = 1"
    by (simp add: xor_total_def stripes_def)
  have "blk 256 [] 1 = blk 256 [5 :: u8] 1"
    by (simp add: blk_def slice_def)
  then have "xor_agree ?c [\<lparr> er_index = 0 \<rparr>] [] [5]" "xor_within ?c [\<lparr> er_index = 0 \<rparr>] [5]" "xor_encodable ?c [5]"
    by (auto simp: xor_agree_def intact_def total xor_within_def stripe_lost_def xor_encodable_def MAX_PARITY_SIZE_def
        less_2_cases_iff)
  then show ?thesis
    using xor_recover_exact [OF c, of "[5]"] by auto
qed

text \<open>
  (C22) The distance of the XOR code: contents of the same length that differ in at least one block,
  but in no two blocks of a stripe, have different recovery values.
\<close>

theorem xor_values_differ:
  assumes "p \<noteq> q" "length p = length q"
    and "xor_agree (xor_config ss bi) es q p" "xor_within (xor_config ss bi) es p"
    and "xor_fec_encode ss bi p = Inr d"
  shows "xor_fec_encode ss bi q \<noteq> Inr d"
  using xor.value_determines [OF assms(5) _ assms(2-4)] assms(1) by blast

lemma xor_values_differ_witness:
  "xor_fec_encode 2 0 [1] \<noteq> xor_fec_encode 2 0 [6]"
proof -
  have c: "xor_config 2 0 = \<lparr> xc_stripe_size = 2, xc_block_size = 256, xc_block_size_index = 0 \<rparr>"
    by (simp add: xor_config_def XorCodec_new_def block_size_for_index_def BLOCK_SIZE_TABLE_def)
  have total: "xor_total (xor_config 2 0) [1] = 1"
    by (simp add: c xor_total_def stripes_def)
  have "blk 256 [6] 1 = blk 256 [1 :: u8] 1"
    by (simp add: blk_def slice_def)
  then have hyps: "xor_agree (xor_config 2 0) [\<lparr> er_index = 0 \<rparr>] [6] [1]" "xor_within (xor_config 2 0) [\<lparr> er_index = 0 \<rparr>] [1]"
    by (auto simp: xor_agree_def intact_def total [unfolded c] c xor_within_def stripe_lost_def less_2_cases_iff)
  have "codec_ok (xor_config 2 0)" "xor_encodable (xor_config 2 0) [1]"
    by (simp_all add: c codec_ok_def BLOCK_SIZE_TABLE_def xor_encodable_def xor_total_def stripes_def MAX_PARITY_SIZE_def)
  then obtain d where "xor_fec_encode 2 0 [1] = Inr d"
    using xor_encode_defined [of "xor_config 2 0" "[1]"]
    by (auto simp: xor_fec_encode_def c XorCodec_new_def block_size_for_index_def BLOCK_SIZE_TABLE_def)
  then show ?thesis
    using xor_values_differ [of "[1]" "[6]" 2 0 "[\<lparr> er_index = 0 \<rparr>]" d] hyps by auto
qed

end
