(* ===== verification/Sar_Gf.thy ===== *)
theory Sar_Gf
  imports Sar_Prelude
begin

text \<open>
  The arithmetic of GF(2^8) of \<^verbatim>\<open>crates/sar-fec/src/rs/gf.rs\<close>: the tables of powers and logarithms and
  the operations over them.  The lemmas show that the table operations are the operations of a
  field; the type \<open>gf\<close> of bytes under these operations is an instance of the class \<^verbatim>\<open>field\<close>, so that
  the algebra of the library applies to the Reed-Solomon codec.
\<close>

unbundle bit_operations_syntax

section \<open>Tables\<close>

fun gf_mul_loop :: "nat \<Rightarrow> u8 \<Rightarrow> u8 \<Rightarrow> u8 \<Rightarrow> u8" where
  "gf_mul_loop 0 a b p = p"
| "gf_mul_loop (Suc n) a b p =
     (let p' = (if b AND 1 \<noteq> 0 then p XOR a else p);
          hi = a AND 0x80;
          a' = push_bit 1 a;
          a'' = (if hi \<noteq> 0 then a' XOR 0x1D else a')
      in gf_mul_loop n a'' (drop_bit 1 b) p')"

definition gf_mul_raw :: "u8 \<Rightarrow> u8 \<Rightarrow> u8" where
  "gf_mul_raw a b = gf_mul_loop 8 a b 0"

definition build_exp_table :: "u8 list" where
  "build_exp_table =
     (let (exp_tab, x) = fold (\<lambda>i (exp_tab, x). (exp_tab[i := x, i + 255 := x], gf_mul_raw x 2))
            [0..<255] (replicate 512 0, 1)
      in exp_tab[255 := 1, 510 := 1, 511 := 2])"

definition build_log_table :: "u8 list \<Rightarrow> u8 list" where
  "build_log_table exp_tab =
     fold (\<lambda>i log_tab. log_tab[unat (exp_tab ! i) := of_nat i]) [0..<255] (replicate 256 0)"

definition EXP :: "u8 list" where
  "EXP = build_exp_table"

definition LOG :: "u8 list" where
  "LOG = build_log_table EXP"

section \<open>Operations\<close>

definition gf_mul :: "u8 \<Rightarrow> u8 \<Rightarrow> u8" where
  "gf_mul a b = (if a = 0 \<or> b = 0 then 0 else EXP ! (unat (LOG ! unat a) + unat (LOG ! unat b)))"

text \<open>Without the debug assertion: a zero divisor gives an unspecified byte, as in a release build.\<close>

definition gf_div :: "u8 \<Rightarrow> u8 \<Rightarrow> u8" where
  "gf_div a b = (if a = 0 then 0 else
     let log_a = unat (LOG ! unat a); log_b = unat (LOG ! unat b) in
     EXP ! ((log_a + 255 - log_b) mod 255))"

definition gf_add :: "u8 \<Rightarrow> u8 \<Rightarrow> u8" where
  "gf_add a b = a XOR b"

definition gf_pow :: "u32 \<Rightarrow> u8" where
  "gf_pow n = (if n = 0 then 1 else EXP ! unat (n mod 255))"

section \<open>Multiplication by the generator\<close>

definition xtime :: "u8 \<Rightarrow> u8" where
  "xtime a = (if bit a 7 then push_bit 1 a XOR 0x1D else push_bit 1 a)"

lemma and_0x80: "(a :: u8) AND 0x80 = 0 \<longleftrightarrow> \<not> bit a 7"
proof -
  have "(a :: u8) AND 2 ^ 7 = 0 \<longleftrightarrow> \<not> bit a 7"
    by (metis and_exp_eq_0_iff_not_bit)
  then show ?thesis
    by simp
qed

lemma and_1: "(b :: u8) AND 1 = 0 \<longleftrightarrow> \<not> bit b 0"
  by (simp add: and_one_eq bit_0 even_iff_mod_2_eq_zero)

lemma gf_mul_loop_Suc:
  "gf_mul_loop (Suc n) a b p = gf_mul_loop n (xtime a) (drop_bit 1 b) (if bit b 0 then p XOR a else p)"
  by (simp add: Let_def and_1 and_0x80 xtime_def)

lemma xtime_0 [simp]: "xtime 0 = 0"
  by (simp add: xtime_def)

lemma xtime_xor: "xtime (a XOR b) = xtime a XOR xtime b"
  by (simp add: xtime_def bit_xor_iff push_bit_xor ac_simps)

lemma xtime_eq_0: "xtime a = 0 \<longleftrightarrow> a = 0"
proof
  assume eq: "xtime a = 0"
  show "a = 0"
  proof (cases "bit a 7")
    case True
    then have "bit (xtime a) 0 \<longleftrightarrow> bit (push_bit 1 a) 0 \<noteq> bit (0x1D :: u8) 0"
      by (simp add: xtime_def bit_xor_iff)
    also have "\<dots>"
      by (simp add: bit_push_bit_iff del: push_bit_Suc)
    finally have "bit (xtime a) 0" .
    with eq show ?thesis
      by simp
  next
    case False
    then have push: "push_bit 1 a = 0"
      using eq by (simp add: xtime_def)
    show ?thesis
    proof (rule bit_word_eqI)
      fix n assume "n < LENGTH(8)"
      then have n: "n < 8"
        by simp
      have "\<not> bit (push_bit 1 a) (Suc n)"
        unfolding push by simp
      then show "bit a n = bit 0 n"
        using n False by (cases "n = 7") (auto simp: bit_push_bit_iff simp del: push_bit_Suc)
    qed
  qed
qed simp

lemma xor_eq_0: "a XOR b = 0 \<longleftrightarrow> a = (b :: u8)"
proof
  assume "a XOR b = 0"
  then have "(a XOR b) XOR b = b"
    by simp
  then show "a = b"
    by (simp add: xor.assoc)
qed simp

lemma xtime_inj: "xtime a = xtime b \<Longrightarrow> a = b"
  using xtime_eq_0 [of "a XOR b"] by (simp add: xtime_xor xor_eq_0)

definition pw :: "nat \<Rightarrow> u8" where
  "pw n = (xtime ^^ n) 1"

lemma pw_0 [simp]: "pw 0 = 1"
  by (simp add: pw_def)

lemma pw_Suc: "pw (Suc n) = xtime (pw n)"
  by (simp add: pw_def)

lemma pw_add: "pw (m + n) = (xtime ^^ m) (pw n)"
  by (simp add: pw_def funpow_add)

lemma xtime_iter_inj: "(xtime ^^ m) a = (xtime ^^ m) b \<Longrightarrow> a = b"
  by (induction m) (auto dest: xtime_inj)

lemma pw_nonzero [simp]: "pw n \<noteq> 0"
  by (induction n) (simp_all add: pw_Suc xtime_eq_0)

lemma mul_loop_xor: "gf_mul_loop n a b p = p XOR gf_mul_loop n a b 0"
proof (induction n arbitrary: a b p)
  case (Suc n)
  show ?case
    using Suc [of _ _ "p XOR a"] Suc [of _ _ a] Suc [of _ _ p]
    by (simp add: gf_mul_loop_Suc xor.assoc del: gf_mul_loop.simps(2))
qed simp

lemma mul_loop_add: "gf_mul_loop n a (b XOR c) 0 = gf_mul_loop n a b 0 XOR gf_mul_loop n a c 0"
proof (induction n arbitrary: a b c)
  case (Suc n)
  show ?case
    using Suc [of "xtime a" "drop_bit 1 b" "drop_bit 1 c"] mul_loop_xor [of n "xtime a" _ a]
    by (simp add: gf_mul_loop_Suc bit_xor_iff drop_bit_xor ac_simps del: gf_mul_loop.simps(2))
qed simp

lemma mul_loop_xtime: "gf_mul_loop n (xtime a) b 0 = xtime (gf_mul_loop n a b 0)"
proof (induction n arbitrary: a b)
  case (Suc n)
  show ?case
    using Suc [of "xtime a" "drop_bit 1 b"] mul_loop_xor [of n _ _ a] mul_loop_xor [of n _ _ "xtime a"]
    by (simp add: gf_mul_loop_Suc xtime_xor del: gf_mul_loop.simps(2))
qed simp

lemma xtime_exp: "i < 7 \<Longrightarrow> xtime (push_bit i 1) = push_bit (Suc i) 1"
  by (auto simp: xtime_def bit_push_bit_iff bit_1_iff push_bit_push_bit simp del: push_bit_Suc push_bit_of_1)

lemma mul_loop_exp:
  "i + n \<le> 8 \<Longrightarrow> bit (gf_mul_loop n (push_bit i 1) b 0) m \<longleftrightarrow> i \<le> m \<and> m < i + n \<and> bit b (m - i)"
proof (induction n arbitrary: i b)
  case (Suc n)
  let ?q = "if bit b 0 then push_bit i 1 else 0 :: u8"
  have step: "gf_mul_loop (Suc n) (push_bit i 1) b 0 = ?q XOR gf_mul_loop n (xtime (push_bit i 1)) (drop_bit 1 b) 0"
    unfolding gf_mul_loop_Suc by (subst mul_loop_xor) simp
  have q: "bit ?q m \<longleftrightarrow> m = i \<and> bit b 0"
    using Suc.prems by (auto simp: bit_push_bit_iff bit_1_iff simp del: push_bit_of_1)
  show ?case
  proof (cases n)
    case 0
    then show ?thesis
      unfolding step bit_xor_iff q by auto
  next
    case (Suc k)
    then have "xtime (push_bit i 1) = push_bit (Suc i) 1"
      using Suc.prems by (intro xtime_exp) simp
    moreover have "Suc (m - Suc i) = m - i" if "Suc i \<le> m"
      using that by simp
    ultimately show ?thesis
      unfolding step bit_xor_iff q using Suc.IH [of "Suc i" "drop_bit 1 b"] Suc.prems
      by (cases "m = i") (auto simp: bit_drop_bit_eq not_less_eq_eq simp del: push_bit_of_1 push_bit_Suc)
  qed
qed simp

lemma mul_raw_1: "gf_mul_raw 1 b = b"
proof (rule bit_word_eqI)
  fix n assume "n < LENGTH(8)"
  then show "bit (gf_mul_raw 1 b) n = bit b n"
    using mul_loop_exp [of 0 8 b n] by (simp add: gf_mul_raw_def)
qed

lemma mul_raw_pw: "gf_mul_raw (pw i) b = (xtime ^^ i) b"
proof (induction i)
  case (Suc i)
  then show ?case
    by (simp add: pw_Suc gf_mul_raw_def mul_loop_xtime)
qed (simp add: mul_raw_1)

lemma mul_raw_2: "gf_mul_raw a 2 = xtime a"
proof -
  have "gf_mul_raw a 2 = gf_mul_loop 1 (xtime a) 1 0 XOR 0"
    by (simp add: gf_mul_raw_def eval_nat_numeral gf_mul_loop_Suc bit_drop_bit_eq bit_0 del: gf_mul_loop.simps(2))
  then show ?thesis
    by simp
qed

section \<open>The order of the generator\<close>

lemma pw_numeral: "pw (numeral k) = xtime (pw (pred_numeral k))"
  by (simp add: numeral_eq_Suc pw_Suc)

lemma xtime_numeral: "xtime 1 = 2"
  "xtime (numeral k) = (if bit (numeral k :: u8) 7 then push_bit 1 (numeral k) XOR 0x1D else push_bit 1 (numeral k))"
  by (simp_all add: xtime_def)

lemma pw_1: "pw (Suc 0) = 2"
  by (simp add: pw_Suc xtime_numeral)

lemma pw_15: "pw 15 = 0x26"
  by (simp add: pw_numeral pw_1 xtime_numeral)

lemma pw_51: "pw 51 = 0xa"
  by (simp add: pw_numeral pw_1 xtime_numeral)

lemma pw_85: "pw 85 = 0xd6"
  by (simp add: pw_numeral pw_1 xtime_numeral)

lemma pw_255: "pw 255 = 1"
  by (simp add: pw_numeral pw_1 xtime_numeral)

lemma pw_plus_255: "pw (n + 255) = pw n"
  by (simp only: pw_add pw_255) (simp only: pw_def)

lemma pw_period: "pw (n + 255 * m) = pw n"
proof (induction m)
  case (Suc m)
  have "pw (n + 255 * Suc m) = pw (n + 255 * m + 255)"
    by (rule arg_cong [of _ _ pw]) simp
  then show ?case
    unfolding pw_plus_255 using Suc by simp
qed simp

lemma pw_mod: "pw (n mod 255) = pw n"
  using pw_period [of "n mod 255" "n div 255"] by simp

lemma pw_mult_one: "pw d = 1 \<Longrightarrow> pw (d * m) = 1"
proof (induction m)
  case (Suc m)
  then have "pw (d + d * m) = pw d"
    unfolding pw_add by (simp add: pw_def)
  with Suc show ?case
    by simp
qed simp

lemma divisors_255: "list_all (\<lambda>g. g dvd 255 \<longrightarrow> g dvd 85 \<or> g dvd 51 \<or> g dvd 15) [1..<255]"
  by code_simp

lemma no_short_period:
  assumes "pw d = 1" "0 < d" "d < 255"
  shows False
proof -
  let ?g = "gcd d 255"
  obtain x y where bez: "d * x = 255 * y + ?g"
    using bezout_nat [of d 255] assms(2) by auto
  have g: "pw ?g = 1"
    using pw_mult_one [OF assms(1), of x] pw_period [of ?g y] by (simp add: bez add.commute)
  have "?g \<le> d" "0 < ?g"
    using assms(2) by (auto intro: dvd_imp_le)
  then have "?g \<in> set [1..<255]"
    using assms(3) by (simp add: Suc_le_eq)
  then have "?g dvd 85 \<or> ?g dvd 51 \<or> ?g dvd 15"
    using divisors_255 unfolding list_all_iff by (meson gcd_dvd2)
  then have "pw 85 = 1 \<or> pw 51 = 1 \<or> pw 15 = 1"
    using pw_mult_one [OF g] by (metis dvdE)
  then show False
    by (simp add: pw_15 pw_51 pw_85)
qed

lemma pw_inj: "i < 255 \<Longrightarrow> j < 255 \<Longrightarrow> pw i = pw j \<Longrightarrow> i = j"
proof (induction i j rule: linorder_wlog)
  case (le i j)
  then have "pw (i + (j - i)) = pw (i + 0)"
    by simp
  then have "pw (j - i) = 1"
    unfolding pw_add by (auto dest: xtime_iter_inj)
  with le show ?case
    using no_short_period [of "j - i"] by (cases "i = j") (auto simp: less_imp_diff_less)
qed auto

lemma pw_surj: "a \<noteq> 0 \<Longrightarrow> \<exists>i < 255. a = pw i"
proof -
  assume a: "a \<noteq> 0"
  have "card (pw ` {..<255}) = 255"
    by (subst card_image) (auto intro: inj_onI pw_inj)
  moreover have "card (UNIV - {0 :: u8}) = 255"
    by (simp add: card_word)
  ultimately have "pw ` {..<255} = UNIV - {0}"
    by (intro card_subset_eq) auto
  with a show ?thesis
    by blast
qed

section \<open>The tables hold powers and logarithms\<close>

lemma exp_loop:
  "n \<le> 255 \<Longrightarrow> fold (\<lambda>i (exp_tab, x). (exp_tab[i := x, i + 255 := x], gf_mul_raw x 2)) [0..<n] (replicate 512 0, 1) =
     (map (\<lambda>j. if j < n then pw j else if 255 \<le> j \<and> j < 255 + n then pw (j - 255) else 0) [0..<512], pw n)"
proof (induction n)
  case 0
  show ?case
    by (auto intro!: nth_equalityI)
next
  case (Suc n)
  then show ?case
    by (auto intro!: nth_equalityI simp: mul_raw_2 pw_Suc nth_list_update less_Suc_eq)
qed

lemma length_EXP [simp]: "length EXP = 512"
  by (simp add: EXP_def build_exp_table_def exp_loop)

lemma nth_EXP: "i < 512 \<Longrightarrow> EXP ! i = pw i"
proof -
  assume i: "i < 512"
  have p: "pw 510 = 1" "pw 511 = 2"
    using pw_plus_255 [of 255] pw_plus_255 [of 256] pw_plus_255 [of 1] by (simp_all add: pw_255 pw_1)
  have "pw (i - 255) = pw i" if "255 \<le> i"
    using pw_plus_255 [of "i - 255"] that by simp
  then show ?thesis
    using i by (auto simp: EXP_def build_exp_table_def exp_loop nth_list_update p pw_255)
qed

lemma log_loop:
  "n \<le> 255 \<Longrightarrow> fold (\<lambda>i log_tab. log_tab[unat (EXP ! i) := of_nat i]) [0..<n] (replicate 256 0) = (tab :: u8 list) \<Longrightarrow>
   length tab = 256 \<and> (\<forall>i < n. tab ! unat (pw i) = of_nat i)"
proof (induction n arbitrary: tab)
  case (Suc n)
  let ?tab = "fold (\<lambda>i log_tab. log_tab[unat (EXP ! i) := of_nat i]) [0..<n] (replicate 256 0) :: u8 list"
  have tab': "tab = ?tab[unat (pw n) := of_nat n]" "length ?tab = 256"
    "\<And>i. i < n \<Longrightarrow> ?tab ! unat (pw i) = of_nat i"
    using Suc by (simp_all add: nth_EXP)
  have "unat (pw n) \<noteq> unat (pw i)" if "i < n" for i
    using that Suc.prems(1) pw_inj [of i n] by (auto dest: unat_eqI)
  with tab' show ?case
    by (auto simp: less_Suc_eq nth_list_update)
qed simp

lemma length_LOG [simp]: "length LOG = 256"
  using log_loop [OF order_refl refl] by (simp add: LOG_def build_log_table_def)

lemma LOG_pw: "i < 255 \<Longrightarrow> unat (LOG ! unat (pw i)) = i"
  using log_loop [OF order_refl refl] by (simp add: LOG_def build_log_table_def)

section \<open>Field laws\<close>

lemma gf_mul_pw: "gf_mul (pw i) (pw j) = pw (i + j)"
proof -
  have "gf_mul (pw (i mod 255)) (pw (j mod 255)) = pw (i mod 255 + j mod 255)"
    by (simp add: gf_mul_def LOG_pw nth_EXP)
  then have "gf_mul (pw i) (pw j) = pw ((i mod 255 + j mod 255) mod 255)"
    by (simp only: pw_mod)
  then show ?thesis
    by (simp only: mod_add_eq pw_mod)
qed

lemma gf_div_pw: "i < 255 \<Longrightarrow> j < 255 \<Longrightarrow> gf_mul (pw j) (gf_div (pw i) (pw j)) = pw i"
proof -
  assume ij: "i < 255" "j < 255"
  then have "gf_div (pw i) (pw j) = pw (i + 255 - j)"
    by (simp add: gf_div_def LOG_pw nth_EXP pw_mod)
  then show ?thesis
    using ij pw_plus_255 [of i] by (simp add: gf_mul_pw)
qed

lemma gf_pow_eq: "gf_pow n = pw (unat n)"
proof -
  have "unat (n mod 255) = unat n mod 255"
    by (simp add: unat_mod)
  moreover have "unat n mod 255 < 512"
    by (rule less_trans [OF mod_less_divisor]) simp_all
  ultimately show ?thesis
    by (simp add: gf_pow_def nth_EXP pw_mod)
qed

text \<open>The table product is the carry-less product modulo the field polynomial.\<close>

lemma gf_mul_raw_eq: "gf_mul a b = gf_mul_raw a b"
proof (cases "a = 0 \<or> b = 0")
  case True
  have "gf_mul_loop n a 0 0 = 0" "gf_mul_loop n 0 b 0 = 0" for n
    by (induction n arbitrary: a b) (simp_all add: gf_mul_loop_Suc del: gf_mul_loop.simps(2))
  with True show ?thesis
    by (auto simp: gf_mul_def gf_mul_raw_def)
next
  case False
  then obtain i j where "a = pw i" "b = pw j"
    using pw_surj by meson
  then show ?thesis
    by (simp add: gf_mul_pw mul_raw_pw pw_add)
qed

lemma gf_mul_zero [simp]: "gf_mul 0 a = 0" "gf_mul a 0 = 0"
  by (simp_all add: gf_mul_def)

lemma gf_mul_commute: "gf_mul a b = gf_mul b a"
  by (simp add: gf_mul_def add.commute)

lemma gf_mul_one: "gf_mul 1 a = a"
  by (simp add: gf_mul_raw_eq mul_raw_1)

lemma gf_mul_assoc: "gf_mul (gf_mul a b) c = gf_mul a (gf_mul b c)"
proof (cases "a = 0 \<or> b = 0 \<or> c = 0")
  case False
  then obtain i j k where "a = pw i" "b = pw j" "c = pw k"
    using pw_surj by meson
  then show ?thesis
    by (simp add: gf_mul_pw add.assoc)
qed auto

lemma gf_mul_add: "gf_mul a (gf_add b c) = gf_add (gf_mul a b) (gf_mul a c)"
  by (simp add: gf_mul_raw_eq gf_add_def gf_mul_raw_def mul_loop_add)

lemma gf_mul_div: "b \<noteq> 0 \<Longrightarrow> gf_mul b (gf_div a b) = a"
proof (cases "a = 0")
  case False
  assume "b \<noteq> 0"
  with False obtain i j where "a = pw i" "i < 255" "b = pw j" "j < 255"
    using pw_surj by meson
  then show ?thesis
    by (simp add: gf_div_pw)
qed (simp add: gf_div_def)

section \<open>The field\<close>

typedef gf = "UNIV :: u8 set"
  morphisms byte_of gf
  by simp

setup_lifting type_definition_gf

instantiation gf :: field
begin

lift_definition zero_gf :: gf is 0 .
lift_definition one_gf :: gf is 1 .
lift_definition plus_gf :: "gf \<Rightarrow> gf \<Rightarrow> gf" is gf_add .
lift_definition minus_gf :: "gf \<Rightarrow> gf \<Rightarrow> gf" is gf_add .
lift_definition uminus_gf :: "gf \<Rightarrow> gf" is "\<lambda>a. a" .
lift_definition times_gf :: "gf \<Rightarrow> gf \<Rightarrow> gf" is gf_mul .
lift_definition inverse_gf :: "gf \<Rightarrow> gf" is "\<lambda>a. if a = 0 then 0 else gf_div 1 a" .
lift_definition divide_gf :: "gf \<Rightarrow> gf \<Rightarrow> gf" is "\<lambda>a b. gf_mul a (if b = 0 then 0 else gf_div 1 b)" .

instance
proof
  fix a b c :: gf
  show "a + b + c = a + (b + c)" "a + b = b + a" "0 + a = a" "- a + a = 0" "a - b = a + - b"
    by (transfer, simp add: gf_add_def ac_simps)+
  show "a * b * c = a * (b * c)"
    by transfer (rule gf_mul_assoc)
  show "a * b = b * a"
    by transfer (rule gf_mul_commute)
  show "1 * a = a"
    by transfer (rule gf_mul_one)
  show "(a + b) * c = a * c + b * c"
    by (transfer, metis gf_mul_add gf_mul_commute)
  show "(0 :: gf) \<noteq> 1"
    by transfer simp
  show "a \<noteq> 0 \<Longrightarrow> inverse a * a = 1"
    by (transfer, metis gf_mul_commute gf_mul_div)
  show "a div b = a * inverse b" "inverse (0 :: gf) = 0"
    by (transfer, simp)+
qed

end

lemma gf_hom [simp]:
  "gf (gf_add a b) = gf a + gf b" "gf (a XOR b) = gf a + gf b" "gf (gf_mul a b) = gf a * gf b" "gf 0 = 0" "gf 1 = 1"
  by (simp_all add: plus_gf.abs_eq times_gf.abs_eq zero_gf_def one_gf_def flip: gf_add_def)

lemma gf_eq_iff [simp]: "gf a = gf b \<longleftrightarrow> a = b"
  by (simp add: gf_inject)

lemma gf_eq_0 [simp]: "gf a = 0 \<longleftrightarrow> a = 0"
  using gf_eq_iff [of a 0] by (simp del: gf_eq_iff)

lemma gf_div_hom: "b \<noteq> 0 \<Longrightarrow> gf (gf_div a b) = gf a / gf b"
  using gf_mul_div [of b a] by (simp add: eq_divide_eq mult.commute flip: gf_hom(3))

lemma gf_char_2 [simp]: "a + a = (0 :: gf)"
  by transfer (simp add: gf_add_def)

lemma gf_uminus [simp]: "- a = (a :: gf)"
  by transfer simp

lemma gf_pw: "gf (pw n) = gf 2 ^ n"
proof (induction n)
  case (Suc n)
  have "pw (Suc n) = gf_mul 2 (pw n)"
    by (simp add: gf_mul_pw flip: pw_1)
  with Suc show ?case
    by simp
qed simp

end
