(* ===== verification/Sar_Rs_Matrix.thy ===== *)
theory Sar_Rs_Matrix
  imports Sar_Gf Sar_Fec_Blocks
begin

text \<open>
  The matrices of \<^verbatim>\<open>crates/sar-fec/src/rs/matrix.rs\<close>: square matrices over GF(2^8) in a flat
  row-major buffer, their inversion by Gauss-Jordan elimination and their product with a vector of
  symbols.  The lemmas show that \<^verbatim>\<open>invert\<close> succeeds exactly for the matrices with trivial kernel and
  returns a left inverse.
\<close>

unbundle bit_operations_syntax

section \<open>Matrices\<close>

record GfMatrix =
  gm_size :: nat
  gm_data :: bytes

definition gm_zeroes :: "nat \<Rightarrow> GfMatrix" where
  "gm_zeroes n = \<lparr> gm_size = n, gm_data = replicate (n * n) 0 \<rparr>"

definition gm_get :: "GfMatrix \<Rightarrow> nat \<Rightarrow> nat \<Rightarrow> u8" where
  "gm_get m row col = gm_data m ! (row * gm_size m + col)"

definition gm_set :: "nat \<Rightarrow> nat \<Rightarrow> u8 \<Rightarrow> GfMatrix \<Rightarrow> GfMatrix" where
  "gm_set row col v m = m\<lparr> gm_data := (gm_data m)[row * gm_size m + col := v] \<rparr>"

section \<open>Inversion\<close>

text \<open>The passes over the augmented matrix \<^verbatim>\<open>aug\<close>, in the order of the code.\<close>

definition build_aug :: "GfMatrix \<Rightarrow> bytes" where
  "build_aug m =
     (let n = gm_size m; aug_cols = n * 2 in
      fold (\<lambda>r aug. (fold (\<lambda>c aug. aug[r * aug_cols + c := gm_get m r c]) [0..<n] aug)[r * aug_cols + n + r := 1])
        [0..<n] (replicate (n * aug_cols) 0))"

definition list_swap :: "'a list \<Rightarrow> nat \<Rightarrow> nat \<Rightarrow> 'a list" where
  "list_swap xs i j = xs[i := xs ! j, j := xs ! i]"

definition swap_rows :: "nat \<Rightarrow> nat \<Rightarrow> nat \<Rightarrow> bytes \<Rightarrow> bytes" where
  "swap_rows aug_cols col pivot aug =
     (if pivot \<noteq> col then fold (\<lambda>c aug. list_swap aug (col * aug_cols + c) (pivot * aug_cols + c)) [0..<aug_cols] aug
      else aug)"

definition scale_row :: "nat \<Rightarrow> nat \<Rightarrow> bytes \<Rightarrow> bytes" where
  "scale_row aug_cols col aug =
     (let diag = aug ! (col * aug_cols + col) in
      fold (\<lambda>c aug. aug[col * aug_cols + c := gf_div (aug ! (col * aug_cols + c)) diag]) [0..<aug_cols] aug)"

definition eliminate_row :: "nat \<Rightarrow> nat \<Rightarrow> nat \<Rightarrow> bytes \<Rightarrow> bytes" where
  "eliminate_row aug_cols col r aug =
     (if r = col then aug else
      let factor = aug ! (r * aug_cols + col) in
      if factor = 0 then aug else
      fold (\<lambda>c aug. let pv = aug ! (col * aug_cols + c) in
        aug[r * aug_cols + c := gf_add (aug ! (r * aug_cols + c)) (gf_mul factor pv)]) [0..<aug_cols] aug)"

definition invert_column :: "nat \<Rightarrow> nat \<Rightarrow> bytes \<Rightarrow> FecError + bytes" where
  "invert_column n col aug =
     (let aug_cols = n * 2 in
      bindR (ok_or (find (\<lambda>r. aug ! (r * aug_cols + col) \<noteq> 0) [col..<n]) FecError.EcFailed) (\<lambda>pivot.
      Inr (fold (eliminate_row aug_cols col) [0..<n] (scale_row aug_cols col (swap_rows aug_cols col pivot aug)))))"

definition invert :: "GfMatrix \<Rightarrow> FecError + GfMatrix" where
  "invert m =
     (let n = gm_size m; aug_cols = n * 2 in
      bindR (foldR (invert_column n) [0..<n] (build_aug m)) (\<lambda>aug.
      Inr (fold (\<lambda>r inv. fold (\<lambda>c inv. gm_set r c (aug ! (r * aug_cols + n + c)) inv) [0..<n] inv)
        [0..<n] (gm_zeroes n))))"

section \<open>Product with a vector of symbols\<close>

definition mul_add_into :: "u8 \<Rightarrow> bytes \<Rightarrow> bytes \<Rightarrow> bytes" where
  "mul_add_into coeff src dst =
     map2 (\<lambda>d s. gf_add d (gf_mul coeff s)) dst src @ drop (length src) dst"

definition mat_vec_mul :: "GfMatrix \<Rightarrow> bytes list \<Rightarrow> nat \<Rightarrow> bytes list" where
  "mat_vec_mul m vecs symbol_size =
     map (\<lambda>r. fold (\<lambda>(c, src) dst. let coeff = gm_get m r c in
         if coeff = 0 then dst else mul_add_into coeff src dst) (enumerate 0 vecs) (replicate symbol_size 0))
       [0..<gm_size m]"

section \<open>Loops over a row-major buffer\<close>

lemma idx_inj: "c < w \<Longrightarrow> d < w \<Longrightarrow> r * w + c = q * w + d \<longleftrightarrow> r = q \<and> c = (d :: nat)"
proof
  assume "c < w" "d < w" "r * w + c = q * w + d"
  then have "(r * w + c) div w = (q * w + d) div w" "(r * w + c) mod w = (q * w + d) mod w"
    by simp_all
  with \<open>c < w\<close> \<open>d < w\<close> show "r = q \<and> c = d"
    by simp
qed simp

text \<open>
  A loop over the columns whose step \<open>c\<close> changes column \<open>c\<close> only, and computes it from the old column.
\<close>

lemma column_loop:
  assumes step: "\<And>c xs. c < w \<Longrightarrow> length xs = n * w \<Longrightarrow> length (f c xs) = n * w \<and>
      (\<forall>r < n. \<forall>d < w. f c xs ! (r * w + d) = (if d = c then G r c (\<lambda>q. xs ! (q * w + c)) else xs ! (r * w + d)))"
    and cong: "\<And>r c u v. r < n \<Longrightarrow> (\<And>q. q < n \<Longrightarrow> u q = v q) \<Longrightarrow> G r c u = G r c v"
    and "length xs = n * w" "k \<le> w"
  shows "length (fold f [0..<k] xs) = n * w \<and>
    (\<forall>r < n. \<forall>c < w. fold f [0..<k] xs ! (r * w + c) =
       (if c < k then G r c (\<lambda>q. xs ! (q * w + c)) else xs ! (r * w + c)))"
  using assms(4)
proof (induction k)
  case 0
  then show ?case
    using assms(3) by simp
next
  case (Suc k)
  let ?ys = "fold f [0..<k] xs"
  have ys: "length ?ys = n * w"
    "\<And>r c. r < n \<Longrightarrow> c < w \<Longrightarrow> ?ys ! (r * w + c) = (if c < k then G r c (\<lambda>q. xs ! (q * w + c)) else xs ! (r * w + c))"
    using Suc by auto
  have "G r k (\<lambda>q. ?ys ! (q * w + k)) = G r k (\<lambda>q. xs ! (q * w + k))" if "r < n" for r
    by (rule cong [OF that]) (use ys(2) Suc.prems in simp)
  then show ?case
    using step [of k ?ys] ys Suc.prems by (auto simp: less_Suc_eq)
qed

text \<open>The buffer as a matrix over the field.\<close>

definition mx :: "nat \<Rightarrow> bytes \<Rightarrow> nat \<Rightarrow> nat \<Rightarrow> gf" where
  "mx w xs r c = gf (xs ! (r * w + c))"

lemma swap_rows_mx:
  assumes "length aug = n * w" "col < n" "pivot < n"
  shows "length (swap_rows w col pivot aug) = n * w"
    "\<And>r c. r < n \<Longrightarrow> c < w \<Longrightarrow> mx w (swap_rows w col pivot aug) r c =
       mx w aug (if r = col then pivot else if r = pivot then col else r) c"
proof -
  let ?G = "\<lambda>r (c :: nat) u :: nat \<Rightarrow> u8. u (if r = col then pivot else if r = pivot then col else r)"
  have "length (fold (\<lambda>c aug. list_swap aug (col * w + c) (pivot * w + c)) [0..<w] aug) = n * w \<and>
    (\<forall>r < n. \<forall>c < w. fold (\<lambda>c aug. list_swap aug (col * w + c) (pivot * w + c)) [0..<w] aug ! (r * w + c) =
       (if c < w then ?G r c (\<lambda>q. aug ! (q * w + c)) else aug ! (r * w + c)))"
    by (rule column_loop [OF _ _ assms(1) order_refl])
      (use assms in \<open>auto simp: list_swap_def nth_list_update idx_inj block_index_bound\<close>)
  then show "length (swap_rows w col pivot aug) = n * w"
    "\<And>r c. r < n \<Longrightarrow> c < w \<Longrightarrow> mx w (swap_rows w col pivot aug) r c =
       mx w aug (if r = col then pivot else if r = pivot then col else r) c"
    using assms by (auto simp: swap_rows_def mx_def)
qed

lemma scale_row_mx:
  assumes "length aug = n * w" "col < n" "col < w" "mx w aug col col \<noteq> 0"
  shows "length (scale_row w col aug) = n * w"
    "\<And>r c. r < n \<Longrightarrow> c < w \<Longrightarrow> mx w (scale_row w col aug) r c =
       (if r = col then mx w aug col c / mx w aug col col else mx w aug r c)"
proof -
  let ?d = "aug ! (col * w + col)"
  let ?G = "\<lambda>r (c :: nat) u. if r = col then gf_div (u col) ?d else u r"
  have "length (fold (\<lambda>c aug. aug[col * w + c := gf_div (aug ! (col * w + c)) ?d]) [0..<w] aug) = n * w \<and>
    (\<forall>r < n. \<forall>c < w. fold (\<lambda>c aug. aug[col * w + c := gf_div (aug ! (col * w + c)) ?d]) [0..<w] aug ! (r * w + c) =
       (if c < w then ?G r c (\<lambda>q. aug ! (q * w + c)) else aug ! (r * w + c)))"
    by (rule column_loop [OF _ _ assms(1) order_refl])
      (use assms in \<open>auto simp: nth_list_update idx_inj block_index_bound\<close>)
  then show "length (scale_row w col aug) = n * w"
    "\<And>r c. r < n \<Longrightarrow> c < w \<Longrightarrow> mx w (scale_row w col aug) r c =
       (if r = col then mx w aug col c / mx w aug col col else mx w aug r c)"
    using assms(4) by (auto simp: scale_row_def mx_def gf_div_hom)
qed

lemma eliminate_row_mx:
  assumes "length aug = n * w" "col < n" "col < w" "q < n"
  shows "length (eliminate_row w col q aug) = n * w"
    "\<And>r c. r < n \<Longrightarrow> c < w \<Longrightarrow> mx w (eliminate_row w col q aug) r c =
       (if r = q \<and> q \<noteq> col then mx w aug q c + mx w aug q col * mx w aug col c else mx w aug r c)"
proof -
  let ?f = "aug ! (q * w + col)"
  let ?G = "\<lambda>r (c :: nat) u. if r = q then gf_add (u q) (gf_mul ?f (u col)) else u r"
  have "q \<noteq> col \<Longrightarrow> length (fold (\<lambda>c aug. let pv = aug ! (col * w + c) in
      aug[q * w + c := gf_add (aug ! (q * w + c)) (gf_mul ?f pv)]) [0..<w] aug) = n * w \<and>
    (\<forall>r < n. \<forall>c < w. fold (\<lambda>c aug. let pv = aug ! (col * w + c) in
      aug[q * w + c := gf_add (aug ! (q * w + c)) (gf_mul ?f pv)]) [0..<w] aug ! (r * w + c) =
       (if c < w then ?G r c (\<lambda>q. aug ! (q * w + c)) else aug ! (r * w + c)))"
    by (rule column_loop [OF _ _ assms(1) order_refl])
      (use assms in \<open>auto simp: nth_list_update idx_inj block_index_bound\<close>)
  then show "length (eliminate_row w col q aug) = n * w"
    "\<And>r c. r < n \<Longrightarrow> c < w \<Longrightarrow> mx w (eliminate_row w col q aug) r c =
       (if r = q \<and> q \<noteq> col then mx w aug q c + mx w aug q col * mx w aug col c else mx w aug r c)"
    using assms(1) by (auto simp: eliminate_row_def mx_def Let_def)
qed

lemma eliminate_rows_mx:
  assumes "length aug = n * w" "col < n" "col < w" "k \<le> n"
  shows "length (fold (eliminate_row w col) [0..<k] aug) = n * w \<and>
    (\<forall>r < n. \<forall>c < w. mx w (fold (eliminate_row w col) [0..<k] aug) r c =
       (if r < k \<and> r \<noteq> col then mx w aug r c + mx w aug r col * mx w aug col c else mx w aug r c))"
  using assms(4)
proof (induction k)
  case (Suc k)
  let ?ys = "fold (eliminate_row w col) [0..<k] aug"
  from Suc have ys: "length ?ys = n * w" "\<And>r c. r < n \<Longrightarrow> c < w \<Longrightarrow> mx w ?ys r c =
      (if r < k \<and> r \<noteq> col then mx w aug r c + mx w aug r col * mx w aug col c else mx w aug r c)"
    by auto
  show ?case
    using eliminate_row_mx [OF ys(1) assms(2,3), of k] Suc.prems assms(2,3) by (auto simp: ys less_Suc_eq)
qed (use assms(1) in simp)

section \<open>Gauss-Jordan elimination\<close>

text \<open>\<open>regular n M\<close>: the kernel of the \<open>n \<times> n\<close> matrix \<open>M\<close> is trivial.\<close>

definition regular :: "nat \<Rightarrow> (nat \<Rightarrow> nat \<Rightarrow> gf) \<Rightarrow> bool" where
  "regular n M \<longleftrightarrow> (\<forall>v. (\<forall>r < n. (\<Sum>c<n. M r c * v c) = 0) \<longrightarrow> (\<forall>c < n. v c = 0))"

text \<open>
  The invariant of the elimination after \<open>col\<close> columns: the left half is the right half times \<open>M\<close>, its
  first \<open>col\<close> columns are those of the identity, and it has no larger kernel than \<open>M\<close>.
\<close>

definition gj :: "nat \<Rightarrow> nat \<Rightarrow> (nat \<Rightarrow> nat \<Rightarrow> gf) \<Rightarrow> (nat \<Rightarrow> nat \<Rightarrow> gf) \<Rightarrow> bool" where
  "gj n col M A \<longleftrightarrow>
     (\<forall>r < n. \<forall>c < n. A r c = (\<Sum>j<n. A r (n + j) * M j c)) \<and>
     (\<forall>r < n. \<forall>c < col. A r c = (if r = c then 1 else 0)) \<and>
     (\<forall>v. (\<forall>r < n. (\<Sum>c<n. A r c * v c) = 0) \<longrightarrow> (\<forall>r < n. (\<Sum>c<n. M r c * v c) = 0))"

lemma gjD:
  assumes "gj n col M A"
  shows "\<And>r c. r < n \<Longrightarrow> c < n \<Longrightarrow> A r c = (\<Sum>j<n. A r (n + j) * M j c)"
    "\<And>r c. r < n \<Longrightarrow> c < col \<Longrightarrow> A r c = (if r = c then 1 else 0)"
    "\<And>v. (\<And>r. r < n \<Longrightarrow> (\<Sum>c<n. A r c * v c) = 0) \<Longrightarrow> (\<forall>r < n. (\<Sum>c<n. M r c * v c) = 0)"
  using assms by (auto simp: gj_def)

lemma gj_cong:
  assumes "\<And>r c. r < n \<Longrightarrow> c < n * 2 \<Longrightarrow> A r c = B r c" "col \<le> n"
  shows "gj n col M A \<longleftrightarrow> gj n col M B"
proof -
  have "(\<Sum>j<n. A r (n + j) * M j c) = (\<Sum>j<n. B r (n + j) * M j c)" "(\<Sum>c<n. A r c * v c) = (\<Sum>c<n. B r c * v c)"
    if "r < n" for r c v
    using assms(1) [OF that] by (auto intro!: sum.cong)
  then show ?thesis
    using assms by (auto simp: gj_def)
qed

lemma gj_step:
  assumes inv: "gj n col M A" and col: "col < n" and p: "col \<le> p" "p < n" "A p col \<noteq> 0"
    and B: "\<And>r c. B r c = A (if r = col then p else if r = p then col else r) c"
    and C: "\<And>r c. C r c = (if r = col then B col c / B col col else B r c)"
    and D: "\<And>r c. D r c = (if r \<noteq> col then C r c + C r col * C col c else C r c)"
  shows "gj n (Suc col) M D"
proof -
  let ?sw = "\<lambda>r. if r = p then col else r"
  note lin = gjD(1) [OF inv] and unit = gjD(2) [OF inv] and ker = gjD(3) [OF inv]
  have Dp: "D col c = A p c / A p col" for c
    by (simp add: B C D)
  have Dr: "D r c = A (?sw r) c + A (?sw r) col * D col c" if "r \<noteq> col" for r c
    using that by (simp add: B C D)
  have sw: "?sw r < n" if "r < n" for r
    using that col by simp
  have e: "D col c = (\<Sum>j<n. D col (n + j) * M j c)" if "c < n" for c
    using lin [OF p(2) that] by (simp add: Dp sum_divide_distrib)
  have "D r c = (\<Sum>j<n. D r (n + j) * M j c)" if r: "r < n" and c: "c < n" for r c
  proof (cases "r = col")
    case False
    have "D r c = (\<Sum>j<n. A (?sw r) (n + j) * M j c) + A (?sw r) col * (\<Sum>j<n. D col (n + j) * M j c)"
      unfolding Dr [OF False] using lin [OF sw [OF r] c] e [OF c] by simp
    also have "\<dots> = (\<Sum>j<n. D r (n + j) * M j c)"
      unfolding Dr [OF False] by (simp only: sum_distrib_left sum.distrib [symmetric] distrib_right mult.assoc)
    finally show ?thesis .
  qed (use e c in simp)
  moreover have "D r c = (if r = c then 1 else 0)" if r: "r < n" and c: "c < Suc col" for r c
  proof (cases "c = col")
    case True
    then show ?thesis
      using p(3) by (cases "r = col") (simp_all add: Dp Dr)
  next
    case False
    with c have c: "c < col"
      by simp
    then have "D col c = 0"
      using unit [OF p(2) c] p(1) by (simp add: Dp)
    with c show ?thesis
      using unit [OF sw [OF r] c] p(1) by (cases "r = col") (auto simp: Dr split: if_splits)
  qed
  moreover have "\<forall>r < n. (\<Sum>c<n. M r c * v c) = 0" if zero: "\<And>r. r < n \<Longrightarrow> (\<Sum>c<n. D r c * v c) = 0" for v
  proof (rule ker)
    have "(\<Sum>c<n. D col c * v c) = (\<Sum>c<n. A p c * v c) / A p col"
      by (simp add: Dp sum_divide_distrib)
    with zero [OF col] p(3) have Sp: "(\<Sum>c<n. A p c * v c) = 0"
      by simp
    have Sr: "(\<Sum>c<n. A (?sw r) c * v c) = 0" if r: "r < n" "r \<noteq> col" for r
    proof -
      have "(\<Sum>c<n. D r c * v c) = (\<Sum>c<n. A (?sw r) c * v c) + A (?sw r) col * (\<Sum>c<n. D col c * v c)"
        unfolding Dr [OF r(2)] by (simp only: sum_distrib_left sum.distrib [symmetric] distrib_right mult.assoc)
      with zero [OF r(1)] zero [OF col] show ?thesis
        by simp
    qed
    fix r assume "r < n"
    then show "(\<Sum>c<n. A r c * v c) = 0"
      using Sp Sr [of r] Sr [OF p(2)] by (cases "r = p"; cases "r = col"; cases "p = col") simp_all
  qed
  ultimately show ?thesis
    unfolding gj_def by blast
qed

lemma gj_stuck:
  assumes "gj n col M A" "col < n" "\<And>r. col \<le> r \<Longrightarrow> r < n \<Longrightarrow> A r col = 0"
  shows "\<not> regular n M"
proof -
  let ?v = "\<lambda>c. if c < col then A c col else if c = col then 1 else 0"
  have "(\<Sum>c<n. A r c * ?v c) = 0" if r: "r < n" for r
  proof -
    have "A r c * ?v c = (if c = r \<and> r < col then A r col else 0) + (if c = col then A r col else 0)" if "c < n" for c
      using gjD(2) [OF assms(1) r, of c] by auto
    then have "(\<Sum>c<n. A r c * ?v c) =
        (\<Sum>c<n. (if c = r \<and> r < col then A r col else 0) + (if c = col then A r col else 0))"
      by (intro sum.cong) (simp_all only: lessThan_iff)
    also have "\<dots> = (if r < col then A r col else 0) + A r col"
      using r assms(2) by (cases "r < col") (simp_all add: sum.distrib sum.delta')
    also have "\<dots> = 0"
      using assms(3) [OF _ r] by simp
    finally show ?thesis .
  qed
  then have "\<forall>r < n. (\<Sum>c<n. M r c * ?v c) = 0"
    by (rule gjD(3) [OF assms(1)])
  moreover have "\<not> (\<forall>c < n. ?v c = 0)"
    using assms(2) by (intro notI) (drule spec [of _ col], simp)
  ultimately show ?thesis
    unfolding regular_def by (intro notI) (drule spec [of _ ?v], erule (1) impE, erule notE)
qed

lemma gj_end:
  assumes "gj n n M A" "r < n" "c < n"
  shows "(\<Sum>j<n. A r (n + j) * M j c) = (if r = c then 1 else 0)"
  using gjD(1) [OF assms] gjD(2) [OF assms] by simp

section \<open>The inverse\<close>

definition gmx :: "GfMatrix \<Rightarrow> nat \<Rightarrow> nat \<Rightarrow> gf" where
  "gmx m r c = gf (gm_get m r c)"

definition gm_wf :: "GfMatrix \<Rightarrow> bool" where
  "gm_wf m \<longleftrightarrow> length (gm_data m) = gm_size m * gm_size m"

text \<open>Nested loops that fill a row-major buffer entry by entry.\<close>

lemma nth_update_idx:
  "length xs = n * w \<Longrightarrow> r < n \<Longrightarrow> c < w \<Longrightarrow> q < n \<Longrightarrow> d < w \<Longrightarrow>
   xs[r * w + c := v] ! (q * w + d) = (if q = r \<and> d = c then v else xs ! (q * w + d))"
  using block_index_bound [of r n c w] by (auto simp: nth_list_update idx_inj)

lemma fill_row:
  assumes "length xs = n * w" "r < n" "k \<le> w"
  shows "length (fold (\<lambda>c xs. xs[r * w + c := h c]) [0..<k] xs) = n * w \<and>
    (\<forall>q < n. \<forall>c < w. fold (\<lambda>c xs. xs[r * w + c := h c]) [0..<k] xs ! (q * w + c) =
       (if q = r \<and> c < k then h c else xs ! (q * w + c)))"
  using assms(3)
proof (induction k)
  case (Suc k)
  then have "length (fold (\<lambda>c xs. xs[r * w + c := h c]) [0..<k] xs) = n * w"
    by simp
  from nth_update_idx [OF this assms(2)] show ?case
    using Suc assms(1,2) by (auto simp: less_Suc_eq)
qed (use assms in simp)

lemma fill_rows:
  assumes "\<And>r xs. r < n \<Longrightarrow> length xs = n * w \<Longrightarrow> length (f r xs) = n * w \<and>
      (\<forall>q < n. \<forall>c < w. f r xs ! (q * w + c) = (if q = r then h q c (xs ! (q * w + c)) else xs ! (q * w + c)))"
    and "length xs = n * w" "k \<le> n"
  shows "length (fold f [0..<k] xs) = n * w \<and>
    (\<forall>q < n. \<forall>c < w. fold f [0..<k] xs ! (q * w + c) = (if q < k then h q c (xs ! (q * w + c)) else xs ! (q * w + c)))"
  using assms(3)
proof (induction k)
  case (Suc k)
  then show ?case
    using assms(1) [of k "fold f [0..<k] xs"] by (auto simp: less_Suc_eq)
qed (use assms in simp)

lemma build_aug_mx:
  assumes n: "gm_size m = n"
  shows "length (build_aug m) = n * (n * 2)"
    "\<And>r c. r < n \<Longrightarrow> c < n * 2 \<Longrightarrow> mx (n * 2) (build_aug m) r c =
      (if c < n then gmx m r c else if c = n + r then 1 else 0)"
proof -
  let ?f = "\<lambda>r aug. (fold (\<lambda>c aug. aug[r * (n * 2) + c := gm_get m r c]) [0..<n] aug)[r * (n * 2) + n + r := 1]"
  have aug: "length (fold ?f [0..<n] (replicate (n * (n * 2)) 0)) = n * (n * 2) \<and>
    (\<forall>q < n. \<forall>c < n * 2. fold ?f [0..<n] (replicate (n * (n * 2)) 0) ! (q * (n * 2) + c) =
      (if q < n then if c < n then gm_get m q c else if c = n + q then 1 else replicate (n * (n * 2)) 0 ! (q * (n * 2) + c)
       else replicate (n * (n * 2)) 0 ! (q * (n * 2) + c)))"
  proof (rule fill_rows [where h = "\<lambda>q c old. if c < n then gm_get m q c else if c = n + q then 1 else old"])
    fix r :: nat and xs :: bytes
    assume r: "r < n" and xs: "length xs = n * (n * 2)"
    have "n \<le> n * 2" "n + r < n * 2"
      using r by simp_all
    note row = fill_row [OF xs r this(1), of "gm_get m r"] and this(2)
    then show "length (?f r xs) = n * (n * 2) \<and> (\<forall>q < n. \<forall>c < n * 2. ?f r xs ! (q * (n * 2) + c) =
        (if q = r then if c < n then gm_get m q c else if c = n + q then 1 else xs ! (q * (n * 2) + c)
         else xs ! (q * (n * 2) + c)))"
      using nth_update_idx [OF row [THEN conjunct1] r] unfolding add.assoc by auto
  qed simp_all
  moreover have "build_aug m = fold ?f [0..<n] (replicate (n * (n * 2)) 0)"
    by (simp only: build_aug_def Let_def n)
  ultimately have aug: "length (build_aug m) = n * (n * 2)"
    "\<And>q c. q < n \<Longrightarrow> c < n * 2 \<Longrightarrow> build_aug m ! (q * (n * 2) + c) =
      (if c < n then gm_get m q c else if c = n + q then 1 else replicate (n * (n * 2)) 0 ! (q * (n * 2) + c))"
    by simp_all
  then show "length (build_aug m) = n * (n * 2)"
    by simp
  show "mx (n * 2) (build_aug m) r c = (if c < n then gmx m r c else if c = n + r then 1 else 0)"
    if "r < n" "c < n * 2" for r c
    using aug(2) [OF that] block_index_bound [OF that] by (simp add: mx_def gmx_def)
qed

lemma gj_start:
  assumes "gm_size m = n"
  shows "gj n 0 (gmx m) (mx (n * 2) (build_aug m))"
proof -
  let ?A = "mx (n * 2) (build_aug m)"
  have A: "?A r c = gmx m r c" "?A r (n + c) = (if c = r then 1 else 0)" if "r < n" "c < n" for r c
    using build_aug_mx(2) [OF assms, of r] that by simp_all
  have left: "?A r c = (\<Sum>j<n. ?A r (n + j) * gmx m j c)" if "r < n" "c < n" for r c
  proof -
    have "(\<Sum>j<n. ?A r (n + j) * gmx m j c) = (\<Sum>j<n. if j = r then gmx m r c else 0)"
      by (intro sum.cong) (use A(2) that in auto)
    then show ?thesis
      using A(1) that by (simp add: sum.delta)
  qed
  have "(\<Sum>c<n. ?A r c * v c) = (\<Sum>c<n. gmx m r c * v c)" if "r < n" for r v
    by (intro sum.cong) (use A(1) that in simp_all)
  with left show ?thesis
    unfolding gj_def by simp
qed

lemma invert_column_gj:
  assumes "length aug = n * (n * 2)" "gj n col M (mx (n * 2) aug)" "col < n"
  shows "if \<exists>r. col \<le> r \<and> r < n \<and> mx (n * 2) aug r col \<noteq> 0
    then \<exists>aug'. invert_column n col aug = Inr aug' \<and> length aug' = n * (n * 2) \<and> gj n (Suc col) M (mx (n * 2) aug')
    else invert_column n col aug = Inl FecError.EcFailed"
proof -
  let ?w = "n * 2"
  let ?find = "find (\<lambda>r. aug ! (r * ?w + col) \<noteq> 0) [col..<n]"
  have colw: "col < ?w"
    using assms(3) by simp
  show ?thesis
  proof (cases ?find)
    case None
    then have "\<not> (\<exists>r. col \<le> r \<and> r < n \<and> mx ?w aug r col \<noteq> 0)"
      by (simp add: find_None_iff mx_def)
    with None show ?thesis
      by (simp add: invert_column_def Let_def)
  next
    case (Some p)
    then have p: "col \<le> p" "p < n" "mx ?w aug p col \<noteq> 0"
      by (auto simp: find_Some_iff mx_def)
    let ?B = "swap_rows ?w col p aug"
    let ?C = "scale_row ?w col ?B"
    let ?D = "fold (eliminate_row ?w col) [0..<n] ?C"
    note B = swap_rows_mx [OF assms(1,3) p(2)]
    have "mx ?w ?B col col \<noteq> 0"
      using B(2) [OF assms(3) colw] p(3) by simp
    note C = scale_row_mx [OF B(1) assms(3) colw this]
    note D = eliminate_rows_mx [OF C(1) assms(3) colw order_refl]
    define A where "A = mx ?w aug"
    define b where "b r c = A (if r = col then p else if r = p then col else r) c" for r c
    define c where "c r k = (if r = col then b col k / b col col else b r k)" for r k
    define d where "d r k = (if r \<noteq> col then c r k + c r col * c col k else c r k)" for r k
    have "gj n (Suc col) M d"
      by (rule gj_step [OF assms(2) [folded A_def] assms(3) p(1,2) p(3) [folded A_def] b_def c_def d_def])
    moreover have cc: "mx ?w ?C r k = c r k" if "r < n" "k < ?w" for r k
      using C(2) [OF that] B(2) that colw assms(3) by (simp add: c_def b_def A_def)
    moreover have "mx ?w ?D r k = d r k" if "r < n" "k < ?w" for r k
      using D that by (simp add: d_def cc colw assms(3))
    ultimately have "gj n (Suc col) M (mx ?w ?D)"
      using gj_cong [of n "mx ?w ?D" d "Suc col" M] assms(3) by simp
    moreover have "invert_column n col aug = Inr ?D"
      by (simp add: invert_column_def Let_def Some)
    ultimately show ?thesis
      using D p by auto
  qed
qed

lemma invert_columns:
  assumes "gm_size m = n" "k \<le> n"
  shows "(\<exists>aug. foldR (invert_column n) [0..<k] (build_aug m) = Inr aug \<and> length aug = n * (n * 2) \<and>
      gj n k (gmx m) (mx (n * 2) aug)) \<or>
    foldR (invert_column n) [0..<k] (build_aug m) = Inl FecError.EcFailed \<and> \<not> regular n (gmx m)"
  using assms(2)
proof (induction k)
  case 0
  then show ?case
    using build_aug_mx(1) [OF assms(1)] gj_start [OF assms(1)] by simp
next
  case (Suc k)
  have run: "foldR (invert_column n) [0..<Suc k] (build_aug m) =
      bindR (foldR (invert_column n) [0..<k] (build_aug m)) (invert_column n k)"
    by (rule foldR_snoc)
  from Suc consider aug where "foldR (invert_column n) [0..<k] (build_aug m) = Inr aug" "length aug = n * (n * 2)"
      "gj n k (gmx m) (mx (n * 2) aug)"
    | "foldR (invert_column n) [0..<k] (build_aug m) = Inl FecError.EcFailed" "\<not> regular n (gmx m)"
    by auto
  then show ?case
  proof cases
    case 1
    then show ?thesis
      using invert_column_gj [OF 1(2,3)] gj_stuck [OF 1(3)] Suc.prems unfolding run
      by (auto split: if_splits)
  next
    case 2
    then show ?thesis
      by (simp only: run bindR_Inl) simp
  qed
qed

lemma fold_gm_set:
  "fold (\<lambda>c inv. gm_set r c (h c) inv) cs acc =
     acc\<lparr> gm_data := fold (\<lambda>c xs. xs[r * gm_size acc + c := h c]) cs (gm_data acc) \<rparr>"
  by (induction cs arbitrary: acc) (simp_all add: gm_set_def)

lemma fold_gm_set_rows:
  "fold (\<lambda>r inv. fold (\<lambda>c inv. gm_set r c (h r c) inv) cs inv) rs acc =
     acc\<lparr> gm_data := fold (\<lambda>r xs. fold (\<lambda>c xs. xs[r * gm_size acc + c := h r c]) cs xs) rs (gm_data acc) \<rparr>"
  by (induction rs arbitrary: acc) (simp_all add: fold_gm_set)

lemma fill_matrix:
  fixes h :: "nat \<Rightarrow> nat \<Rightarrow> u8"
  defines "xs n w \<equiv> fold (\<lambda>r xs. fold (\<lambda>c xs. xs[r * w + c := h r c]) [0..<w] xs) [0..<n] (replicate (n * w) 0)"
  shows "length (xs n w) = n * w \<and>
    (\<forall>q < n. \<forall>c < w. xs n w ! (q * w + c) = (if q < n then h q c else replicate (n * w) 0 ! (q * w + c)))"
  unfolding xs_def
proof (rule fill_rows)
  fix r :: nat and ys :: bytes assume "r < n" "length ys = n * w"
  from fill_row [OF this(2,1) order_refl, of "h r"]
  show "length (fold (\<lambda>c xs. xs[r * w + c := h r c]) [0..<w] ys) = n * w \<and>
      (\<forall>q<n. \<forall>c<w. fold (\<lambda>c xs. xs[r * w + c := h r c]) [0..<w] ys ! (q * w + c) =
        (if q = r then h q c else ys ! (q * w + c)))"
    by auto
qed simp_all

text \<open>The inversion succeeds exactly for a trivial kernel, and then gives a left inverse.\<close>

theorem invert_exact:
  assumes "gm_size m = n"
  shows "if regular n (gmx m)
    then \<exists>inv. invert m = Inr inv \<and> gm_size inv = n \<and>
      (\<forall>r < n. \<forall>c < n. (\<Sum>j<n. gmx inv r j * gmx m j c) = (if r = c then 1 else 0))
    else invert m = Inl FecError.EcFailed"
proof -
  consider aug where "foldR (invert_column n) [0..<n] (build_aug m) = Inr aug" "length aug = n * (n * 2)"
      "gj n n (gmx m) (mx (n * 2) aug)"
    | "foldR (invert_column n) [0..<n] (build_aug m) = Inl FecError.EcFailed" "\<not> regular n (gmx m)"
    using invert_columns [OF assms order_refl] by auto
  then show ?thesis
  proof cases
    case 1
    let ?h = "\<lambda>r c. aug ! (r * (n * 2) + n + c)"
    let ?inv = "fold (\<lambda>r inv. fold (\<lambda>c inv. gm_set r c (?h r c) inv) [0..<n] inv) [0..<n] (gm_zeroes n)"
    have inv: "invert m = Inr ?inv"
      by (simp add: invert_def Let_def assms 1(1))
    let ?xs = "fold (\<lambda>r xs. fold (\<lambda>c xs. xs[r * n + c := ?h r c]) [0..<n] xs) [0..<n] (replicate (n * n) 0)"
    have "length ?xs = n * n \<and> (\<forall>q < n. \<forall>c < n. ?xs ! (q * n + c) = (if q < n then ?h q c else replicate (n * n) 0 ! (q * n + c)))"
      by (rule fill_matrix)
    then have get: "gmx ?inv r c = mx (n * 2) aug r (n + c)" if "r < n" "c < n" for r c
      using that by (simp add: fold_gm_set_rows gm_zeroes_def gmx_def gm_get_def mx_def add.assoc)
    have left: "(\<Sum>j<n. gmx ?inv r j * gmx m j c) = (if r = c then 1 else 0)" if "r < n" "c < n" for r c
      unfolding gj_end [OF 1(3) that, symmetric] by (intro sum.cong) (use get that in simp_all)
    have "regular n (gmx m)"
      unfolding regular_def
    proof (intro allI impI)
      fix v c assume zero: "\<forall>r<n. (\<Sum>c<n. gmx m r c * v c) = 0" and c: "c < n"
      have "v c = (\<Sum>k<n. (if c = k then 1 else 0) * v k)"
        using c by (simp add: if_distrib [of "\<lambda>x. x * _"] cong: if_cong)
      also have "\<dots> = (\<Sum>k<n. (\<Sum>j<n. gmx ?inv c j * gmx m j k) * v k)"
        by (intro sum.cong) (use left [OF c] in simp_all)
      also have "\<dots> = (\<Sum>k<n. \<Sum>j<n. gmx ?inv c j * (gmx m j k * v k))"
        by (simp add: sum_distrib_right mult.assoc)
      also have "\<dots> = (\<Sum>j<n. gmx ?inv c j * (\<Sum>k<n. gmx m j k * v k))"
        by (subst sum.swap) (simp add: sum_distrib_left)
      also have "\<dots> = 0"
        using zero by simp
      finally show "v c = 0" .
    qed
    moreover have "gm_size ?inv = n"
      by (simp add: fold_gm_set_rows gm_zeroes_def)
    ultimately show ?thesis
      using inv left by auto
  next
    case 2
    then show ?thesis
      by (simp add: invert_def Let_def assms)
  qed
qed

end
