(* ===== verification/Sar_Rs.thy ===== *)
theory Sar_Rs
  imports Sar_Rs_Matrix
begin

text \<open>
  The Reed-Solomon erasure code of \<^verbatim>\<open>crates/sar-fec/src/rs/mod.rs\<close>.  The protected bytes are cut into
  groups of \<open>k\<close> zero-padded symbols; each group has \<^verbatim>\<open>parity_count\<close> parity symbols, the products of a
  Vandermonde matrix with the data symbols.  The lemmas show that any \<^verbatim>\<open>parity_count\<close> erased symbols of a
  group are restored, because the systems that \<^verbatim>\<open>recover\<close> solves are regular.
\<close>

section \<open>Header\<close>

definition RS_HEADER_SIZE :: nat where
  "RS_HEADER_SIZE = 18"

definition RS_MAX_PARITY_SIZE :: nat where
  "RS_MAX_PARITY_SIZE = 256 * 1024 * 1024"

definition MAX_PARITY_COUNT :: u8 where
  "MAX_PARITY_COUNT = 32"

definition rs_parse_header :: "bytes \<Rightarrow> FecError + (u8 \<times> u8 \<times> u32 \<times> u64 \<times> u32)" where
  "rs_parse_header data =
     (if length data < RS_HEADER_SIZE then Inl FecError.Truncated else
      let k = data ! 0; parity_count = data ! 1 in
      if k = 0 then Inl FecError.ReservedValue else
      if parity_count = 0 then Inl FecError.ReservedValue else
      let symbol_size = from_le (slice data 2 4) in
      if symbol_size = 0 then Inl FecError.Malformed else
      let original_len = from_le (slice data 6 8); group_count = from_le (slice data 14 4) in
      Inr (k, parity_count, symbol_size, original_len, group_count))"

definition ceil_div_u64 :: "u64 \<Rightarrow> u64 \<Rightarrow> FecError + u64" where
  "ceil_div_u64 a b =
     (if b = 0 then Inl FecError.Overflow else
      bindR (ok_or (checked_add_word a (b - 1)) FecError.Overflow) (\<lambda>s. Inr (s div b)))"

definition expected_group_count :: "u64 \<Rightarrow> u8 \<Rightarrow> u32 \<Rightarrow> FecError + u32" where
  "expected_group_count original_len k symbol_size =
     bindR (ok_or (checked_mul_word (ucast k) (ucast symbol_size)) FecError.Overflow) (\<lambda>group_size.
     bindR (ceil_div_u64 original_len group_size) (\<lambda>gc.
     ok_or (narrow_word gc) FecError.Overflow))"

definition parity_data_len :: "u32 \<Rightarrow> u8 \<Rightarrow> u32 \<Rightarrow> FecError + nat" where
  "parity_data_len group_count parity_count symbol_size =
     bindR (ok_or (checked_mul_word (ucast group_count) (ucast parity_count)) FecError.Overflow) (\<lambda>(m :: u64).
     bindR (ok_or (checked_mul_word m (ucast symbol_size)) FecError.Overflow) (\<lambda>pl.
     ok_or (usize_of_word pl) FecError.Overflow))"

section \<open>Generator matrix and symbols\<close>

definition build_vandermonde_rect :: "nat \<Rightarrow> nat \<Rightarrow> bytes" where
  "build_vandermonde_rect k parity_count =
     fold (\<lambda>r g. fold (\<lambda>c g. let e = (of_nat (r + 1) * of_nat c :: u64) mod 255 in
         g[r * k + c := if e = 0 then 1 else gf_pow (ucast e)]) [0..<k] g)
       [0..<parity_count] (replicate (parity_count * k) 0)"

definition encode_group :: "bytes list \<Rightarrow> nat \<Rightarrow> nat \<Rightarrow> nat \<Rightarrow> bytes \<Rightarrow> bytes list" where
  "encode_group data_symbols k parity_count symbol_size vandermonde =
     map (\<lambda>r. fold (\<lambda>(c, src) dst. let coeff = vandermonde ! (r * k + c) in
         if coeff = 0 then dst else mul_add_into coeff src dst)
       (enumerate 0 data_symbols) (replicate symbol_size 0)) [0..<parity_count]"

definition extract_symbol :: "bytes \<Rightarrow> nat \<Rightarrow> nat \<Rightarrow> nat \<Rightarrow> nat \<Rightarrow> bytes" where
  "extract_symbol data grp sym_in_group k symbol_size =
     (let start = (grp * k + sym_in_group) * symbol_size in
      if start \<ge> length data then replicate symbol_size 0 else
      let end_pos = min (start + symbol_size) (length data) in
      slice data start (end_pos - start) @ replicate (symbol_size - (end_pos - start)) 0)"

definition extract_parity_symbol :: "bytes \<Rightarrow> nat \<Rightarrow> nat \<Rightarrow> nat \<Rightarrow> nat \<Rightarrow> bytes" where
  "extract_parity_symbol parity_blob grp parity_idx parity_count symbol_size =
     (let start = (grp * parity_count + parity_idx) * symbol_size; end_pos = start + symbol_size in
      if end_pos \<le> length parity_blob then slice parity_blob start symbol_size else replicate symbol_size 0)"

definition parse_rs_meta :: "bytes \<Rightarrow> FecError + RsMeta" where
  "parse_rs_meta data =
     bindR (rs_parse_header data) (\<lambda>(k, parity_count, symbol_size, original_len, group_count).
     bindR (parity_data_len group_count parity_count symbol_size) (\<lambda>pl.
     Inr \<lparr> rm_k = k, rm_parity_count = parity_count, rm_symbol_size = symbol_size,
           rm_original_protected_len = original_len, rm_group_count = group_count, rm_parity_data_len = pl \<rparr>))"

section \<open>Codec\<close>

record RsCodec =
  rc_k :: u8
  rc_parity_count :: u8
  rc_symbol_size :: u32

definition RsCodec_new :: "u8 \<Rightarrow> u8 \<Rightarrow> u32 \<Rightarrow> FecError + RsCodec" where
  "RsCodec_new k parity_count symbol_size =
     (if k = 0 then Inl FecError.ReservedValue else
      if parity_count = 0 then Inl FecError.ReservedValue else
      if parity_count > MAX_PARITY_COUNT then Inl FecError.LimitExceeded else
      if symbol_size = 0 then Inl FecError.Malformed else
      Inr \<lparr> rc_k = k, rc_parity_count = parity_count, rc_symbol_size = symbol_size \<rparr>)"

definition RsCodec_from_fec_value :: "bytes \<Rightarrow> FecError + RsCodec" where
  "RsCodec_from_fec_value data =
     (if length data < 6 then Inl FecError.Truncated else
      RsCodec_new (data ! 0) (data ! 1) (from_le (slice data 2 4)))"

definition write_parity :: "nat \<Rightarrow> nat \<Rightarrow> nat \<Rightarrow> bytes list \<Rightarrow> bytes \<Rightarrow> bytes" where
  "write_parity pc ss g parity_syms parity_blob =
     fold (\<lambda>(r, parity_sym) blob. copy_into blob ((g * pc + r) * ss) parity_sym)
       (enumerate 0 parity_syms) parity_blob"

definition rs_encode_recovery :: "RsCodec \<Rightarrow> bytes \<Rightarrow> FecError + FecValue" where
  "rs_encode_recovery self protected =
     (let k = unat (rc_k self); pc = unat (rc_parity_count self) in
      bindR (ok_or (usize_of_word (rc_symbol_size self)) FecError.Overflow) (\<lambda>ss.
      bindR (ok_or (word_of_usize (length protected)) FecError.Overflow) (\<lambda>original_len.
      bindR (expected_group_count original_len (rc_k self) (rc_symbol_size self)) (\<lambda>group_count.
      bindR (ok_or (usize_of_word group_count) FecError.Overflow) (\<lambda>gc.
      bindR (parity_data_len group_count (rc_parity_count self) (rc_symbol_size self)) (\<lambda>pl.
      if pl > RS_MAX_PARITY_SIZE then Inl FecError.LimitExceeded else
      let vandermonde = build_vandermonde_rect k pc in
      bindR (ok_or (Option.bind (checked_mul_usize gc pc) (\<lambda>value. checked_mul_usize value ss)) FecError.Overflow)
        (\<lambda>parity_blob_len.
      let parity_blob = fold (\<lambda>g blob.
            let data_symbols = map (\<lambda>c. extract_symbol protected g c k ss) [0..<k] in
            write_parity pc ss g (encode_group data_symbols k pc ss vandermonde) blob)
          [0..<gc] (replicate parity_blob_len 0) in
      Inr \<lparr> fv_algo_id = FEC_ALGO_REED_SOLOMON,
            fv_data = [rc_k self, rc_parity_count self] @ le_bytes 4 (rc_symbol_size self) @
              le_bytes 8 original_len @ le_bytes 4 group_count @ parity_blob \<rparr>)))))))"

definition rs_validate :: "RsCodec \<Rightarrow> bytes \<Rightarrow> FecError + unit" where
  "rs_validate self fec_value_data =
     bindR (rs_parse_header fec_value_data) (\<lambda>(k, parity_count, symbol_size, original_len, group_count).
     if k \<noteq> rc_k self \<or> parity_count \<noteq> rc_parity_count self \<or> symbol_size \<noteq> rc_symbol_size self
     then Inl FecError.InvalidLength else
     if parity_count > MAX_PARITY_COUNT then Inl FecError.LimitExceeded else
     bindR (expected_group_count original_len k symbol_size) (\<lambda>expected_gc.
     if group_count \<noteq> expected_gc then Inl FecError.InvalidLength else
     bindR (parity_data_len group_count parity_count symbol_size) (\<lambda>pl.
     if pl > RS_MAX_PARITY_SIZE then Inl FecError.LimitExceeded else
     bindR (ok_or (checked_sub_usize (length fec_value_data) RS_HEADER_SIZE) FecError.Truncated) (\<lambda>available.
     if available \<noteq> pl then Inl FecError.InvalidLength else Inr ()))))"

text \<open>The linear system of one group: the erased columns of the generator and the right-hand sides.\<close>

definition group_system ::
  "bytes \<Rightarrow> bytes \<Rightarrow> bytes \<Rightarrow> nat \<Rightarrow> nat \<Rightarrow> nat \<Rightarrow> nat \<Rightarrow> nat list \<Rightarrow> GfMatrix \<times> bytes list" where
  "group_system vandermonde parity_blob available k pc ss g erased_data =
     (let t = length erased_data; selected_parity = take t [0..<pc] in
      fold (\<lambda>(ri, pr) (a, rhs).
          let row = extract_parity_symbol parity_blob g pr pc ss;
              a = fold (\<lambda>(ci, ec) a. gm_set ri ci (vandermonde ! (pr * k + ec)) a) (enumerate 0 erased_data) a;
              row = fold (\<lambda>c row. if c \<in> set erased_data then row else
                  let coeff = vandermonde ! (pr * k + c) in
                  if coeff = 0 then row else mul_add_into coeff (extract_symbol available g c k ss) row) [0..<k] row
          in (a, rhs[ri := row]))
        (enumerate 0 selected_parity) (gm_zeroes t, replicate t (replicate ss 0)))"

definition recover_group ::
  "bytes \<Rightarrow> bytes \<Rightarrow> FecRecoverInput \<Rightarrow> nat \<Rightarrow> nat \<Rightarrow> nat \<Rightarrow> nat \<Rightarrow> bytes \<Rightarrow> FecError + bytes" where
  "recover_group vandermonde parity_blob inp k pc ss g out =
     bindR (ok_or (checked_mul_usize g k) FecError.Overflow) (\<lambda>start.
     bindR (ok_or (word_of_usize start) FecError.Overflow) (\<lambda>group_sym_start.
     bindR (ok_or (checked_mul_usize (g + 1) k) FecError.Overflow) (\<lambda>end_idx.
     bindR (ok_or (word_of_usize end_idx) FecError.Overflow) (\<lambda>group_sym_end.
     let erased_data = stripe_erasures (ri_erasures inp) group_sym_start group_sym_end in
     if erased_data = [] then Inr out else
     if length erased_data > pc then Inl FecError.EcFailed else
     let (a, rhs) = group_system vandermonde parity_blob (ri_available_data inp) k pc ss g erased_data in
     bindR (invert a) (\<lambda>a_inv.
     let recovered = mat_vec_mul a_inv rhs ss in
     Inr (fold (\<lambda>(ci, ec) out.
         let out_start = (g * k + ec) * ss; out_end = out_start + ss in
         if out_end \<le> length out then copy_into out out_start (recovered ! ci) else out)
       (enumerate 0 erased_data) out))))))"

definition rs_recover :: "RsCodec \<Rightarrow> FecRecoverInput \<Rightarrow> FecError + bytes" where
  "rs_recover self inp =
     bindR (rs_parse_header (ri_fec_value_data inp)) (\<lambda>(_, _, _, original_len, group_count).
     bindR (rs_validate self (ri_fec_value_data inp)) (\<lambda>_.
     if original_len \<noteq> ri_original_protected_len inp then Inl FecError.InvalidLength else
     let k = unat (rc_k self); pc = unat (rc_parity_count self) in
     bindR (ok_or (usize_of_word (rc_symbol_size self)) FecError.Overflow) (\<lambda>ss.
     bindR (ok_or (usize_of_word group_count) FecError.Overflow) (\<lambda>gc.
     bindR (parity_data_len group_count (rc_parity_count self) (rc_symbol_size self)) (\<lambda>pl.
     let parity_blob = slice (ri_fec_value_data inp) RS_HEADER_SIZE pl;
         vandermonde = build_vandermonde_rect k pc in
     bindR (ok_or (Option.bind (checked_mul_usize gc k) (\<lambda>value. checked_mul_usize value ss)) FecError.Overflow)
       (\<lambda>total_data_len.
     let copy_len = min total_data_len (length (ri_available_data inp));
         out = copy_into (replicate total_data_len 0) 0 (take copy_len (ri_available_data inp)) in
     bindR (foldR (recover_group vandermonde parity_blob inp k pc ss) [0..<gc] out) (\<lambda>out.
     bindR (ok_or (usize_of_word original_len) FecError.Overflow) (\<lambda>orig_len.
     Inr (take orig_len out)))))))))"

definition validate_rs_fec_value :: "bytes \<Rightarrow> FecError + unit" where
  "validate_rs_fec_value data =
     bindR (RsCodec_from_fec_value data) (\<lambda>codec. rs_validate codec data)"

section \<open>Vandermonde systems\<close>

lemma prod_linear:
  fixes x :: "'i \<Rightarrow> 'a::comm_ring_1"
  assumes "finite I"
  shows "\<exists>l. \<forall>y. (\<Prod>i\<in>I. y - x i) = (\<Sum>r\<le>card I. l r * y ^ r)"
  using assms
proof (induction I rule: finite_induct)
  case empty
  show ?case
    by (rule exI [of _ "\<lambda>_. 1"]) simp
next
  case (insert i I)
  then obtain l where l: "\<And>y. (\<Prod>i\<in>I. y - x i) = (\<Sum>r\<le>card I. l r * y ^ r)"
    by blast
  let ?l = "\<lambda>r. (if r = 0 then 0 else l (r - 1)) - (if r \<le> card I then x i * l r else 0)"
  have "(\<Prod>i\<in>insert i I. y - x i) = (\<Sum>r\<le>Suc (card I). ?l r * y ^ r)" for y
  proof -
    have "(\<Sum>r\<le>Suc (card I). (if r = 0 then 0 else l (r - 1)) * y ^ r) = y * (\<Sum>r\<le>card I. l r * y ^ r)"
      by (subst sum.atMost_Suc_shift) (simp add: sum_distrib_left mult.left_commute)
    moreover have "(\<Sum>r\<le>Suc (card I). (if r \<le> card I then x i * l r else 0) * y ^ r) = x i * (\<Sum>r\<le>card I. l r * y ^ r)"
      by (simp add: sum_distrib_left mult.assoc)
    ultimately show ?thesis
      using insert.hyps by (simp add: l left_diff_distrib sum_subtractf del: sum.atMost_Suc)
  qed
  then show ?case
    unfolding card_insert_disjoint [OF insert.hyps] by (intro exI [of _ ?l] allI)
qed

lemma vandermonde_regular:
  assumes "inj_on x {..<n}" "\<And>i. i < n \<Longrightarrow> x i \<noteq> 0"
  shows "regular n (\<lambda>r i. x i ^ (r + 1))"
  unfolding regular_def
proof (intro allI impI)
  fix v j assume zero: "\<forall>r<n. (\<Sum>i<n. x i ^ (r + 1) * v i) = 0" and j: "j < n"
  let ?I = "{..<n} - {j}"
  obtain l where l: "\<And>y. (\<Prod>i\<in>?I. y - x i) = (\<Sum>r\<le>card ?I. l r * y ^ r)"
    using prod_linear [of ?I x] by auto
  have card: "{..card ?I} = {..<n}"
    using j by auto
  have "0 = (\<Sum>r<n. l r * (\<Sum>i<n. x i ^ (r + 1) * v i))"
    using zero by simp
  also have "\<dots> = (\<Sum>i<n. \<Sum>r<n. l r * (x i ^ (r + 1) * v i))"
    by (subst sum.swap) (simp add: sum_distrib_left)
  also have "\<dots> = (\<Sum>i<n. x i * v i * (\<Prod>q\<in>?I. x i - x q))"
    unfolding l card by (simp add: sum_distrib_left ac_simps)
  also have "\<dots> = (\<Sum>i<n. if i = j then x j * v j * (\<Prod>q\<in>?I. x j - x q) else 0)"
    by (intro sum.cong) auto
  also have "\<dots> = x j * v j * (\<Prod>q\<in>?I. x j - x q)"
    using j by simp
  finally have "x j * v j * (\<Prod>q\<in>?I. x j - x q) = 0"
    by simp
  moreover have "(\<Prod>q\<in>?I. x j - x q) \<noteq> 0"
    using assms(1) j by (auto simp: inj_on_def)
  ultimately show "v j = 0"
    using assms(2) [OF j] by simp
qed

text \<open>Two equal columns make a system singular.\<close>

lemma repeated_column_singular:
  assumes "i < n" "j < n" "i \<noteq> j" "\<And>r. r < n \<Longrightarrow> M r i = M r j"
  shows "\<not> regular n M"
proof
  let ?v = "\<lambda>c. (if c = i then 1 else 0) + (if c = j then 1 else 0) :: gf"
  assume "regular n M"
  moreover have "(\<Sum>c<n. M r c * ?v c) = 0" if "r < n" for r
  proof -
    have "(\<Sum>c<n. M r c * ?v c) = (\<Sum>c<n. (if c = i then M r i else 0) + (if c = j then M r j else 0))"
      by (intro sum.cong) auto
    also have "\<dots> = M r i + M r j"
      using assms(1,2) by (simp add: sum.distrib)
    finally show ?thesis
      using assms(4) [OF that] by simp
  qed
  ultimately have "?v i = 0"
    unfolding regular_def using assms(1) by (elim allE [of _ ?v]) blast
  with assms(3) show False
    by simp
qed

section \<open>Symbols as vectors over the field\<close>

lemma length_mul_add_into [simp]: "length (mul_add_into coeff src dst) = length dst"
  by (simp add: mul_add_into_def)

lemma nth_mul_add_into:
  "length src = length dst \<Longrightarrow> b < length dst \<Longrightarrow> gf (mul_add_into coeff src dst ! b) = gf (dst ! b) + gf coeff * gf (src ! b)"
  by (simp add: mul_add_into_def)

lemma mul_add_fold:
  assumes "\<And>c. c \<in> set cs \<Longrightarrow> length (src c) = length dst"
  shows "length (fold (\<lambda>c dst. if P c then dst else let q = coeff c in if q = 0 then dst else mul_add_into q (src c) dst) cs dst) = length dst \<and>
    (\<forall>b < length dst. gf (fold (\<lambda>c dst. if P c then dst else let q = coeff c in if q = 0 then dst else mul_add_into q (src c) dst) cs dst ! b) =
      gf (dst ! b) + (\<Sum>c\<leftarrow>filter (\<lambda>c. \<not> P c) cs. gf (coeff c) * gf (src c ! b)))"
  using assms
proof (induction cs arbitrary: dst)
  case (Cons c cs)
  then show ?case
    using Cons.IH [of "if P c \<or> coeff c = 0 then dst else mul_add_into (coeff c) (src c) dst"]
    by (auto simp: Let_def nth_mul_add_into add.assoc)
qed simp

lemma enumerate_map: "enumerate 0 xs = map (\<lambda>i. (i, xs ! i)) [0..<length xs]"
  by (rule nth_equalityI) (simp_all add: nth_enumerate_eq)

lemma fold_enumerate: "fold f (enumerate 0 xs) s = fold (\<lambda>i. f (i, xs ! i)) [0..<length xs] s"
  by (simp add: enumerate_map fold_map comp_def)

lemma mul_add_enumerate:
  assumes "\<And>src. src \<in> set vecs \<Longrightarrow> length src = ss"
  shows "length (fold (\<lambda>(c, src) dst. let q = coeff c in if q = 0 then dst else mul_add_into q src dst)
      (enumerate 0 vecs) (replicate ss 0)) = ss"
    "\<And>b. b < ss \<Longrightarrow> gf (fold (\<lambda>(c, src) dst. let q = coeff c in if q = 0 then dst else mul_add_into q src dst)
      (enumerate 0 vecs) (replicate ss 0) ! b) = (\<Sum>c<length vecs. gf (coeff c) * gf (vecs ! c ! b))"
  using mul_add_fold [of "[0..<length vecs]" "(!) vecs" "replicate ss 0" "\<lambda>_. False" coeff] assms
  by (simp_all add: fold_enumerate interv_sum_list_conv_sum_set_nat atLeast0LessThan)

lemma mat_vec_mul_nth:
  assumes "\<forall>v \<in> set vecs. length v = ss" "length vecs = gm_size m" "r < gm_size m"
  shows "length (mat_vec_mul m vecs ss ! r) = ss"
    "\<And>b. b < ss \<Longrightarrow> gf (mat_vec_mul m vecs ss ! r ! b) = (\<Sum>c<gm_size m. gmx m r c * gf (vecs ! c ! b))"
  using mul_add_enumerate [OF bspec [OF assms(1)], where coeff = "gm_get m r"] assms(2,3)
  by (simp_all add: mat_vec_mul_def gmx_def)

lemma extract_symbol_eq: "extract_symbol data g c k ss = blk ss data (g * k + c)"
proof -
  let ?s = "(g * k + c) * ss"
  have "slice data ?s (min (?s + ss) (length data) - ?s) = slice data ?s ss"
    by (simp add: slice_def min_def)
  moreover have "ss - (min (?s + ss) (length data) - ?s) = ss - length (slice data ?s ss)"
    by (simp add: slice_def min_def) linarith
  ultimately show ?thesis
    by (simp add: extract_symbol_def blk_def Let_def) (simp add: slice_def)
qed

lemma vandermonde_nth:
  assumes "r < pc" "c < k" "pc \<le> 255" "k \<le> 255"
  shows "gf (build_vandermonde_rect k pc ! (r * k + c)) = gf 2 ^ ((r + 1) * c)"
proof -
  let ?h = "\<lambda>r c. let e = (of_nat (r + 1) * of_nat c :: u64) mod 255 in if e = 0 then 1 else gf_pow (ucast e)"
  have "length (build_vandermonde_rect k pc) = pc * k \<and> (\<forall>q < pc. \<forall>c < k. build_vandermonde_rect k pc ! (q * k + c) =
      (if q < pc then ?h q c else replicate (pc * k) 0 ! (q * k + c)))"
    unfolding build_vandermonde_rect_def Let_def by (rule fill_matrix)
  then have V: "build_vandermonde_rect k pc ! (r * k + c) = ?h r c"
    using assms(1,2) by simp
  let ?e = "(of_nat (r + 1) * of_nat c :: u64) mod 255"
  have "(r + 1) * c \<le> 255 * 255"
    using assms by (intro mult_le_mono) simp_all
  then have e: "unat ?e = (r + 1) * c mod 255"
    by (simp add: unat_mod flip: of_nat_mult del: of_nat_add of_nat_Suc)
  have power: "(if x = 0 then 1 else gf_pow (ucast x)) = pw (unat x)" if "unat x < 255" for x :: u64
    using that by (simp add: gf_pow_eq unsigned_ucast_eq take_bit_nat_eq_self)
  have lt: "unat ?e < 255"
    unfolding e by simp
  have "?h r c = pw ((r + 1) * c mod 255)"
    unfolding Let_def power [OF lt] e ..
  then show ?thesis
    unfolding V by (simp only: pw_mod gf_pw)
qed

section \<open>Sizes\<close>

definition rs_ok :: "RsCodec \<Rightarrow> bool" where
  "rs_ok c \<longleftrightarrow> rc_k c \<noteq> 0 \<and> rc_parity_count c \<noteq> 0 \<and> rc_parity_count c \<le> MAX_PARITY_COUNT \<and> rc_symbol_size c \<noteq> 0"

lemma RsCodec_new_Inr:
  "RsCodec_new k pc ss = Inr c \<longleftrightarrow> rs_ok c \<and> rc_k c = k \<and> rc_parity_count c = pc \<and> rc_symbol_size c = ss"
  by (cases c) (auto simp: RsCodec_new_def rs_ok_def not_less)

abbreviation r_k :: "RsCodec \<Rightarrow> nat" where "r_k c \<equiv> unat (rc_k c)"
abbreviation r_pc :: "RsCodec \<Rightarrow> nat" where "r_pc c \<equiv> unat (rc_parity_count c)"
abbreviation r_ss :: "RsCodec \<Rightarrow> nat" where "r_ss c \<equiv> unat (rc_symbol_size c)"

lemma rs_range: "rs_ok c \<Longrightarrow> 0 < r_k c \<and> r_k c \<le> 255 \<and> 0 < r_pc c \<and> r_pc c \<le> 32 \<and> 0 < r_ss c"
  using unat_lt2p [of "rc_k c"]
  by (auto simp: rs_ok_def unat_gt_0 word_le_nat_alt MAX_PARITY_COUNT_def simp del: unat_u8_less)

lemma rs_sizes: "rs_ok c \<Longrightarrow> rc_k c \<noteq> 0 \<and> rc_symbol_size c \<noteq> 0 \<and> r_k c * r_ss c < 2 ^ 64"
proof -
  assume ok: "rs_ok c"
  have "r_k c * r_ss c \<le> 255 * 2 ^ 32"
    using rs_range [OF ok] unat_lt2p [of "rc_symbol_size c"]
    by (intro mult_le_mono) (simp_all del: unat_u32_less)
  with ok show ?thesis
    by (simp add: rs_ok_def)
qed

lemma expected_group_count_eq: "expected_group_count n k ss = expected_stripe_count n k ss"
  by (simp add: expected_group_count_def expected_stripe_count_def ceil_div_u64_def [abs_def] xor_ceil_div_def [abs_def])

lemma parity_data_len_Inr:
  "parity_data_len gc pc ss = Inr pl \<longleftrightarrow> pl = unat gc * unat pc * unat ss \<and> pl < 2 ^ 64"
proof -
  have "unat gc * unat pc < 2 ^ 32 * 2 ^ 8"
    by (intro mult_strict_mono) simp_all
  then have lt: "unat gc * unat pc < 2 ^ 64"
    by simp
  let ?p = "of_nat (unat gc * unat pc) :: u64"
  have p: "checked_mul_word (ucast gc) (ucast pc) = Some ?p" "unat ?p = unat gc * unat pc"
    using lt by (simp_all add: checked_mul_word_Some unat_ucast_up unat_of_nat_u64 del: of_nat_mult)
  have "(\<exists>w. checked_mul_word q x = Some w \<and> unat w = pl) \<longleftrightarrow> pl = unat q * unat x \<and> pl < 2 ^ 64" for q x :: u64
    unfolding checked_mul_word_Some by (auto intro!: exI [of _ "of_nat pl"] simp del: of_nat_mult)
  from this [of ?p "ucast ss"] have "(\<exists>w. checked_mul_word ?p (ucast ss) = Some w \<and> unat w = pl) \<longleftrightarrow>
      pl = unat gc * unat pc * unat ss \<and> pl < 2 ^ 64"
    unfolding p(2) by (simp add: unat_ucast_up del: of_nat_mult)
  then show ?thesis
    by (simp add: parity_data_len_def p(1) bindR_eq_Inr del: of_nat_mult)
qed

definition rs_total :: "RsCodec \<Rightarrow> bytes \<Rightarrow> nat" where
  "rs_total c data = stripes (r_k c * r_ss c) (length data)"

definition rs_encodable :: "RsCodec \<Rightarrow> bytes \<Rightarrow> bool" where
  "rs_encodable c data \<longleftrightarrow> length data + r_k c * r_ss c - 1 < 2 ^ 64 \<and> length data < 2 ^ 64 \<and>
     rs_total c data < 2 ^ 32 \<and> rs_total c data * r_pc c * r_ss c \<le> RS_MAX_PARITY_SIZE"

lemma rs_total_bound:
  assumes "rs_ok c" "rs_encodable c data"
  shows "length data \<le> rs_total c data * r_k c * r_ss c" "rs_total c data * r_k c * r_ss c \<le> usize_max"
proof -
  have "0 < r_k c * r_ss c"
    using rs_range [OF assms(1)] by simp
  from stripes_bounds [OF this, of "length data"]
  have len: "length data \<le> rs_total c data * r_k c * r_ss c"
    "rs_total c data * r_k c * r_ss c < length data + r_k c * r_ss c"
    by (simp_all add: rs_total_def mult.assoc)
  moreover have "length data + r_k c * r_ss c - 1 < 2 ^ 64"
    using assms(2) by (simp add: rs_encodable_def)
  ultimately show "length data \<le> rs_total c data * r_k c * r_ss c" "rs_total c data * r_k c * r_ss c \<le> usize_max"
    unfolding usize_max_less by linarith+
qed

section \<open>Encoding\<close>

definition group_parity :: "nat \<Rightarrow> nat \<Rightarrow> nat \<Rightarrow> bytes \<Rightarrow> nat \<Rightarrow> nat \<Rightarrow> bytes" where
  "group_parity k pc ss data g r =
     encode_group (map (\<lambda>c. blk ss data (g * k + c)) [0..<k]) k pc ss (build_vandermonde_rect k pc) ! r"

lemma group_parity_nth:
  assumes "r < pc" "pc \<le> 255" "k \<le> 255"
  shows "length (group_parity k pc ss data g r) = ss"
    "\<And>b. b < ss \<Longrightarrow> gf (group_parity k pc ss data g r ! b) =
       (\<Sum>c<k. gf 2 ^ ((r + 1) * c) * gf (blk ss data (g * k + c) ! b))"
proof -
  let ?v = "map (\<lambda>c. blk ss data (g * k + c)) [0..<k]"
  have "length src = ss" if "src \<in> set ?v" for src
    using that by auto
  note par = mul_add_enumerate [of ?v ss, OF this, where coeff = "\<lambda>c. build_vandermonde_rect k pc ! (r * k + c)"]
  show "length (group_parity k pc ss data g r) = ss"
    using par(1) assms(1) by (auto simp: group_parity_def encode_group_def)
  fix b assume "b < ss"
  with par(2) [of b] assms(1)
  have "gf (group_parity k pc ss data g r ! b) =
      (\<Sum>c<k. gf (build_vandermonde_rect k pc ! (r * k + c)) * gf (?v ! c ! b))"
    by (auto simp: group_parity_def encode_group_def)
  also have "\<dots> = (\<Sum>c<k. gf 2 ^ ((r + 1) * c) * gf (blk ss data (g * k + c) ! b))"
    by (intro sum.cong) (use vandermonde_nth assms in simp_all)
  finally show "gf (group_parity k pc ss data g r ! b) =
      (\<Sum>c<k. gf 2 ^ ((r + 1) * c) * gf (blk ss data (g * k + c) ! b))" .
qed

lemma write_parity_slices:
  assumes "length blob = n * pc * ss" "g < n" "length syms = pc" "\<And>s. s \<in> set syms \<Longrightarrow> length s = ss"
  shows "length (write_parity pc ss g syms blob) = n * pc * ss \<and>
    (\<forall>h < n. \<forall>r < pc. slice (write_parity pc ss g syms blob) ((h * pc + r) * ss) ss =
       (if h = g then syms ! r else slice blob ((h * pc + r) * ss) ss))"
proof -
  let ?w = "\<lambda>m. fold (\<lambda>r blob. copy_into blob ((g * pc + r) * ss) (syms ! r)) [0..<m] blob"
  have fits: "(h * pc + r) * ss + ss \<le> n * pc * ss" if "h < n" "r < pc" for h r
    by (rule row_bound [OF block_index_bound [OF that]])
  have "m \<le> pc \<Longrightarrow> length (?w m) = n * pc * ss \<and> (\<forall>h < n. \<forall>r < pc. slice (?w m) ((h * pc + r) * ss) ss =
       (if h = g \<and> r < m then syms ! r else slice blob ((h * pc + r) * ss) ss))" for m
  proof (induction m)
    case (Suc m)
    have len: "length (syms ! m) = ss"
      using Suc.prems assms(3,4) by simp
    show ?case
      using Suc fits [OF assms(2), of m] fits
      by (auto simp: slice_copy_block [OF len] len less_Suc_eq idx_inj)
  qed (use assms(1) in simp)
  from this [of pc] show ?thesis
    by (simp add: write_parity_def fold_enumerate assms(3))
qed

lemma encode_groups:
  assumes "pc \<le> 255" "k \<le> 255" "m \<le> n"
  shows "length (fold (\<lambda>g. write_parity pc ss g (map (group_parity k pc ss data g) [0..<pc])) [0..<m] (replicate (n * pc * ss) 0)) = n * pc * ss \<and>
    (\<forall>h < m. \<forall>r < pc. slice (fold (\<lambda>g. write_parity pc ss g (map (group_parity k pc ss data g) [0..<pc])) [0..<m]
       (replicate (n * pc * ss) 0)) ((h * pc + r) * ss) ss = group_parity k pc ss data h r)"
  using assms(3)
proof (induction m)
  case (Suc m)
  let ?b = "fold (\<lambda>g. write_parity pc ss g (map (group_parity k pc ss data g) [0..<pc])) [0..<m] (replicate (n * pc * ss) 0)"
  have "length (write_parity pc ss m (map (group_parity k pc ss data m) [0..<pc]) ?b) = n * pc * ss \<and>
    (\<forall>h < n. \<forall>r < pc. slice (write_parity pc ss m (map (group_parity k pc ss data m) [0..<pc]) ?b) ((h * pc + r) * ss) ss =
       (if h = m then map (group_parity k pc ss data m) [0..<pc] ! r else slice ?b ((h * pc + r) * ss) ss))"
    by (rule write_parity_slices) (use Suc assms(1,2) group_parity_nth(1) in auto)
  then show ?case
    using Suc by (auto simp: less_Suc_eq)
qed simp

section \<open>The system of a group\<close>

lemma fold_pair: "fold (\<lambda>x (a, b). (f x a, h x b)) xs (a, b) = (fold f xs a, fold h xs b)"
  by (induction xs arbitrary: a b) simp_all

lemma fold_update_all:
  "m \<le> length xs \<Longrightarrow> fold (\<lambda>i xs. xs[i := h i]) [0..<m] xs = map h [0..<m] @ drop m xs"
proof (induction m)
  case (Suc m)
  then show ?case
    by (simp add: list_update_append Cons_nth_drop_Suc [symmetric])
qed simp

definition group_rhs :: "bytes \<Rightarrow> bytes \<Rightarrow> bytes \<Rightarrow> nat \<Rightarrow> nat \<Rightarrow> nat \<Rightarrow> nat \<Rightarrow> nat list \<Rightarrow> nat \<Rightarrow> bytes" where
  "group_rhs V par a k pc ss g er r =
     fold (\<lambda>c row. if c \<in> set er then row else let coeff = V ! (r * k + c) in
         if coeff = 0 then row else mul_add_into coeff (extract_symbol a g c k ss) row)
       [0..<k] (extract_parity_symbol par g r pc ss)"

lemma group_system_eq:
  assumes "length er \<le> pc"
  shows "group_system V par a k pc ss g er =
    (fold (\<lambda>ri m. fold (\<lambda>ci m. gm_set ri ci (V ! (ri * k + er ! ci)) m) [0..<length er] m) [0..<length er]
       (gm_zeroes (length er)), map (group_rhs V par a k pc ss g er) [0..<length er])"
proof -
  let ?t = "length er"
  have sel: "take ?t [0..<pc] = [0..<?t]"
    using assms by simp
  have "group_system V par a k pc ss g er =
      fold (\<lambda>ri (m, rhs). (fold (\<lambda>ci m. gm_set ri ci (V ! (ri * k + er ! ci)) m) [0..<?t] m,
          rhs[ri := group_rhs V par a k pc ss g er ri])) [0..<?t] (gm_zeroes ?t, replicate ?t (replicate ss 0))"
    unfolding group_system_def Let_def sel fold_enumerate group_rhs_def
    by (rule fold_cong) (simp_all add: fold_enumerate split_beta)
  then show ?thesis
    by (simp add: fold_pair fold_update_all)
qed

lemma group_matrix:
  fixes V :: bytes
  defines "A t k er \<equiv> fold (\<lambda>ri m. fold (\<lambda>ci m. gm_set ri ci (V ! (ri * k + er ! ci)) m) [0..<t] m) [0..<t] (gm_zeroes t)"
  shows "gm_size (A t k er) = t" "\<And>r i. r < t \<Longrightarrow> i < t \<Longrightarrow> gmx (A t k er) r i = gf (V ! (r * k + er ! i))"
proof -
  let ?h = "\<lambda>r i. V ! (r * k + er ! i)"
  let ?xs = "fold (\<lambda>r xs. fold (\<lambda>c xs. xs[r * t + c := ?h r c]) [0..<t] xs) [0..<t] (replicate (t * t) 0)"
  have "length ?xs = t * t \<and> (\<forall>q < t. \<forall>c < t. ?xs ! (q * t + c) = (if q < t then ?h q c else replicate (t * t) 0 ! (q * t + c)))"
    by (rule fill_matrix)
  then show "gm_size (A t k er) = t" "\<And>r i. r < t \<Longrightarrow> i < t \<Longrightarrow> gmx (A t k er) r i = gf (V ! (r * k + er ! i))"
    by (simp_all add: A_def fold_gm_set_rows gm_zeroes_def gmx_def gm_get_def)
qed

lemma group_rhs_nth:
  assumes "r < pc" "pc \<le> 255" "k \<le> 255" "set er \<subseteq> {..<k}"
    and par: "extract_parity_symbol par g r pc ss = group_parity k pc ss p g r"
    and same: "\<And>c. c < k \<Longrightarrow> c \<notin> set er \<Longrightarrow> blk ss a (g * k + c) = blk ss p (g * k + c)"
  shows "length (group_rhs (build_vandermonde_rect k pc) par a k pc ss g er r) = ss"
    "\<And>b. b < ss \<Longrightarrow> gf (group_rhs (build_vandermonde_rect k pc) par a k pc ss g er r ! b) =
       (\<Sum>c\<in>set er. gf 2 ^ ((r + 1) * c) * gf (blk ss p (g * k + c) ! b))"
proof -
  note fold = mul_add_fold [where cs = "[0..<k]" and dst = "group_parity k pc ss p g r" and P = "\<lambda>c. c \<in> set er"
      and coeff = "\<lambda>c. build_vandermonde_rect k pc ! (r * k + c)" and src = "\<lambda>c. extract_symbol a g c k ss"]
  note gp = group_parity_nth [OF assms(1-3), where ss = ss and data = p and g = g]
  show "length (group_rhs (build_vandermonde_rect k pc) par a k pc ss g er r) = ss"
    using fold gp(1) by (simp add: group_rhs_def par extract_symbol_eq)
  fix b assume b: "b < ss"
  let ?f = "\<lambda>c. gf 2 ^ ((r + 1) * c) * gf (blk ss p (g * k + c) ! b)"
  have filt: "set (filter (\<lambda>c. c \<notin> set er) [0..<k]) = {..<k} - set er"
    by auto
  have "gf (group_rhs (build_vandermonde_rect k pc) par a k pc ss g er r ! b) = (\<Sum>c<k. ?f c) +
      (\<Sum>c\<leftarrow>filter (\<lambda>c. c \<notin> set er) [0..<k]. gf (build_vandermonde_rect k pc ! (r * k + c)) * gf (blk ss a (g * k + c) ! b))"
    using fold gp b by (simp add: group_rhs_def par extract_symbol_eq)
  also have "(\<Sum>c\<leftarrow>filter (\<lambda>c. c \<notin> set er) [0..<k]. gf (build_vandermonde_rect k pc ! (r * k + c)) * gf (blk ss a (g * k + c) ! b)) =
      (\<Sum>c\<in>{..<k} - set er. ?f c)"
    unfolding filt [symmetric] sum.distinct_set_conv_list [OF distinct_filter [OF distinct_upt]]
    by (rule arg_cong [of _ _ sum_list], rule map_cong) (use vandermonde_nth [OF assms(1) _ assms(2,3)] same in simp_all)
  also have "(\<Sum>c<k. ?f c) = (\<Sum>c\<in>{..<k} - set er. ?f c) + (\<Sum>c\<in>set er. ?f c)"
    by (rule sum.subset_diff [OF assms(4)]) simp
  also have "(\<Sum>c\<in>{..<k} - set er. ?f c) + (\<Sum>c\<in>set er. ?f c) + (\<Sum>c\<in>{..<k} - set er. ?f c) = (\<Sum>c\<in>set er. ?f c)"
    by (simp add: add.commute [of _ "sum _ (set er)"] add.assoc)
  finally show "gf (group_rhs (build_vandermonde_rect k pc) par a k pc ss g er r ! b) = (\<Sum>c\<in>set er. ?f c)" .
qed

lemma nth_bound: "set xs \<subseteq> {..<k} \<Longrightarrow> i < length xs \<Longrightarrow> xs ! i < (k :: nat)"
  by (meson lessThan_iff nth_mem subsetD)

lemma regular_cong: "(\<And>r c. r < n \<Longrightarrow> c < n \<Longrightarrow> M r c = N r c) \<Longrightarrow> regular n M \<longleftrightarrow> regular n N"
proof -
  assume eq: "\<And>r c. r < n \<Longrightarrow> c < n \<Longrightarrow> M r c = N r c"
  have "(\<Sum>c<n. M r c * v c) = (\<Sum>c<n. N r c * v c)" if "r < n" for r v
    by (intro sum.cong) (use eq that in simp_all)
  then show ?thesis
    unfolding regular_def by (intro arg_cong [of _ _ All] ext) (auto cong: imp_cong)
qed

text \<open>The columns that belong to different symbols are independent, repeated ones are not.\<close>

lemma group_regular:
  assumes "set er \<subseteq> {..<k}" "k \<le> 255"
  shows "regular (length er) (\<lambda>r i. gf 2 ^ ((r + 1) * er ! i)) \<longleftrightarrow> distinct er"
proof
  assume "distinct er"
  let ?x = "\<lambda>i. gf 2 ^ (er ! i)"
  have "inj_on ?x {..<length er}"
  proof (rule inj_onI)
    fix i j assume ij: "i \<in> {..<length er}" "j \<in> {..<length er}" "?x i = ?x j"
    then have "er ! i < k" "er ! j < k"
      using nth_bound [OF assms(1)] by simp_all
    moreover have "pw (er ! i) = pw (er ! j)"
      using ij(3) by (simp flip: gf_pw)
    ultimately have "er ! i = er ! j"
      using assms(2) by (intro pw_inj) simp_all
    with ij \<open>distinct er\<close> show "i = j"
      by (simp add: nth_eq_iff_index_eq)
  qed
  then have "regular (length er) (\<lambda>r i. ?x i ^ (r + 1))"
    by (rule vandermonde_regular) (simp flip: gf_pw)
  then show "regular (length er) (\<lambda>r i. gf 2 ^ ((r + 1) * er ! i))"
    by (simp only: power_mult [symmetric] mult.commute)
next
  assume reg: "regular (length er) (\<lambda>r i. gf 2 ^ ((r + 1) * er ! i))"
  show "distinct er"
  proof (rule ccontr)
    assume "\<not> distinct er"
    then obtain i j where "i < length er" "j < length er" "i \<noteq> j" "er ! i = er ! j"
      by (auto simp: distinct_conv_nth)
    with reg repeated_column_singular [of i "length er" j] show False
      by auto
  qed
qed

lemma sum_set_nth: "distinct xs \<Longrightarrow> (\<Sum>c\<in>set xs. f c) = (\<Sum>i<length xs. f (xs ! i) :: 'a::comm_monoid_add)"
  by (simp add: sum.distinct_set_conv_list sum_list_sum_nth atLeast0LessThan)

lemma solve_group:
  assumes "set er \<subseteq> {..<k}" "length er \<le> pc" "pc \<le> 255" "k \<le> 255"
    and par: "\<And>r. r < pc \<Longrightarrow> extract_parity_symbol par g r pc ss = group_parity k pc ss p g r"
    and same: "\<And>c. c < k \<Longrightarrow> c \<notin> set er \<Longrightarrow> blk ss a (g * k + c) = blk ss p (g * k + c)"
    and sys: "group_system (build_vandermonde_rect k pc) par a k pc ss g er = (m, rhs)"
  shows "if distinct er
    then \<exists>m_inv. invert m = Inr m_inv \<and> (\<forall>i < length er. mat_vec_mul m_inv rhs ss ! i = blk ss p (g * k + er ! i))
    else invert m = Inl FecError.EcFailed"
proof -
  let ?t = "length er" and ?V = "build_vandermonde_rect k pc"
  let ?d = "\<lambda>i b. gf (blk ss p (g * k + er ! i) ! b)"
  have m: "gm_size m = ?t" "\<And>r i. r < ?t \<Longrightarrow> i < ?t \<Longrightarrow> gmx m r i = gf 2 ^ ((r + 1) * er ! i)"
    and rhs: "rhs = map (group_rhs ?V par a k pc ss g er) [0..<?t]"
  proof -
    have M: "fold (\<lambda>ri m. fold (\<lambda>ci m. gm_set ri ci (?V ! (ri * k + er ! ci)) m) [0..<?t] m) [0..<?t] (gm_zeroes ?t) = m"
      and "rhs = map (group_rhs ?V par a k pc ss g er) [0..<?t]"
      using sys unfolding group_system_eq [OF assms(2)] by simp_all
    then show "rhs = map (group_rhs ?V par a k pc ss g er) [0..<?t]"
      by simp
    show "gm_size m = ?t"
      using group_matrix(1) [of ?V k er ?t] unfolding M .
    fix r i assume ri: "r < ?t" "i < ?t"
    then have "er ! i < k"
      using nth_bound [OF assms(1)] by simp
    then have "gf (?V ! (r * k + er ! i)) = gf 2 ^ ((r + 1) * er ! i)"
      using vandermonde_nth ri assms(2-4) by simp
    then show "gmx m r i = gf 2 ^ ((r + 1) * er ! i)"
      using group_matrix(2) [of r ?t i ?V k er] ri unfolding M by simp
  qed
  have reg: "regular ?t (gmx m) \<longleftrightarrow> distinct er"
    using regular_cong [of ?t "gmx m", OF m(2)] group_regular [OF assms(1,4)] by simp
  show ?thesis
  proof (cases "distinct er")
    case False
    then show ?thesis
      using invert_exact [OF m(1)] reg by simp
  next
    case True
    then obtain m_inv where inv: "invert m = Inr m_inv" "gm_size m_inv = ?t"
      "\<And>r c. r < ?t \<Longrightarrow> c < ?t \<Longrightarrow> (\<Sum>j<?t. gmx m_inv r j * gmx m j c) = (if r = c then 1 else 0)"
      using invert_exact [OF m(1)] reg by auto
    have row: "length (group_rhs ?V par a k pc ss g er r) = ss"
      "\<And>b. b < ss \<Longrightarrow> gf (group_rhs ?V par a k pc ss g er r ! b) = (\<Sum>j<?t. gmx m r j * ?d j b)" if r: "r < ?t" for r
    proof -
      have rp: "r < pc"
        using r assms(2) by simp
      show "length (group_rhs ?V par a k pc ss g er r) = ss"
        by (rule group_rhs_nth(1) [OF rp assms(3,4,1) par [OF rp]]) (rule same)
      fix b assume b: "b < ss"
      have "gf (group_rhs ?V par a k pc ss g er r ! b) = (\<Sum>c\<in>set er. gf 2 ^ ((r + 1) * c) * gf (blk ss p (g * k + c) ! b))"
        by (rule group_rhs_nth(2) [OF rp assms(3,4,1) par [OF rp] _ b]) (rule same)
      also have "\<dots> = (\<Sum>j<?t. gmx m r j * ?d j b)"
        unfolding sum_set_nth [OF True] by (intro sum.cong) (use m(2) [OF r] in simp_all)
      finally show "gf (group_rhs ?V par a k pc ss g er r ! b) = (\<Sum>j<?t. gmx m r j * ?d j b)" .
    qed
    have lens: "\<forall>v \<in> set rhs. length v = ss" "length rhs = gm_size m_inv"
      using row(1) inv(2) by (auto simp: rhs)
    have "mat_vec_mul m_inv rhs ss ! i = blk ss p (g * k + er ! i)" if i: "i < ?t" for i
    proof (rule nth_equalityI)
      have i': "i < gm_size m_inv"
        using i inv(2) by simp
      note mv = mat_vec_mul_nth [OF lens i']
      show "length (mat_vec_mul m_inv rhs ss ! i) = length (blk ss p (g * k + er ! i))"
        by (simp add: mv(1))
      fix b assume "b < length (mat_vec_mul m_inv rhs ss ! i)"
      then have b: "b < ss"
        by (simp add: mv(1))
      have "gf (mat_vec_mul m_inv rhs ss ! i ! b) = (\<Sum>r<?t. gmx m_inv i r * (\<Sum>j<?t. gmx m r j * ?d j b))"
        unfolding mv(2) [OF b] inv(2) by (intro sum.cong) (use row(2) b rhs in simp_all)
      also have "\<dots> = (\<Sum>j<?t. \<Sum>r<?t. gmx m_inv i r * gmx m r j * ?d j b)"
        by (subst sum.swap) (simp add: sum_distrib_left mult.assoc)
      also have "\<dots> = (\<Sum>j<?t. (\<Sum>r<?t. gmx m_inv i r * gmx m r j) * ?d j b)"
        by (simp add: sum_distrib_right)
      also have "\<dots> = (\<Sum>j<?t. if i = j then ?d j b else 0)"
        by (intro sum.cong) (use inv(3) [OF i] in simp_all)
      also have "\<dots> = ?d i b"
        using i by simp
      finally show "mat_vec_mul m_inv rhs ss ! i ! b = blk ss p (g * k + er ! i) ! b"
        by simp
    qed
    with True inv(1) show ?thesis
      by auto
  qed
qed

section \<open>Recovery of a group\<close>

lemma write_symbols:
  assumes "length out = n * k * ss" "g < n" "set er \<subseteq> {..<k}"
    and "\<And>i. i < length er \<Longrightarrow> recovered ! i = blk ss p (g * k + er ! i)"
  shows "length (fold (\<lambda>(ci, ec) out. let out_start = (g * k + ec) * ss; out_end = out_start + ss in
        if out_end \<le> length out then copy_into out out_start (recovered ! ci) else out) (enumerate 0 er) out) = n * k * ss \<and>
    (\<forall>i < n * k. slice (fold (\<lambda>(ci, ec) out. let out_start = (g * k + ec) * ss; out_end = out_start + ss in
        if out_end \<le> length out then copy_into out out_start (recovered ! ci) else out) (enumerate 0 er) out) (i * ss) ss =
      (if i \<in> (\<lambda>e. g * k + e) ` set er then blk ss p i else slice out (i * ss) ss))"
proof -
  let ?f = "\<lambda>j out. let out_start = (g * k + er ! j) * ss; out_end = out_start + ss in
      if out_end \<le> length out then copy_into out out_start (recovered ! j) else out"
  let ?w = "\<lambda>m. fold ?f [0..<m] out"
  have fits: "i * ss + ss \<le> n * k * ss" if "i < n * k" for i
    by (rule row_bound [OF that])
  have "m \<le> length er \<Longrightarrow> length (?w m) = n * k * ss \<and> (\<forall>i < n * k. slice (?w m) (i * ss) ss =
      (if i \<in> (\<lambda>e. g * k + e) ` set (take m er) then blk ss p i else slice out (i * ss) ss))" for m
  proof (induction m)
    case (Suc m)
    let ?i = "g * k + er ! m"
    have i: "?i < n * k"
      using nth_bound [OF assms(3), of m] Suc.prems by (intro block_index_bound [OF assms(2)]) simp
    have "?w (Suc m) = copy_into (?w m) (?i * ss) (blk ss p ?i)"
      using Suc fits [OF i] assms(4) [of m] by (simp add: Let_def)
    moreover have "take (Suc m) er = take m er @ [er ! m]"
      using Suc.prems by (simp add: take_Suc_conv_app_nth)
    ultimately show ?case
      using Suc fits [OF i] fits by (auto simp: slice_copy_block [OF length_blk])
  qed (use assms(1) in simp)
  from this [of "length er"] show ?thesis
    by (simp add: fold_enumerate)
qed

lemma recover_group_repairs:
  assumes "rs_ok c" "n * r_k c * r_ss c \<le> usize_max" "g < n"
    and par: "\<And>r. r < r_pc c \<Longrightarrow> extract_parity_symbol par g r (r_pc c) (r_ss c) = group_parity (r_k c) (r_pc c) (r_ss c) p g r"
    and "intact (r_ss c) (n * r_k c) (ri_erasures inp) (ri_available_data inp) p"
    and rep: "repaired (r_k c) (r_ss c) n g p (ri_available_data inp) out"
  shows "if distinct (stripe_lost (r_k c) (ri_erasures inp) g) \<and> length (stripe_lost (r_k c) (ri_erasures inp) g) \<le> r_pc c
    then \<exists>out'. recover_group (build_vandermonde_rect (r_k c) (r_pc c)) par inp (r_k c) (r_pc c) (r_ss c) g out = Inr out' \<and>
      repaired (r_k c) (r_ss c) n (Suc g) p (ri_available_data inp) out'
    else recover_group (build_vandermonde_rect (r_k c) (r_pc c)) par inp (r_k c) (r_pc c) (r_ss c) g out = Inl FecError.EcFailed"
proof -
  let ?k = "r_k c" and ?pc = "r_pc c" and ?ss = "r_ss c" and ?es = "ri_erasures inp" and ?a = "ri_available_data inp"
  let ?V = "build_vandermonde_rect ?k ?pc"
  let ?er = "stripe_lost ?k ?es g"
  note rng = rs_range [OF assms(1)]
  from rep have len: "length out = n * ?k * ?ss"
    and out: "\<And>i. i < n * ?k \<Longrightarrow> slice out (i * ?ss) ?ss = blk ?ss (if i < g * ?k then p else ?a) i"
    by (simp_all add: repaired_def)
  have "(g + 1) * ?k \<le> n * ?k"
    using assms(3) by (intro mult_le_mono1) simp
  moreover have "n * ?k \<le> n * ?k * ?ss"
    using rng by simp
  ultimately have max: "(g + 1) * ?k \<le> usize_max"
    using assms(2) by linarith
  then obtain lo hi :: u64 where ends: "unat lo = g * ?k" "unat hi = (g + 1) * ?k"
    "word_of_usize (g * ?k) = Some lo" "word_of_usize ((g + 1) * ?k) = Some hi"
    using that [of "of_nat (g * ?k)" "of_nat ((g + 1) * ?k)"] unat_of_nat_u64 [of "g * ?k"] unat_of_nat_u64 [of "(g + 1) * ?k"]
    unfolding word_of_usize_Some by (simp add: usize_max_def)
  have muls: "checked_mul_usize g ?k = Some (g * ?k)" "checked_mul_usize (g + 1) ?k = Some ((g + 1) * ?k)"
    using max by (simp_all add: checked_mul_usize_def)
  have er: "stripe_erasures ?es lo hi = ?er"
    by (rule stripe_erasures_eq) (use rng ends in simp_all)
  obtain m rhs where sys: "group_system ?V par ?a ?k ?pc ?ss g ?er = (m, rhs)"
    by fastforce
  have run: "recover_group ?V par inp ?k ?pc ?ss g out =
      (if ?er = [] then Inr out else if length ?er > ?pc then Inl FecError.EcFailed else
       bindR (invert m) (\<lambda>m_inv. Inr (fold (\<lambda>(ci, ec) out. let out_start = (g * ?k + ec) * ?ss; out_end = out_start + ?ss in
         if out_end \<le> length out then copy_into out out_start (mat_vec_mul m_inv rhs ?ss ! ci) else out) (enumerate 0 ?er) out)))"
    unfolding recover_group_def muls ends(3,4) ok_or_Some bindR_Inr er Let_def sys by simp
  have sub: "set ?er \<subseteq> {..<?k}"
    using rng stripe_lost_less [of ?k _ ?es g] by auto
  have same: "blk ?ss ?a (g * ?k + i) = blk ?ss p (g * ?k + i)" if "i < ?k" "i \<notin> set ?er" for i
    using stripe_lost_iff [of ?k i ?es g] that rng assms(5) block_index_bound [OF assms(3) that(1)] by (simp add: intact_def)
  show ?thesis
  proof (cases "?er = []")
    case True
    have "slice out (i * ?ss) ?ss = blk ?ss (if i < Suc g * ?k then p else ?a) i" if "i < n * ?k" for i
      using out [OF that] same [of "i - g * ?k"] True by (auto split: if_splits)
    with True len show ?thesis
      by (simp add: run repaired_def)
  next
    case False
    show ?thesis
    proof (cases "length ?er \<le> ?pc")
      case many: False
      with False show ?thesis
        by (simp add: run)
    next
      case True
      note solve = solve_group [OF sub True _ _ par same sys]
      show ?thesis
      proof (cases "distinct ?er")
        case rep: False
        then show ?thesis
          using solve rng False True by (simp add: run)
      next
        case dist: True
        then obtain m_inv where inv: "invert m = Inr m_inv"
          "\<And>i. i < length ?er \<Longrightarrow> mat_vec_mul m_inv rhs ?ss ! i = blk ?ss p (g * ?k + ?er ! i)"
          using solve rng by auto
        let ?out = "fold (\<lambda>(ci, ec) out. let out_start = (g * ?k + ec) * ?ss; out_end = out_start + ?ss in
         if out_end \<le> length out then copy_into out out_start (mat_vec_mul m_inv rhs ?ss ! ci) else out) (enumerate 0 ?er) out"
        have w: "length ?out = n * ?k * ?ss" "\<And>i. i < n * ?k \<Longrightarrow> slice ?out (i * ?ss) ?ss =
            (if i \<in> (\<lambda>e. g * ?k + e) ` set ?er then blk ?ss p i else slice out (i * ?ss) ?ss)"
          using write_symbols [OF len assms(3) sub inv(2)] by blast+
        have "slice ?out (i * ?ss) ?ss = blk ?ss (if i < Suc g * ?k then p else ?a) i" if i: "i < n * ?k" for i
        proof (cases "i \<in> (\<lambda>e. g * ?k + e) ` set ?er")
          case True
          then have "i < Suc g * ?k"
            using sub by auto
          with True show ?thesis
            using w(2) [OF i] by simp
        next
          case False
          then have "i - g * ?k \<notin> set ?er" if "\<not> i < g * ?k"
            using that by (metis imageI le_add_diff_inverse not_less)
          with False show ?thesis
            using w(2) [OF i] out [OF i] same [of "i - g * ?k"] by (auto split: if_splits)
        qed
        with w(1) have "repaired ?k ?ss n (Suc g) p ?a ?out"
          by (simp add: repaired_def)
        then show ?thesis
          using dist True False inv(1) by (simp add: run)
      qed
    qed
  qed
qed

section \<open>Values\<close>

definition rs_layout :: "RsCodec \<Rightarrow> bytes \<Rightarrow> bytes \<Rightarrow> bytes" where
  "rs_layout c data par = [rc_k c, rc_parity_count c] @ le_bytes 4 (rc_symbol_size c) @
     le_bytes 8 (of_nat (length data) :: u64) @ le_bytes 4 (of_nat (rs_total c data) :: u32) @ par"

lemma rs_layout_parts:
  "length (rs_layout c data par) = RS_HEADER_SIZE + length par" "rs_layout c data par ! 0 = rc_k c"
  "rs_layout c data par ! 1 = rc_parity_count c" "slice (rs_layout c data par) 2 4 = le_bytes 4 (rc_symbol_size c)"
  "slice (rs_layout c data par) 6 8 = le_bytes 8 (of_nat (length data) :: u64)"
  "slice (rs_layout c data par) 14 4 = le_bytes 4 (of_nat (rs_total c data) :: u32)"
  "slice (rs_layout c data par) RS_HEADER_SIZE (length par) = par"
  by (simp_all add: rs_layout_def RS_HEADER_SIZE_def slice_def)

lemma rs_header:
  assumes "rs_ok c"
  shows "rs_parse_header (rs_layout c data par) =
    Inr (rc_k c, rc_parity_count c, rc_symbol_size c, of_nat (length data), of_nat (rs_total c data))"
proof -
  have "from_le (le_bytes 4 (rc_symbol_size c)) = rc_symbol_size c"
    "from_le (le_bytes 8 (of_nat (length data) :: u64)) = (of_nat (length data) :: u64)"
    "from_le (le_bytes 4 (of_nat (rs_total c data) :: u32)) = (of_nat (rs_total c data) :: u32)"
    by (simp_all add: from_le_le_bytes del: from_le.simps)
  then show ?thesis
    using assms by (simp add: rs_parse_header_def Let_def rs_layout_parts rs_ok_def del: One_nat_def)
qed

lemma rs_group_count:
  assumes "rs_ok c"
  shows "expected_group_count (of_nat (length data)) (rc_k c) (rc_symbol_size c) = Inr gc \<and> length data < 2 ^ 64 \<longleftrightarrow>
    length data + r_k c * r_ss c - 1 < 2 ^ 64 \<and> length data < 2 ^ 64 \<and> unat gc = rs_total c data"
  using expected_stripe_count_Inr [of "rc_k c" "rc_symbol_size c" "of_nat (length data)" gc] rs_sizes [OF assms]
  by (auto simp: expected_group_count_eq rs_total_def)

lemma rs_encode_exact:
  assumes "rs_ok c"
  shows "rs_encode_recovery c data = Inr v \<longleftrightarrow> rs_encodable c data \<and> fv_algo_id v = FEC_ALGO_REED_SOLOMON \<and>
    fv_data v = rs_layout c data (fold (\<lambda>g. write_parity (r_pc c) (r_ss c) g
      (map (group_parity (r_k c) (r_pc c) (r_ss c) data g) [0..<r_pc c]))
      [0..<rs_total c data] (replicate (rs_total c data * r_pc c * r_ss c) 0))"
proof -
  let ?k = "r_k c" and ?pc = "r_pc c" and ?ss = "r_ss c" and ?n = "rs_total c data"
  let ?blob = "\<lambda>n. fold (\<lambda>g. write_parity ?pc ?ss g (map (group_parity ?k ?pc ?ss data g) [0..<?pc]))
      [0..<n] (replicate (n * ?pc * ?ss) 0)"
  have enc: "encode_group (map (\<lambda>c. extract_symbol data g c ?k ?ss) [0..<?k]) ?k ?pc ?ss (build_vandermonde_rect ?k ?pc) =
      map (group_parity ?k ?pc ?ss data g) [0..<?pc]" for g
    by (rule nth_equalityI) (simp_all add: group_parity_def extract_symbol_eq encode_group_def)
  have mul: "Option.bind (checked_mul_usize n ?pc) (\<lambda>value. checked_mul_usize value ?ss) = Some (n * ?pc * ?ss)"
    if "n * ?pc * ?ss \<le> RS_MAX_PARITY_SIZE" for n
  proof -
    have "n * ?pc \<le> n * ?pc * ?ss"
      using rs_range [OF assms] by simp
    moreover have "RS_MAX_PARITY_SIZE \<le> usize_max"
      by (simp add: RS_MAX_PARITY_SIZE_def usize_max_def)
    ultimately have "n * ?pc \<le> usize_max" "n * ?pc * ?ss \<le> usize_max"
      using that by linarith+
    then show ?thesis
      by (simp add: checked_mul_usize_def)
  qed
  have "rs_encode_recovery c data = Inr v \<longleftrightarrow> (\<exists>w gc. word_of_usize (length data) = Some w \<and>
      expected_group_count w (rc_k c) (rc_symbol_size c) = Inr gc \<and> unat gc * ?pc * ?ss \<le> RS_MAX_PARITY_SIZE \<and>
      v = \<lparr> fv_algo_id = FEC_ALGO_REED_SOLOMON, fv_data = [rc_k c, rc_parity_count c] @ le_bytes 4 (rc_symbol_size c) @
         le_bytes 8 w @ le_bytes 4 gc @ ?blob (unat gc) \<rparr>)"
    unfolding rs_encode_recovery_def Let_def
    by (auto simp: bindR_eq_Inr parity_data_len_Inr mul enc RS_MAX_PARITY_SIZE_def not_less split: if_splits)
  also have "\<dots> \<longleftrightarrow> rs_encodable c data \<and> v = \<lparr> fv_algo_id = FEC_ALGO_REED_SOLOMON, fv_data = rs_layout c data (?blob ?n) \<rparr>"
  proof (intro iffI; (elim exE conjE)?)
    fix w gc assume w: "word_of_usize (length data) = Some (w :: u64)" and
      gc: "expected_group_count w (rc_k c) (rc_symbol_size c) = Inr gc" "unat gc * ?pc * ?ss \<le> RS_MAX_PARITY_SIZE" and
      v: "v = \<lparr> fv_algo_id = FEC_ALGO_REED_SOLOMON, fv_data = [rc_k c, rc_parity_count c] @ le_bytes 4 (rc_symbol_size c) @
         le_bytes 8 w @ le_bytes 4 gc @ ?blob (unat gc) \<rparr>"
    from w have len: "unat w = length data" "length data < 2 ^ 64"
      using unat_lt2p [of w] by (auto simp: word_of_usize_Some simp del: unat_u64_less)
    then have weq: "w = of_nat (length data)"
      by (simp flip: len(1))
    have n: "unat gc = ?n" "length data + ?k * ?ss - 1 < 2 ^ 64"
      using rs_group_count [OF assms, of data gc] gc(1) len(2) by (simp_all add: weq)
    then have geq: "gc = of_nat ?n"
      by (simp flip: n(1))
    have "?n < 2 ^ 32"
      using unat_lt2p [of gc] n(1) by (simp del: unat_u32_less)
    then show "rs_encodable c data \<and> v = \<lparr> fv_algo_id = FEC_ALGO_REED_SOLOMON, fv_data = rs_layout c data (?blob ?n) \<rparr>"
      using len n gc(2) v by (simp add: rs_encodable_def rs_layout_def weq) (simp add: geq)
  next
    assume e: "rs_encodable c data" and v: "v = \<lparr> fv_algo_id = FEC_ALGO_REED_SOLOMON, fv_data = rs_layout c data (?blob ?n) \<rparr>"
    then have u: "unat (of_nat ?n :: u32) = ?n" "word_of_usize (length data) = Some (of_nat (length data) :: u64)"
      by (simp_all add: rs_encodable_def)
    then have "expected_group_count (of_nat (length data)) (rc_k c) (rc_symbol_size c) = Inr (of_nat ?n)"
      using e rs_group_count [OF assms, of data "of_nat ?n"] by (simp add: rs_encodable_def)
    then show "\<exists>w gc. word_of_usize (length data) = Some w \<and>
      expected_group_count w (rc_k c) (rc_symbol_size c) = Inr gc \<and> unat gc * ?pc * ?ss \<le> RS_MAX_PARITY_SIZE \<and>
      v = \<lparr> fv_algo_id = FEC_ALGO_REED_SOLOMON, fv_data = [rc_k c, rc_parity_count c] @ le_bytes 4 (rc_symbol_size c) @
         le_bytes 8 w @ le_bytes 4 gc @ ?blob (unat gc) \<rparr>"
      using u e v by (intro exI [of _ "of_nat (length data)"] exI [of _ "of_nat ?n"]) (simp add: rs_encodable_def rs_layout_def)
  qed
  finally show ?thesis
    by (cases v) auto
qed

lemma rs_encode_Inr:
  assumes "rs_ok c" "rs_encode_recovery c data = Inr v"
  obtains par where "rs_encodable c data" "fv_data v = rs_layout c data par" "length par = rs_total c data * r_pc c * r_ss c"
    "\<And>g r. g < rs_total c data \<Longrightarrow> r < r_pc c \<Longrightarrow>
       extract_parity_symbol par g r (r_pc c) (r_ss c) = group_parity (r_k c) (r_pc c) (r_ss c) data g r"
proof -
  let ?par = "fold (\<lambda>g. write_parity (r_pc c) (r_ss c) g (map (group_parity (r_k c) (r_pc c) (r_ss c) data g) [0..<r_pc c]))
      [0..<rs_total c data] (replicate (rs_total c data * r_pc c * r_ss c) 0)"
  have "r_pc c \<le> 255" "r_k c \<le> 255"
    using rs_range [OF assms(1)] by simp_all
  note groups = encode_groups [OF this order_refl, where m = "rs_total c data" and ss = "r_ss c" and data = data]
  have "extract_parity_symbol ?par g r (r_pc c) (r_ss c) = group_parity (r_k c) (r_pc c) (r_ss c) data g r"
    if "g < rs_total c data" "r < r_pc c" for g r
    using groups that row_bound [OF block_index_bound [OF that], of "r_ss c"]
    by (simp add: extract_parity_symbol_def Let_def)
  with groups that [of ?par] assms(2) show ?thesis
    unfolding rs_encode_exact [OF assms(1)] by blast
qed

lemma rs_validates:
  assumes "rs_ok c" "rs_encodable c data" "length par = rs_total c data * r_pc c * r_ss c"
  shows "rs_validate c (rs_layout c data par) = Inr ()"
proof -
  have u: "unat (of_nat (rs_total c data) :: u32) = rs_total c data"
    using assms(2) by (simp add: rs_encodable_def)
  then have "expected_group_count (of_nat (length data)) (rc_k c) (rc_symbol_size c) = Inr (of_nat (rs_total c data))"
    using assms(2) rs_group_count [OF assms(1), of data "of_nat (rs_total c data)"] by (simp add: rs_encodable_def)
  moreover have "parity_data_len (of_nat (rs_total c data)) (rc_parity_count c) (rc_symbol_size c) = Inr (length par)"
    using assms(2,3) by (simp add: parity_data_len_Inr u rs_encodable_def RS_MAX_PARITY_SIZE_def)
  ultimately show ?thesis
    using assms unfolding rs_validate_def rs_header [OF assms(1)]
    by (simp add: rs_layout_parts checked_sub_usize_def rs_ok_def rs_encodable_def not_less)
qed

definition rs_within :: "RsCodec \<Rightarrow> Erasure list \<Rightarrow> bytes \<Rightarrow> bool" where
  "rs_within c es p \<longleftrightarrow> (\<forall>g < rs_total c p. distinct (stripe_lost (r_k c) es g) \<and> length (stripe_lost (r_k c) es g) \<le> r_pc c)"

definition rs_agree :: "RsCodec \<Rightarrow> Erasure list \<Rightarrow> bytes \<Rightarrow> bytes \<Rightarrow> bool" where
  "rs_agree c es a p \<longleftrightarrow> intact (r_ss c) (rs_total c p * r_k c) es a p"

lemma rs_recover_encoded:
  assumes "rs_ok c" "rs_encode_recovery c p = Inr v" "rs_agree c es a p"
  shows "rs_recover c \<lparr> ri_original_protected_len = of_nat (length p), ri_available_data = a,
      ri_fec_value_data = fv_data v, ri_erasures = es \<rparr> =
    (if rs_within c es p then Inr p else Inl FecError.EcFailed)"
proof -
  let ?k = "r_k c" and ?pc = "r_pc c" and ?ss = "r_ss c" and ?n = "rs_total c p"
  let ?V = "build_vandermonde_rect ?k ?pc"
  let ?inp = "\<lparr> ri_original_protected_len = of_nat (length p), ri_available_data = a,
      ri_fec_value_data = fv_data v, ri_erasures = es \<rparr>"
  note rng = rs_range [OF assms(1)]
  obtain par where e: "rs_encodable c p" and par: "fv_data v = rs_layout c p par" "length par = ?n * ?pc * ?ss"
    "\<And>g r. g < ?n \<Longrightarrow> r < ?pc \<Longrightarrow> extract_parity_symbol par g r ?pc ?ss = group_parity ?k ?pc ?ss p g r"
    using rs_encode_Inr [OF assms(1,2)] by metis
  then have u: "unat (of_nat (length p) :: u64) = length p" "unat (of_nat ?n :: u32) = ?n"
    by (simp_all add: rs_encodable_def)
  note bound = rs_total_bound [OF assms(1) e]
  have "?n * ?k \<le> ?n * ?k * ?ss"
    using rng by simp
  also note bound(2)
  finally have mul: "checked_mul_usize ?n ?k = Some (?n * ?k)" "checked_mul_usize (?n * ?k) ?ss = Some (?n * ?k * ?ss)"
    using bound(2) by (simp_all only: checked_mul_usize_Some)
  have plen: "parity_data_len (of_nat ?n) (rc_parity_count c) (rc_symbol_size c) = Inr (length par)"
    using e par(2) by (simp add: parity_data_len_Inr u rs_encodable_def RS_MAX_PARITY_SIZE_def)
  let ?out = "copy_into (replicate (?n * ?k * ?ss) 0) 0 (take (min (?n * ?k * ?ss) (length a)) a)"
  have run: "rs_recover c ?inp =
      bindR (foldR (recover_group ?V par ?inp ?k ?pc ?ss) [0..<?n] ?out) (\<lambda>out. Inr (take (length p) out))"
    unfolding rs_recover_def Let_def
    by (simp add: par(1) rs_header [OF assms(1)] rs_validates [OF assms(1) e par(2)] u mul plen rs_layout_parts(7))
  have inp: "ri_erasures ?inp = es" "ri_available_data ?inp = a" "intact ?ss (?n * ?k) es a p"
    using assms(3) by (simp_all add: rs_agree_def)
  have start: "repaired ?k ?ss ?n 0 p a ?out"
    using initial_blocks by (auto simp: repaired_def copy_into_def min_def)
  have rows: "if \<forall>s < ?n. distinct (stripe_lost ?k es s) \<and> length (stripe_lost ?k es s) \<le> ?pc
    then \<exists>out'. foldR (recover_group ?V par ?inp ?k ?pc ?ss) [0..<?n] ?out = Inr out' \<and> repaired ?k ?ss ?n ?n p a out'
    else foldR (recover_group ?V par ?inp ?k ?pc ?ss) [0..<?n] ?out = Inl FecError.EcFailed"
  proof (rule repair_rows [OF _ start order_refl])
    fix g out assume "g < ?n" "repaired ?k ?ss ?n g p a out"
    then show "if distinct (stripe_lost ?k es g) \<and> length (stripe_lost ?k es g) \<le> ?pc
      then \<exists>out'. recover_group ?V par ?inp ?k ?pc ?ss g out = Inr out' \<and> repaired ?k ?ss ?n (Suc g) p a out'
      else recover_group ?V par ?inp ?k ?pc ?ss g out = Inl FecError.EcFailed"
      using recover_group_repairs [OF assms(1) bound(2) _ par(3), of g ?inp out] inp(3) by (simp cong: if_cong)
  qed
  show ?thesis
  proof (cases "rs_within c es p")
    case True
    with rows obtain out where "foldR (recover_group ?V par ?inp ?k ?pc ?ss) [0..<?n] ?out = Inr out"
      "repaired ?k ?ss ?n ?n p a out"
      by (auto simp: rs_within_def)
    with True show ?thesis
      using padded_take [OF _ bound(1), of out] by (simp add: run repaired_def)
  next
    case False
    then show ?thesis
      using rows by (auto simp: rs_within_def run)
  qed
qed

section \<open>The interface, and the property of the code\<close>

definition rs_fec_encode :: "u8 \<Rightarrow> u8 \<Rightarrow> u32 \<Rightarrow> bytes \<Rightarrow> FecError + bytes" where
  "rs_fec_encode k pc ss p =
     bindR (RsCodec_new k pc ss) (\<lambda>c. bindR (rs_encode_recovery c p) (\<lambda>v. Inr (fv_data v)))"

definition rs_fec_recover :: "bytes \<Rightarrow> nat \<Rightarrow> bytes \<Rightarrow> Erasure list \<Rightarrow> FecError + bytes" where
  "rs_fec_recover v n a es = bindR (RsCodec_from_fec_value v) (\<lambda>c.
     rs_recover c \<lparr> ri_original_protected_len = of_nat n, ri_available_data = a,
       ri_fec_value_data = v, ri_erasures = es \<rparr>)"

definition rs_config :: "u8 \<Rightarrow> u8 \<Rightarrow> u32 \<Rightarrow> RsCodec" where
  "rs_config k pc ss = \<lparr> rc_k = k, rc_parity_count = pc, rc_symbol_size = ss \<rparr>"

lemma RsCodec_from_layout: "rs_ok c \<Longrightarrow> RsCodec_from_fec_value (rs_layout c data par) = Inr c"
proof -
  assume ok: "rs_ok c"
  have "from_le (le_bytes 4 (rc_symbol_size c)) = rc_symbol_size c"
    by (simp add: from_le_le_bytes del: from_le.simps)
  moreover have "RsCodec_new (rc_k c) (rc_parity_count c) (rc_symbol_size c) = Inr c"
    using ok by (simp add: RsCodec_new_Inr)
  ultimately show ?thesis
    by (simp add: RsCodec_from_fec_value_def rs_layout_parts RS_HEADER_SIZE_def del: One_nat_def)
qed

lemma rs_fec_encode_Inr:
  assumes "rs_fec_encode k pc ss p = Inr d"
  obtains v where "rs_ok (rs_config k pc ss)" "rs_encode_recovery (rs_config k pc ss) p = Inr v" "fv_data v = d"
    "RsCodec_from_fec_value d = Inr (rs_config k pc ss)"
proof -
  from assms obtain c v where c: "RsCodec_new k pc ss = Inr c" "rs_encode_recovery c p = Inr v" "fv_data v = d"
    by (auto simp: rs_fec_encode_def bindR_eq_Inr)
  then have ok: "rs_ok c" "c = rs_config k pc ss"
    by (auto simp: RsCodec_new_Inr rs_config_def)
  obtain par where "d = rs_layout c p par"
    using rs_encode_Inr [OF ok(1) c(2)] c(3) by metis
  then have "RsCodec_from_fec_value d = Inr c"
    using RsCodec_from_layout [OF ok(1)] by simp
  with c ok that [of v] show ?thesis
    by simp
qed

interpretation rs: erasure_codec "rs_fec_encode k pc ss" rs_fec_recover "rs_agree (rs_config k pc ss)"
  "rs_within (rs_config k pc ss)" for k pc ss
proof
  fix p d es a
  assume "rs_fec_encode k pc ss p = Inr d" "rs_agree (rs_config k pc ss) es a p"
  then show "rs_fec_recover d (length p) a es =
      (if rs_within (rs_config k pc ss) es p then Inr p else Inl FecError.EcFailed)"
    by (elim rs_fec_encode_Inr) (simp add: rs_fec_recover_def rs_recover_encoded [symmetric])
qed (simp_all add: rs_agree_def intact_def rs_within_def)

text \<open>
  (C7) The Reed-Solomon code does what an erasure code promises.  Encoding succeeds exactly when the
  parity fits its limits; the encoded value passes \<^verbatim>\<open>validate\<close>; and from any damaged copy that agrees
  with the protected bytes outside the listed erasures, \<^verbatim>\<open>recover\<close> returns the protected bytes when no
  group has more than \<^verbatim>\<open>parity_count\<close> erasures or one listed twice, and \<^verbatim>\<open>EcFailed\<close> otherwise.  The
  theorem rests on the field of 256 elements, the elimination of \<^verbatim>\<open>invert\<close> and the regularity of the
  Vandermonde systems.
\<close>

theorem rs_recover_exact:
  assumes "RsCodec_new k pc ss = Inr c"
  shows "((\<exists>v. rs_encode_recovery c p = Inr v) \<longleftrightarrow> rs_encodable c p) \<and>
    (\<forall>v. rs_encode_recovery c p = Inr v \<longrightarrow> validate_rs_fec_value (fv_data v) = Inr () \<and>
      (\<forall>es a. rs_agree c es a p \<longrightarrow>
        rs_recover c \<lparr> ri_original_protected_len = of_nat (length p), ri_available_data = a,
          ri_fec_value_data = fv_data v, ri_erasures = es \<rparr> =
        (if rs_within c es p then Inr p else Inl FecError.EcFailed)))"
proof -
  from assms have ok: "rs_ok c"
    by (simp add: RsCodec_new_Inr)
  have "validate_rs_fec_value (fv_data v) = Inr ()" if "rs_encode_recovery c p = Inr v" for v
    by (rule rs_encode_Inr [OF ok that]) (simp add: validate_rs_fec_value_def RsCodec_from_layout [OF ok] rs_validates [OF ok])
  moreover have "\<exists>v. rs_encode_recovery c p = Inr v" if "rs_encodable c p"
    unfolding rs_encode_exact [OF ok] by (intro exI [of _ "\<lparr> fv_algo_id = _, fv_data = _ \<rparr>"]) (simp add: that)
  moreover have "rs_encodable c p" if "rs_encode_recovery c p = Inr v" for v
    using that by (simp add: rs_encode_exact [OF ok])
  ultimately show ?thesis
    using rs_recover_encoded [OF ok] by blast
qed

lemma rs_recover_exact_witness:
  "\<exists>v. rs_encode_recovery \<lparr> rc_k = 2, rc_parity_count = 1, rc_symbol_size = 1 \<rparr> [5, 7] = Inr v \<and>
     rs_recover \<lparr> rc_k = 2, rc_parity_count = 1, rc_symbol_size = 1 \<rparr>
       \<lparr> ri_original_protected_len = 2, ri_available_data = [0, 7], ri_fec_value_data = fv_data v,
         ri_erasures = [\<lparr> er_index = 0 \<rparr>] \<rparr> = Inr [5, 7]"
proof -
  let ?c = "\<lparr> rc_k = 2, rc_parity_count = 1, rc_symbol_size = 1 \<rparr>"
  have c: "RsCodec_new 2 1 1 = Inr ?c"
    by (simp add: RsCodec_new_def MAX_PARITY_COUNT_def)
  have total: "rs_total ?c [5, 7] = 1"
    by (simp add: rs_total_def stripes_def)
  have "blk 1 [0, 7] 1 = blk 1 [5, 7 :: u8] 1"
    by (simp add: blk_def slice_def)
  then have "rs_agree ?c [\<lparr> er_index = 0 \<rparr>] [0, 7] [5, 7]" "rs_within ?c [\<lparr> er_index = 0 \<rparr>] [5, 7]" "rs_encodable ?c [5, 7]"
    by (auto simp: rs_agree_def intact_def total rs_within_def stripe_lost_def rs_encodable_def RS_MAX_PARITY_SIZE_def
        less_2_cases_iff)
  then show ?thesis
    using rs_recover_exact [OF c, of "[5, 7]"] by auto
qed

end
