(* ===== verification/Sar_Error.thy ===== *)
theory Sar_Error
  imports Sar_Prelude
begin

text \<open>
  The status registry and the error type of \<^verbatim>\<open>sar-core/src/error.rs\<close>.  The constructors
  are those of the source (\<open>StatusOk\<close> is \<^verbatim>\<open>SarStatus::Ok\<close>); the static diagnostic text that
  most error constructors carry is for display only, no code branches on it, and it is left
  out of the model here and in the other crates' error types.
\<close>

section \<open>Status registry\<close>

datatype (plugins only: code size) SarStatus =
  StatusOk
| ErrGeneric
| ErrNotFound
| ErrInvalidMagic
| ErrIo
| ErrCrcMismatch
| ErrAuthFailed
| ErrMalloc
| ErrUnsupported
| ErrFlagConflict
| ErrPatchFailed
| ErrBaseMissing
| ErrInvalidMap
| ErrNoSpace
| ErrPartitionMissing
| ErrFragmentGap
| ErrReassemblyBufferFull
| ErrPartitionMismatch
| ErrFragmentTimeout
| WarnIncomplete
| ErrRecipeUnresolvable
| ErrCdcMismatch
| ErrEcFailed
| ErrTruncated
| ErrMalformed
| ErrBounds
| ErrReservedValue
| ErrOverflow
| ErrLimitExceeded
| ErrInvalidAlignment
| ErrInvalidLength
| ErrChecksumMismatch
| ErrHashMismatch
| ErrDecryptFailed
| ErrSignatureFailed
| ErrAnchorHashFailed
| ErrInvalidVersion
| ErrKeyMissing
| ErrKeyRejected
| ErrStreamClosed
| ErrStreamState
| ErrMetadataMissing
| ErrMetadataConflict
| ErrRecoveryUnavailable
| ErrRecoveryCorrupted
| ErrCompressionFailed
| ErrDecompressionFailed
| ErrWriteProtected
| ErrAlreadyExists
| ErrCancelled
| ErrTimeout
| ErrInternal
| ErrNonceReuse
| ErrTooManyStreams

primrec SarStatus_code :: "SarStatus \<Rightarrow> int" where
  "SarStatus_code StatusOk = 0"
| "SarStatus_code ErrGeneric = - 1"
| "SarStatus_code ErrNotFound = 1"
| "SarStatus_code ErrInvalidMagic = 2"
| "SarStatus_code ErrIo = 3"
| "SarStatus_code ErrCrcMismatch = 4"
| "SarStatus_code ErrAuthFailed = 5"
| "SarStatus_code ErrMalloc = 6"
| "SarStatus_code ErrUnsupported = 7"
| "SarStatus_code ErrFlagConflict = 8"
| "SarStatus_code ErrPatchFailed = 9"
| "SarStatus_code ErrBaseMissing = 10"
| "SarStatus_code ErrInvalidMap = 11"
| "SarStatus_code ErrNoSpace = 12"
| "SarStatus_code ErrPartitionMissing = 13"
| "SarStatus_code ErrFragmentGap = 14"
| "SarStatus_code ErrReassemblyBufferFull = 15"
| "SarStatus_code ErrPartitionMismatch = 16"
| "SarStatus_code ErrFragmentTimeout = 17"
| "SarStatus_code WarnIncomplete = 18"
| "SarStatus_code ErrRecipeUnresolvable = 19"
| "SarStatus_code ErrCdcMismatch = 20"
| "SarStatus_code ErrEcFailed = 21"
| "SarStatus_code ErrTruncated = 22"
| "SarStatus_code ErrMalformed = 23"
| "SarStatus_code ErrBounds = 24"
| "SarStatus_code ErrReservedValue = 25"
| "SarStatus_code ErrOverflow = 26"
| "SarStatus_code ErrLimitExceeded = 27"
| "SarStatus_code ErrInvalidAlignment = 28"
| "SarStatus_code ErrInvalidLength = 29"
| "SarStatus_code ErrChecksumMismatch = 30"
| "SarStatus_code ErrHashMismatch = 31"
| "SarStatus_code ErrDecryptFailed = 32"
| "SarStatus_code ErrSignatureFailed = 33"
| "SarStatus_code ErrAnchorHashFailed = 34"
| "SarStatus_code ErrInvalidVersion = 35"
| "SarStatus_code ErrKeyMissing = 36"
| "SarStatus_code ErrKeyRejected = 37"
| "SarStatus_code ErrStreamClosed = 38"
| "SarStatus_code ErrStreamState = 39"
| "SarStatus_code ErrMetadataMissing = 40"
| "SarStatus_code ErrMetadataConflict = 41"
| "SarStatus_code ErrRecoveryUnavailable = 42"
| "SarStatus_code ErrRecoveryCorrupted = 43"
| "SarStatus_code ErrCompressionFailed = 44"
| "SarStatus_code ErrDecompressionFailed = 45"
| "SarStatus_code ErrWriteProtected = 46"
| "SarStatus_code ErrAlreadyExists = 47"
| "SarStatus_code ErrCancelled = 48"
| "SarStatus_code ErrTimeout = 49"
| "SarStatus_code ErrInternal = 50"
| "SarStatus_code ErrNonceReuse = 51"
| "SarStatus_code ErrTooManyStreams = 52"

definition SarStatus_try_from :: "int \<Rightarrow> int + SarStatus" where
  "SarStatus_try_from value = (
     if value = - 1 then Inr ErrGeneric
     else if value = 0 then Inr StatusOk
     else if value = 1 then Inr ErrNotFound
     else if value = 2 then Inr ErrInvalidMagic
     else if value = 3 then Inr ErrIo
     else if value = 4 then Inr ErrCrcMismatch
     else if value = 5 then Inr ErrAuthFailed
     else if value = 6 then Inr ErrMalloc
     else if value = 7 then Inr ErrUnsupported
     else if value = 8 then Inr ErrFlagConflict
     else if value = 9 then Inr ErrPatchFailed
     else if value = 10 then Inr ErrBaseMissing
     else if value = 11 then Inr ErrInvalidMap
     else if value = 12 then Inr ErrNoSpace
     else if value = 13 then Inr ErrPartitionMissing
     else if value = 14 then Inr ErrFragmentGap
     else if value = 15 then Inr ErrReassemblyBufferFull
     else if value = 16 then Inr ErrPartitionMismatch
     else if value = 17 then Inr ErrFragmentTimeout
     else if value = 18 then Inr WarnIncomplete
     else if value = 19 then Inr ErrRecipeUnresolvable
     else if value = 20 then Inr ErrCdcMismatch
     else if value = 21 then Inr ErrEcFailed
     else if value = 22 then Inr ErrTruncated
     else if value = 23 then Inr ErrMalformed
     else if value = 24 then Inr ErrBounds
     else if value = 25 then Inr ErrReservedValue
     else if value = 26 then Inr ErrOverflow
     else if value = 27 then Inr ErrLimitExceeded
     else if value = 28 then Inr ErrInvalidAlignment
     else if value = 29 then Inr ErrInvalidLength
     else if value = 30 then Inr ErrChecksumMismatch
     else if value = 31 then Inr ErrHashMismatch
     else if value = 32 then Inr ErrDecryptFailed
     else if value = 33 then Inr ErrSignatureFailed
     else if value = 34 then Inr ErrAnchorHashFailed
     else if value = 35 then Inr ErrInvalidVersion
     else if value = 36 then Inr ErrKeyMissing
     else if value = 37 then Inr ErrKeyRejected
     else if value = 38 then Inr ErrStreamClosed
     else if value = 39 then Inr ErrStreamState
     else if value = 40 then Inr ErrMetadataMissing
     else if value = 41 then Inr ErrMetadataConflict
     else if value = 42 then Inr ErrRecoveryUnavailable
     else if value = 43 then Inr ErrRecoveryCorrupted
     else if value = 44 then Inr ErrCompressionFailed
     else if value = 45 then Inr ErrDecompressionFailed
     else if value = 46 then Inr ErrWriteProtected
     else if value = 47 then Inr ErrAlreadyExists
     else if value = 48 then Inr ErrCancelled
     else if value = 49 then Inr ErrTimeout
     else if value = 50 then Inr ErrInternal
     else if value = 51 then Inr ErrNonceReuse
     else if value = 52 then Inr ErrTooManyStreams
     else Inl value)"

section \<open>Errors\<close>

datatype (plugins only: code size) SarError =
  Generic
| NotFound
| InvalidMagic
| Io
| CrcMismatch
| AuthFailed
| Malloc
| Unsupported
| FlagConflict
| PatchFailed
| BaseMissing
| InvalidMap
| NoSpace
| PartitionMissing
| FragmentGap
| ReassemblyBufferFull
| PartitionMismatch
| FragmentTimeout
| RecipeUnresolvable
| CdcMismatch
| EcFailed
| Truncated
| Malformed
| Bounds
| ReservedValue
| Overflow
| LimitExceeded
| InvalidAlignment
| InvalidLength
| ChecksumMismatch
| HashMismatch
| DecryptFailed
| SignatureFailed
| AnchorHashFailed
| InvalidVersion
| KeyMissing
| KeyRejected
| StreamClosed
| StreamState
| MetadataMissing
| MetadataConflict
| RecoveryUnavailable
| RecoveryCorrupted
| CompressionFailed
| DecompressionFailed
| WriteProtected
| AlreadyExists
| Cancelled
| Timeout
| Internal
| NonceReuse
| TooManyStreams

primrec SarError_status :: "SarError \<Rightarrow> SarStatus" where
  "SarError_status Generic = ErrGeneric"
| "SarError_status NotFound = ErrNotFound"
| "SarError_status InvalidMagic = ErrInvalidMagic"
| "SarError_status Io = ErrIo"
| "SarError_status CrcMismatch = ErrCrcMismatch"
| "SarError_status AuthFailed = ErrAuthFailed"
| "SarError_status Malloc = ErrMalloc"
| "SarError_status Unsupported = ErrUnsupported"
| "SarError_status FlagConflict = ErrFlagConflict"
| "SarError_status PatchFailed = ErrPatchFailed"
| "SarError_status BaseMissing = ErrBaseMissing"
| "SarError_status InvalidMap = ErrInvalidMap"
| "SarError_status NoSpace = ErrNoSpace"
| "SarError_status PartitionMissing = ErrPartitionMissing"
| "SarError_status FragmentGap = ErrFragmentGap"
| "SarError_status ReassemblyBufferFull = ErrReassemblyBufferFull"
| "SarError_status PartitionMismatch = ErrPartitionMismatch"
| "SarError_status FragmentTimeout = ErrFragmentTimeout"
| "SarError_status RecipeUnresolvable = ErrRecipeUnresolvable"
| "SarError_status CdcMismatch = ErrCdcMismatch"
| "SarError_status EcFailed = ErrEcFailed"
| "SarError_status Truncated = ErrTruncated"
| "SarError_status Malformed = ErrMalformed"
| "SarError_status Bounds = ErrBounds"
| "SarError_status ReservedValue = ErrReservedValue"
| "SarError_status Overflow = ErrOverflow"
| "SarError_status LimitExceeded = ErrLimitExceeded"
| "SarError_status InvalidAlignment = ErrInvalidAlignment"
| "SarError_status InvalidLength = ErrInvalidLength"
| "SarError_status ChecksumMismatch = ErrChecksumMismatch"
| "SarError_status HashMismatch = ErrHashMismatch"
| "SarError_status DecryptFailed = ErrDecryptFailed"
| "SarError_status SignatureFailed = ErrSignatureFailed"
| "SarError_status AnchorHashFailed = ErrAnchorHashFailed"
| "SarError_status InvalidVersion = ErrInvalidVersion"
| "SarError_status KeyMissing = ErrKeyMissing"
| "SarError_status KeyRejected = ErrKeyRejected"
| "SarError_status StreamClosed = ErrStreamClosed"
| "SarError_status StreamState = ErrStreamState"
| "SarError_status MetadataMissing = ErrMetadataMissing"
| "SarError_status MetadataConflict = ErrMetadataConflict"
| "SarError_status RecoveryUnavailable = ErrRecoveryUnavailable"
| "SarError_status RecoveryCorrupted = ErrRecoveryCorrupted"
| "SarError_status CompressionFailed = ErrCompressionFailed"
| "SarError_status DecompressionFailed = ErrDecompressionFailed"
| "SarError_status WriteProtected = ErrWriteProtected"
| "SarError_status AlreadyExists = ErrAlreadyExists"
| "SarError_status Cancelled = ErrCancelled"
| "SarError_status Timeout = ErrTimeout"
| "SarError_status Internal = ErrInternal"
| "SarError_status NonceReuse = ErrNonceReuse"
| "SarError_status TooManyStreams = ErrTooManyStreams"

section \<open>Properties of the registry\<close>

lemma SarStatus_try_from_code [simp]: "SarStatus_try_from (SarStatus_code s) = Inr s"
  by (cases s) (simp_all add: SarStatus_try_from_def)

lemma SarStatus_try_from_sound: "SarStatus_try_from v = Inr s \<Longrightarrow> SarStatus_code s = v"
  unfolding SarStatus_try_from_def by (simp split: if_splits)

lemma SarStatus_code_range: "- 1 \<le> SarStatus_code s \<and> SarStatus_code s \<le> 52"
  by (cases s) simp_all

lemma SarError_status_not_success:
  "SarError_status e \<noteq> StatusOk \<and> SarError_status e \<noteq> WarnIncomplete"
  by (cases e) simp_all

text \<open>
  The status registry is a bijection between status values and their wire codes: a code is
  decoded exactly when it is the code of some status, every other value is reported back
  unchanged, and no error is ever reported as success or as a warning.
\<close>

lemma status_registry_exact:
  "(SarStatus_try_from v = Inr s \<longleftrightarrow> SarStatus_code s = v) \<and>
   (SarStatus_try_from v = Inl w \<longleftrightarrow> w = v \<and> v \<notin> range SarStatus_code) \<and>
   SarError_status e \<notin> {StatusOk, WarnIncomplete}"
proof -
  have 1: "SarStatus_try_from v = Inr s \<longleftrightarrow> SarStatus_code s = v" for s
    using SarStatus_try_from_code SarStatus_try_from_sound by blast
  have "SarStatus_try_from v = Inl u \<Longrightarrow> u = v" for u
    unfolding SarStatus_try_from_def by (simp split: if_splits)
  with 1 have "SarStatus_try_from v = Inl w \<longleftrightarrow> w = v \<and> v \<notin> range SarStatus_code"
    by (metis (no_types, lifting) Inl_Inr_False imageE rangeI sum.exhaust)
  then show ?thesis
    using 1 SarError_status_not_success by simp
qed

end
