(* ===== verification/Sar_Io.thy ===== *)
theory Sar_Io
  imports Sar_Error
begin

text \<open>
  The checked parser cursor and the binary writer of \<^verbatim>\<open>sar-core/src/io.rs\<close>.  A cursor is the
  input slice with a position; every read returns the value and the advanced cursor, or the
  error the code returns.  The contract of a fixed-width field (what a read returns on an
  encoded value, and what a successful read says about the bytes) is the locale
  \<open>field_codec\<close>, interpreted on each reader below; the parsers of the other theories are
  proved through its step and elimination rules.
\<close>

section \<open>Cursor and writer\<close>

record ParseCursor =
  cur_input :: bytes
  cur_pos :: nat

definition cursor_new :: "bytes \<Rightarrow> ParseCursor" where
  "cursor_new bs = \<lparr> cur_input = bs, cur_pos = 0 \<rparr>"

definition position :: "ParseCursor \<Rightarrow> nat" where
  "position c = cur_pos c"

definition remaining :: "ParseCursor \<Rightarrow> nat" where
  "remaining c = length (cur_input c) - cur_pos c"

definition read_bytes :: "ParseCursor \<Rightarrow> nat \<Rightarrow> SarError + (bytes \<times> ParseCursor)" where
  "read_bytes c len =
     bindR (ok_or (checked_add_usize (cur_pos c) len) SarError.Overflow) (\<lambda>end.
       if end > length (cur_input c) then Inl SarError.Truncated
       else Inr (take len (drop (cur_pos c) (cur_input c)), c\<lparr> cur_pos := end \<rparr>))"

definition read_u8 :: "ParseCursor \<Rightarrow> SarError + (u8 \<times> ParseCursor)" where
  "read_u8 c = bindR (read_bytes c 1) (\<lambda>(bs, c). Inr (from_le bs, c))"

definition read_u16_le :: "ParseCursor \<Rightarrow> SarError + (u16 \<times> ParseCursor)" where
  "read_u16_le c = bindR (read_bytes c 2) (\<lambda>(bs, c). Inr (from_le bs, c))"

definition read_u24_le :: "ParseCursor \<Rightarrow> SarError + (u32 \<times> ParseCursor)" where
  "read_u24_le c = bindR (read_bytes c 3) (\<lambda>(bs, c). Inr (from_le (bs @ [0]), c))"

definition read_u32_le :: "ParseCursor \<Rightarrow> SarError + (u32 \<times> ParseCursor)" where
  "read_u32_le c = bindR (read_bytes c 4) (\<lambda>(bs, c). Inr (from_le bs, c))"

definition read_u64_le :: "ParseCursor \<Rightarrow> SarError + (u64 \<times> ParseCursor)" where
  "read_u64_le c = bindR (read_bytes c 8) (\<lambda>(bs, c). Inr (from_le bs, c))"

record BinaryWriter =
  wr_buf :: bytes

definition writer_new :: BinaryWriter where
  "writer_new = \<lparr> wr_buf = [] \<rparr>"

definition write_bytes :: "BinaryWriter \<Rightarrow> bytes \<Rightarrow> BinaryWriter" where
  "write_bytes w bs = w\<lparr> wr_buf := wr_buf w @ bs \<rparr>"

definition write_u8 :: "BinaryWriter \<Rightarrow> u8 \<Rightarrow> BinaryWriter" where
  "write_u8 w v = w\<lparr> wr_buf := wr_buf w @ [v] \<rparr>"

definition write_u16_le :: "BinaryWriter \<Rightarrow> u16 \<Rightarrow> BinaryWriter" where
  "write_u16_le w v = w\<lparr> wr_buf := wr_buf w @ le_bytes 2 v \<rparr>"

definition write_u24_le :: "BinaryWriter \<Rightarrow> u32 \<Rightarrow> SarError + BinaryWriter" where
  "write_u24_le w v =
     (if v > 0x00FFFFFF then Inl SarError.InvalidLength
      else Inr (w\<lparr> wr_buf := wr_buf w @ take 3 (le_bytes 4 v) \<rparr>))"

definition write_u32_le :: "BinaryWriter \<Rightarrow> u32 \<Rightarrow> BinaryWriter" where
  "write_u32_le w v = w\<lparr> wr_buf := wr_buf w @ le_bytes 4 v \<rparr>"

definition write_u64_le :: "BinaryWriter \<Rightarrow> u64 \<Rightarrow> BinaryWriter" where
  "write_u64_le w v = w\<lparr> wr_buf := wr_buf w @ le_bytes 8 v \<rparr>"

definition into_inner :: "BinaryWriter \<Rightarrow> bytes" where
  "into_inner w = wr_buf w"

named_theorems writer_simps "what each write appends"

lemma buf_writer_new [writer_simps]: "wr_buf writer_new = []"
  by (simp add: writer_new_def)

lemma buf_write_bytes [writer_simps]: "wr_buf (write_bytes w bs) = wr_buf w @ bs"
  by (simp add: write_bytes_def)

text \<open>The encoding of a single byte, kept folded so that field encodings stay recognisable.\<close>

definition byte :: "u8 \<Rightarrow> bytes" where
  "byte v = [v]"

lemma length_byte [simp]: "length (byte v) = 1"
  by (simp add: byte_def)

lemma byte_neq_Nil [simp]: "byte v \<noteq> []"
  by (simp add: byte_def)

lemma buf_write_u8 [writer_simps]: "wr_buf (write_u8 w v) = wr_buf w @ byte v"
  by (simp add: write_u8_def byte_def)

lemma buf_write_u16_le [writer_simps]: "wr_buf (write_u16_le w v) = wr_buf w @ le_bytes 2 v"
  by (simp add: write_u16_le_def)

lemma buf_write_u32_le [writer_simps]: "wr_buf (write_u32_le w v) = wr_buf w @ le_bytes 4 v"
  by (simp add: write_u32_le_def)

lemma buf_write_u64_le [writer_simps]: "wr_buf (write_u64_le w v) = wr_buf w @ le_bytes 8 v"
  by (simp add: write_u64_le_def)

lemma take_le_bytes: "k \<le> n \<Longrightarrow> take k (le_bytes n w) = le_bytes k w"
proof (induction k arbitrary: n w)
  case (Suc k)
  then show ?case
    by (cases n) simp_all
qed simp

lemma write_u24_le_eq [writer_simps]:
  "write_u24_le w v = Inr w' \<longleftrightarrow> v \<le> 0x00FFFFFF \<and> w' = write_bytes w (le_bytes 3 v)"
  by (auto simp: write_u24_le_def write_bytes_def take_le_bytes not_le)

lemma into_inner_buf [writer_simps]: "into_inner w = wr_buf w"
  by (simp add: into_inner_def)

section \<open>The remaining input\<close>

text \<open>
  \<open>rest_of c\<close> is the unread input; \<open>cursor_ok\<close> is the invariant that the position lies in the
  input and that the input is a slice (a Rust slice is never longer than \<^verbatim>\<open>isize::MAX\<close>).
\<close>

definition rest_of :: "ParseCursor \<Rightarrow> bytes" where
  "rest_of c = drop (cur_pos c) (cur_input c)"

definition cursor_ok :: "ParseCursor \<Rightarrow> bool" where
  "cursor_ok c \<longleftrightarrow> cur_pos c \<le> length (cur_input c) \<and> length (cur_input c) \<le> isize_max"

definition advance :: "nat \<Rightarrow> ParseCursor \<Rightarrow> ParseCursor" where
  "advance n c = c\<lparr> cur_pos := cur_pos c + n \<rparr>"

definition in_range :: "ParseCursor \<Rightarrow> bool" where
  "in_range c \<longleftrightarrow> cur_pos c \<le> length (cur_input c)"

lemma in_range_new [simp]: "in_range (cursor_new bs)"
  by (simp add: in_range_def cursor_new_def)

lemma cursor_ok_in_range [simp]: "cursor_ok c \<Longrightarrow> in_range c"
  by (simp add: cursor_ok_def in_range_def)

lemma pos_advance [simp]: "cur_pos (advance n c) = cur_pos c + n"
  by (simp add: advance_def)

lemma input_advance [simp]: "cur_input (advance n c) = cur_input c"
  by (simp add: advance_def)

lemma position_advance [simp]: "position (advance n c) = position c + n"
  by (simp add: position_def)

lemma advance_0 [simp]: "advance 0 c = c"
  by (simp add: advance_def)

lemma advance_advance [simp]: "advance m (advance n c) = advance (n + m) c"
  by (simp add: advance_def add.assoc)

lemma rest_of_advance: "rest_of (advance n c) = drop n (rest_of c)"
  by (simp add: rest_of_def add.commute)

lemma length_rest_of: "length (rest_of c) = remaining c"
  by (simp add: rest_of_def remaining_def)

lemma remaining_advance [simp]: "remaining (advance n c) = remaining c - n"
  by (simp add: remaining_def)

lemma cursor_ok_advance [simp]:
  "cursor_ok c \<Longrightarrow> cursor_ok (advance n c) \<longleftrightarrow> n \<le> length (rest_of c)"
  by (auto simp: cursor_ok_def rest_of_def)

lemma rest_of_new [simp]: "rest_of (cursor_new bs) = bs"
  by (simp add: rest_of_def cursor_new_def)

lemma position_new [simp]: "position (cursor_new bs) = 0"
  by (simp add: position_def cursor_new_def)

lemma input_new [simp]: "cur_input (cursor_new bs) = bs"
  by (simp add: cursor_new_def)

lemma cursor_ok_new [simp]: "cursor_ok (cursor_new bs) \<longleftrightarrow> length bs \<le> isize_max"
  by (simp add: cursor_ok_def cursor_new_def)

lemma remaining_0_iff: "remaining c = 0 \<longleftrightarrow> rest_of c = []"
  by (simp flip: length_rest_of)

lemma remaining_gt_0_iff: "remaining c > 0 \<longleftrightarrow> rest_of c \<noteq> []"
  by (simp flip: length_rest_of)

lemma read_bytes_Inr:
  "read_bytes c n = Inr (bs, c') \<longleftrightarrow>
     cur_pos c + n \<le> usize_max \<and> cur_pos c + n \<le> length (cur_input c) \<and>
     bs = take n (rest_of c) \<and> c' = advance n c"
  by (auto simp: read_bytes_def result_simps rest_of_def advance_def)

lemma read_bytes_ok:
  "cursor_ok c \<Longrightarrow> n \<le> length (rest_of c) \<Longrightarrow>
   read_bytes c n = Inr (take n (rest_of c), advance n c)"
  by (auto simp: read_bytes_Inr cursor_ok_def rest_of_def isize_max_def usize_max_def)

lemma read_bytes_append:
  "cursor_ok c \<Longrightarrow> rest_of c = bs @ r \<Longrightarrow> n = length bs \<Longrightarrow>
   read_bytes c n = Inr (bs, advance n c)"
  by (simp add: read_bytes_ok)

lemma read_bytes_short:
  "cursor_ok c \<Longrightarrow> length (rest_of c) < n \<Longrightarrow> n \<le> isize_max \<Longrightarrow>
   read_bytes c n = Inl SarError.Truncated"
  by (auto simp: read_bytes_def checked_add_usize_def cursor_ok_def rest_of_def size_simps)

lemma read_bytes_sound:
  assumes "read_bytes c n = Inr (bs, c')"
  shows "length bs = n" "c' = advance n c" "rest_of c = bs @ rest_of c'"
    "in_range c'"
  using assms
  by (auto simp: read_bytes_Inr rest_of_advance length_rest_of remaining_def in_range_def)

text \<open>
  Assertions on a cursor: \<open>ahead n r c\<close> says that \<open>r\<close> is still to be read of \<open>n\<close> bytes,
  \<open>consumed bs pre c\<close> that the prefix \<open>pre\<close> of \<open>bs\<close> has been read, and \<open>parsed bs pre c m X\<close>
  that after this prefix the remaining parser \<open>m\<close> succeeds with \<open>X\<close>.
\<close>

definition ahead :: "nat \<Rightarrow> bytes \<Rightarrow> ParseCursor \<Rightarrow> bool" where
  "ahead n r c \<longleftrightarrow> cursor_ok c \<and> rest_of c = r \<and> length (cur_input c) = n"

definition consumed :: "bytes \<Rightarrow> bytes \<Rightarrow> ParseCursor \<Rightarrow> bool" where
  "consumed bs pre c \<longleftrightarrow> in_range c \<and> bs = pre @ rest_of c \<and> position c = length pre"

definition parsed :: "bytes \<Rightarrow> bytes \<Rightarrow> ParseCursor \<Rightarrow> SarError + 'x \<Rightarrow> 'x \<Rightarrow> bool" where
  "parsed bs pre c m X \<longleftrightarrow> consumed bs pre c \<and> m = Inr X"

lemma ahead_new: "length bs \<le> isize_max \<Longrightarrow> ahead (length bs) bs (cursor_new bs)"
  by (simp add: ahead_def)

lemma ahead_position: "ahead n r c \<Longrightarrow> position c + length r = n"
  by (auto simp: ahead_def rest_of_def cursor_ok_def position_def)

lemma consumed_new: "consumed bs [] (cursor_new bs)"
  by (simp add: consumed_def)

lemma parsed_new: "m = Inr X \<Longrightarrow> parsed bs [] (cursor_new bs) m X"
  by (simp add: parsed_def consumed_new)

lemma consumed_take:
  "consumed bs pre c \<Longrightarrow> position c = length pre \<and> length pre \<le> length bs \<and> take (length pre) bs = pre"
  by (auto simp: consumed_def)

section \<open>Fields\<close>

text \<open>
  The contract of a field reader: it reads back every admissible encoded value and stops right
  behind it, and when it succeeds the bytes it consumed are the encoding of the value it
  returned.
\<close>

locale field_codec =
  fixes rd :: "ParseCursor \<Rightarrow> SarError + ('a \<times> ParseCursor)"
    and enc :: "'a \<Rightarrow> bytes"
    and adm :: "'a \<Rightarrow> bool"
  assumes rd_enc: "adm v \<Longrightarrow> cursor_ok c \<Longrightarrow> rest_of c = enc v @ r \<Longrightarrow>
      rd c = Inr (v, advance (length (enc v)) c)"
    and rd_sound: "rd c = Inr (v, c') \<Longrightarrow> in_range c \<Longrightarrow>
      adm v \<and> rest_of c = enc v @ rest_of c' \<and> c' = advance (length (enc v)) c \<and> in_range c'"
begin

text \<open>Running a parser over encoded input: one application per field.\<close>

lemma step:
  assumes "ahead n (enc v @ r) c" "adm v"
    and "\<And>c'. ahead n r c' \<Longrightarrow> k v c' = X"
  shows "bindR (rd c) (case_prod k) = X"
proof -
  have "rd c = Inr (v, advance (length (enc v)) c)"
    using assms(1,2) by (auto simp: ahead_def rd_enc)
  moreover have "ahead n r (advance (length (enc v)) c)"
    using assms(1) by (auto simp: ahead_def rest_of_advance)
  ultimately show ?thesis
    by (simp add: assms(3))
qed

text \<open>Reading a successful parse backwards: one field of the input per bind.\<close>

lemma unstep:
  assumes "parsed bs pre c (bindR (rd c) (case_prod k)) X"
  obtains v c' where "adm v" "parsed bs (pre @ enc v) c' (k v c') X"
proof -
  from assms obtain v c' where r: "rd c = Inr (v, c')" "k v c' = Inr X"
    by (auto simp: parsed_def bindR_eq_Inr)
  moreover have "consumed bs (pre @ enc v) c'" "adm v"
    using rd_sound [OF r(1)] assms by (auto simp: consumed_def parsed_def)
  ultimately show thesis
    using that by (simp add: parsed_def)
qed

text \<open>The encoding is injective on admissible values, and a prefix code.\<close>

lemma enc_inj_prefix:
  assumes "adm v" "adm w" "enc v @ r = enc w @ s" "length (enc v @ r) \<le> isize_max"
  shows "v = w \<and> r = s"
proof -
  let ?c = "cursor_new (enc v @ r)"
  have "rd ?c = Inr (v, advance (length (enc v)) ?c)"
    by (rule rd_enc [OF assms(1), where r = r]) (use assms(4) in simp_all)
  moreover have "rd ?c = Inr (w, advance (length (enc w)) ?c)"
    by (rule rd_enc [OF assms(2), where r = s]) (use assms(3,4) in simp_all)
  ultimately have "v = w"
    by simp
  with assms show ?thesis
    by simp
qed

end

lemma le_word_codec:
  fixes rd :: "ParseCursor \<Rightarrow> SarError + ('a::len word \<times> ParseCursor)"
  assumes rd: "\<And>c. rd c = bindR (read_bytes c n) (\<lambda>(bs, c). Inr (from_le bs, c))"
    and n: "8 * n = LENGTH('a)"
  shows "field_codec rd (le_bytes n) (\<lambda>_. True)"
proof
  show "rd c = Inr (v, advance (length (le_bytes n v)) c)"
    if "cursor_ok c" "rest_of c = le_bytes n v @ r" for v c r
    using that n by (simp add: rd read_bytes_append [where bs = "le_bytes n v"] from_le_le_bytes)
  show "True \<and> rest_of c = le_bytes n v @ rest_of c' \<and> c' = advance (length (le_bytes n v)) c \<and>
      in_range c'" if "rd c = Inr (v, c')" for c v c'
  proof -
    from that obtain bs where bs: "read_bytes c n = Inr (bs, c')" "v = from_le bs"
      by (auto simp: rd bindR_eq_Inr)
    note * = read_bytes_sound [OF bs(1)]
    have "le_bytes n v = bs"
      using le_bytes_from_le [of bs, where 'a = 'a] * n bs(2) by simp
    with * show ?thesis
      by simp
  qed
qed

lemma le_bytes_u8: "(le_bytes 1 :: u8 \<Rightarrow> bytes) = byte"
  by (rule ext) (simp add: byte_def)

interpretation u8: field_codec read_u8 byte "\<lambda>_. True"
  unfolding le_bytes_u8 [symmetric] by (rule le_word_codec) (simp_all add: read_u8_def)

interpretation u16: field_codec read_u16_le "le_bytes 2" "\<lambda>_. True"
  by (rule le_word_codec) (simp_all add: read_u16_le_def)

interpretation u32: field_codec read_u32_le "le_bytes 4" "\<lambda>_. True"
  by (rule le_word_codec) (simp_all add: read_u32_le_def)

interpretation u64: field_codec read_u64_le "le_bytes 8" "\<lambda>_. True"
  by (rule le_word_codec) (simp_all add: read_u64_le_def)

interpretation raw: field_codec "\<lambda>c. read_bytes c n" "\<lambda>bs. bs" "\<lambda>bs. length bs = n" for n
proof
  show "read_bytes c n = Inr (v, advance (length v) c)"
    if "length v = n" "cursor_ok c" "rest_of c = v @ r" for v c r
    using that by (simp add: read_bytes_append)
  show "length v = n \<and> rest_of c = v @ rest_of c' \<and> c' = advance (length v) c \<and>
      in_range c'" if "read_bytes c n = Inr (v, c')" for c v c'
    using read_bytes_sound [OF that] by simp
qed

text \<open>Three-byte lengths: \<open>read_u24_le\<close> yields the values below \<open>2\<^sup>2\<^sup>4\<close>.\<close>

lemma from_le_snoc_0: "from_le (bs @ [0]) = from_le bs"
  by (induction bs) simp_all

lemma from_le_3_le: "length bs = 3 \<Longrightarrow> (from_le bs :: u32) \<le> 0x00FFFFFF"
proof -
  assume "length bs = 3"
  then have "from_le bs = take_bit 24 (from_le bs :: u32)"
    using from_le_le_bytes_take [of 3 "from_le bs :: u32"] le_bytes_from_le [of bs, where 'a = 32]
    by simp
  then have "unat (from_le bs :: u32) < 2 ^ 24"
    by (metis unsigned_take_bit_eq take_bit_nat_less_exp)
  then show ?thesis
    by (simp add: word_le_nat_alt)
qed

interpretation u24: field_codec read_u24_le "le_bytes 3" "\<lambda>v. v \<le> 0x00FFFFFF"
proof
  show "read_u24_le c = Inr (v, advance (length (le_bytes 3 v)) c)"
    if "v \<le> 0x00FFFFFF" "cursor_ok c" "rest_of c = le_bytes 3 v @ r" for v c r
  proof -
    have "take_bit 24 v = v"
    proof (rule unat_eqI)
      have "unat v < 2 ^ 24"
        using that(1) by (simp add: word_le_nat_alt)
      then show "unat (take_bit 24 v) = unat v"
        by (simp add: unsigned_take_bit_eq take_bit_nat_eq_self)
    qed
    then show ?thesis
      using that by (simp add: read_u24_le_def read_bytes_append [where bs = "le_bytes 3 v"]
          from_le_snoc_0 from_le_le_bytes_take)
  qed
  show "v \<le> 0x00FFFFFF \<and> rest_of c = le_bytes 3 v @ rest_of c' \<and>
      c' = advance (length (le_bytes 3 v)) c \<and>
      in_range c'"
    if "read_u24_le c = Inr (v, c')" for c v c'
  proof -
    from that obtain bs where bs: "read_bytes c 3 = Inr (bs, c')" "v = from_le bs"
      by (auto simp: read_u24_le_def bindR_eq_Inr from_le_snoc_0)
    note * = read_bytes_sound [OF bs(1)]
    have "le_bytes 3 v = bs"
      using le_bytes_from_le [of bs, where 'a = 32] * bs(2) by simp
    with * bs(2) show ?thesis
      by (simp add: from_le_3_le)
  qed
qed

text \<open>
  A field that is present exactly when a flag is set: the pattern
  \<^verbatim>\<open>if flags.contains(F) { Some(read?) } else { None }\<close> of the header parsers.
\<close>

definition opt_field ::
  "bool \<Rightarrow> (ParseCursor \<Rightarrow> SarError + ('a \<times> ParseCursor)) \<Rightarrow>
   ParseCursor \<Rightarrow> SarError + ('a option \<times> ParseCursor)" where
  "opt_field present rd c =
     (if present then bindR (rd c) (\<lambda>(v, c). Inr (Some v, c)) else Inr (None, c))"

definition opt_enc :: "bool \<Rightarrow> ('a \<Rightarrow> bytes) \<Rightarrow> 'a option \<Rightarrow> bytes" where
  "opt_enc present enc v = (if present then enc (the v) else [])"

definition opt_adm :: "bool \<Rightarrow> ('a \<Rightarrow> bool) \<Rightarrow> 'a option \<Rightarrow> bool" where
  "opt_adm present adm v \<longleftrightarrow> (if present then v \<noteq> None \<and> adm (the v) else v = None)"

text \<open>A length field that is present exactly when a flag is set; an absent one stands for zero.\<close>

definition opt_len ::
  "bool \<Rightarrow> (ParseCursor \<Rightarrow> SarError + ('a::len word \<times> ParseCursor)) \<Rightarrow>
   ParseCursor \<Rightarrow> SarError + (nat \<times> ParseCursor)" where
  "opt_len present rd c =
     (if present then
        bindR (rd c) (\<lambda>(v, c).
        bindR (ok_or (usize_of_word v) SarError.Overflow) (\<lambda>n. Inr (n, c)))
      else Inr (0, c))"

definition len_enc :: "bool \<Rightarrow> ('a::len word \<Rightarrow> bytes) \<Rightarrow> nat \<Rightarrow> bytes" where
  "len_enc present enc n = (if present then enc (of_nat n) else [])"

text \<open>The bytes of a declared length, where the code skips the read for an absent or empty field.\<close>

definition read_var :: "bool \<Rightarrow> nat \<Rightarrow> ParseCursor \<Rightarrow> SarError + (bytes \<times> ParseCursor)" where
  "read_var present n c = (if present \<and> n > 0 then read_bytes c n else Inr ([], c))"

text \<open>A counted loop of reads: \<^verbatim>\<open>for _ in 0..n { out.push(read?) }\<close>.\<close>

primrec read_many ::
  "nat \<Rightarrow> (ParseCursor \<Rightarrow> SarError + ('a \<times> ParseCursor)) \<Rightarrow> ParseCursor \<Rightarrow> SarError + ('a list \<times> ParseCursor)" where
  "read_many 0 rd c = Inr ([], c)"
| "read_many (Suc n) rd c =
     bindR (rd c) (\<lambda>(v, c). bindR (read_many n rd c) (\<lambda>(vs, c). Inr (v # vs, c)))"

interpretation var: field_codec "read_var b n" "\<lambda>bs. bs"
  "\<lambda>bs. length bs = (if b then n else 0)" for b n
proof
  show "read_var b n c = Inr (v, advance (length v) c)"
    if "length v = (if b then n else 0)" "cursor_ok c" "rest_of c = v @ r" for v c r
    using that by (auto simp: read_var_def read_bytes_append split: if_splits)
  show "length v = (if b then n else 0) \<and> rest_of c = v @ rest_of c' \<and> c' = advance (length v) c \<and>
      in_range c'" if "read_var b n c = Inr (v, c')" "in_range c" for c v c'
    using that read_bytes_sound [of c n v c'] by (auto simp: read_var_def split: if_splits)
qed

context field_codec
begin

lemma opt: "field_codec (opt_field b rd) (opt_enc b enc) (opt_adm b adm)"
proof
  show "opt_field b rd c = Inr (v, advance (length (opt_enc b enc v)) c)"
    if "opt_adm b adm v" "cursor_ok c" "rest_of c = opt_enc b enc v @ r" for v c r
    using that by (cases b; cases v) (auto simp: opt_field_def opt_enc_def opt_adm_def rd_enc)
  show "opt_adm b adm v \<and> rest_of c = opt_enc b enc v @ rest_of c' \<and>
      c' = advance (length (opt_enc b enc v)) c \<and>
      in_range c'"
    if "opt_field b rd c = Inr (v, c')" "in_range c" for c v c'
    using that rd_sound
    by (cases b) (fastforce simp: opt_field_def opt_enc_def opt_adm_def bindR_eq_Inr)+
qed

lemma many: "field_codec (read_many n rd) (\<lambda>vs. concat (map enc vs)) (\<lambda>vs. length vs = n \<and> list_all adm vs)"
proof
  show "read_many n rd c = Inr (vs, advance (length (concat (map enc vs))) c)"
    if "length vs = n \<and> list_all adm vs" "cursor_ok c" "rest_of c = concat (map enc vs) @ r" for vs c r
    using that
  proof (induction n arbitrary: vs c)
    case (Suc n)
    then obtain w ws where vs: "vs = w # ws"
      by (cases vs) auto
    with Suc.prems have "rd c = Inr (w, advance (length (enc w)) c)"
      by (intro rd_enc [of w c "concat (map enc ws) @ r"]) auto
    moreover have "read_many n rd (advance (length (enc w)) c) =
        Inr (ws, advance (length (concat (map enc ws))) (advance (length (enc w)) c))"
      using Suc.prems vs by (intro Suc.IH) (auto simp: rest_of_advance)
    ultimately show ?case
      by (simp add: vs)
  qed simp
  show "(length vs = n \<and> list_all adm vs) \<and> rest_of c = concat (map enc vs) @ rest_of c' \<and>
      c' = advance (length (concat (map enc vs))) c \<and> in_range c'"
    if "read_many n rd c = Inr (vs, c')" "in_range c" for vs c c'
    using that
  proof (induction n arbitrary: vs c)
    case (Suc n)
    then obtain w c1 ws where r: "rd c = Inr (w, c1)" "read_many n rd c1 = Inr (ws, c')" "vs = w # ws"
      by (auto simp: bindR_eq_Inr)
    note 1 = rd_sound [OF r(1) Suc.prems(2)]
    note 2 = Suc.IH [OF r(2)]
    show ?case
      using 1 2 r(3) by clarsimp
  qed simp
qed

end

lemma opt_len_codec:
  fixes rd :: "ParseCursor \<Rightarrow> SarError + ('a::len word \<times> ParseCursor)"
  assumes "field_codec rd enc adm" "LENGTH('a) \<le> 64"
  shows "field_codec (opt_len b rd) (len_enc b enc)
    (\<lambda>n. if b then n < 2 ^ LENGTH('a) \<and> adm (of_nat n) else n = 0)"
proof -
  from assms(1) have cd: "field_codec rd enc adm" .
  have usz: "usize_of_word (v :: 'a word) = Some (unat v)" for v
  proof -
    have "unat v < 2 ^ 64"
      using unat_lt2p [of v] assms(2) by (meson less_le_trans one_le_numeral power_increasing)
    then show ?thesis
      by (simp add: usize_of_word_def usize_max_less)
  qed
  show ?thesis
  proof
    show "opt_len b rd c = Inr (n, advance (length (len_enc b enc n)) c)"
      if "if b then n < 2 ^ LENGTH('a) \<and> adm (of_nat n) else n = 0" "cursor_ok c"
        "rest_of c = len_enc b enc n @ r" for n c r
      using that field_codec.rd_enc [OF cd, of "of_nat n" c r]
      by (auto simp: opt_len_def len_enc_def usz unat_of_nat_word_le split: if_splits)
    show "(if b then n < 2 ^ LENGTH('a) \<and> adm (of_nat n) else n = 0) \<and>
        rest_of c = len_enc b enc n @ rest_of c' \<and>
        c' = advance (length (len_enc b enc n)) c \<and> in_range c'"
      if "opt_len b rd c = Inr (n, c')" "in_range c" for n c c'
    proof (cases b)
      case True
      with that(1) obtain v where "rd c = Inr (v, c')" "n = unat v"
        by (auto simp: opt_len_def bindR_eq_Inr usz)
      with True field_codec.rd_sound [OF cd, of c v c'] that(2) show ?thesis
        by (clarsimp simp: len_enc_def unat_lt2p)
    qed (use that in \<open>simp add: opt_len_def len_enc_def\<close>)
  qed
qed

lemma bind_step: "m = Inr x \<Longrightarrow> k x = X \<Longrightarrow> bindR m k = X"
  by simp

lemma bind_unstep:
  assumes "parsed bs pre c (bindR m k) X"
  obtains x where "m = Inr x" "parsed bs pre c (k x) X"
  using assms by (auto simp: parsed_def bindR_eq_Inr)

lemma guard_unstep:
  assumes "parsed bs pre c (if b then Inl e else m) X"
  obtains "\<not> b" "parsed bs pre c m X"
  using assms by (simp add: parsed_def split: if_splits)

lemma parsed_done:
  assumes "parsed bs pre c (Inr Y) X"
  obtains "Y = X" "consumed bs pre c"
  using assms by (simp add: parsed_def)

lemma guard_step: "\<not> b \<Longrightarrow> m = X \<Longrightarrow> (if b then Inl e else m) = X"
  by simp

end
