(* ===== verification/Sar_Limits.thy ===== *)
theory Sar_Limits
  imports Sar_Error
begin

text \<open>
  The resource limits of \<^verbatim>\<open>sar-core/src/limits.rs\<close>: the configuration record, its two
  constructors and one check per limit.  Every parser takes the record as an argument, as in
  the code.
\<close>

record ResourceLimits =
  max_archive_size :: u64
  max_entry_count :: nat
  max_lfh_header_bytes :: nat
  max_path_bytes :: nat
  max_global_flags_bytes :: nat
  max_kms_payload_bytes :: nat
  max_tlv_bytes :: nat
  max_tlv_count :: nat
  max_cd_bytes :: u64
  max_decoded_entry_size :: u64
  max_in_memory_buffer :: u64
  max_total_pipeline_memory :: u64
  max_sparse_map_bytes :: nat
  max_sparse_descriptors :: nat
  max_fragment_count :: nat
  max_fragment_group_span :: u64
  max_loss_tolerant_gap :: u64
  max_active_streams :: nat
  max_session_metadata_bytes :: nat
  max_session_status_message_bytes :: nat
  max_session_fragment_buffer_bytes :: u64
  max_session_memory_bytes :: u64
  max_fec_value_bytes :: nat
  max_recovery_protected_range :: u64
  max_repair_working_set :: u64
  max_cdc_chunk_count :: nat
  max_cdc_metadata_bytes :: nat
  max_bsdiff_control_bytes :: u64
  max_bsdiff_diff_bytes :: u64
  max_bsdiff_extra_bytes :: u64
  max_bsdiff_control_triples :: nat
  max_vcdiff_window_count :: nat
  max_vcdiff_instruction_count :: nat
  max_vcdiff_output_size :: u64
  use_runtime_memory_budget :: bool

definition default_limits :: ResourceLimits where
  "default_limits = \<lparr>
     max_archive_size = 16 * 1024 * 1024 * 1024,
     max_entry_count = 1000000,
     max_lfh_header_bytes = 1024 * 1024,
     max_path_bytes = 65535,
     max_global_flags_bytes = 65535,
     max_kms_payload_bytes = 64 * 1024,
     max_tlv_bytes = 1024 * 1024,
     max_tlv_count = 1024,
     max_cd_bytes = 256 * 1024 * 1024,
     max_decoded_entry_size = 1024 * 1024 * 1024,
     max_in_memory_buffer = 1024 * 1024 * 1024,
     max_total_pipeline_memory = 2 * 1024 * 1024 * 1024,
     max_sparse_map_bytes = 8 * 1024 * 1024,
     max_sparse_descriptors = 524288,
     max_fragment_count = 65535,
     max_fragment_group_span = 1024 * 1024 * 1024,
     max_loss_tolerant_gap = 1024 * 1024 * 1024,
     max_active_streams = 1024,
     max_session_metadata_bytes = 1024 * 1024,
     max_session_status_message_bytes = 4 * 1024,
     max_session_fragment_buffer_bytes = 64 * 1024 * 1024,
     max_session_memory_bytes = 64 * 1024 * 1024,
     max_fec_value_bytes = 256 * 1024 * 1024,
     max_recovery_protected_range = 16 * 1024 * 1024 * 1024,
     max_repair_working_set = 2 * 1024 * 1024 * 1024,
     max_cdc_chunk_count = 1000000,
     max_cdc_metadata_bytes = 50 * 1024 * 1024,
     max_bsdiff_control_bytes = 64 * 1024 * 1024,
     max_bsdiff_diff_bytes = 1024 * 1024 * 1024,
     max_bsdiff_extra_bytes = 1024 * 1024 * 1024,
     max_bsdiff_control_triples = 4000000,
     max_vcdiff_window_count = 1000000,
     max_vcdiff_instruction_count = 10000000,
     max_vcdiff_output_size = 0,
     use_runtime_memory_budget = False \<rparr>"

definition unlimited :: ResourceLimits where
  "unlimited = \<lparr>
     max_archive_size = u64_max,
     max_entry_count = usize_max,
     max_lfh_header_bytes = usize_max,
     max_path_bytes = usize_max,
     max_global_flags_bytes = usize_max,
     max_kms_payload_bytes = usize_max,
     max_tlv_bytes = usize_max,
     max_tlv_count = usize_max,
     max_cd_bytes = u64_max,
     max_decoded_entry_size = u64_max,
     max_in_memory_buffer = u64_max,
     max_total_pipeline_memory = u64_max,
     max_sparse_map_bytes = usize_max,
     max_sparse_descriptors = usize_max,
     max_fragment_count = usize_max,
     max_fragment_group_span = u64_max,
     max_loss_tolerant_gap = u64_max,
     max_active_streams = usize_max,
     max_session_metadata_bytes = usize_max,
     max_session_status_message_bytes = usize_max,
     max_session_fragment_buffer_bytes = u64_max,
     max_session_memory_bytes = u64_max,
     max_fec_value_bytes = usize_max,
     max_recovery_protected_range = u64_max,
     max_repair_working_set = u64_max,
     max_cdc_chunk_count = usize_max,
     max_cdc_metadata_bytes = usize_max,
     max_bsdiff_control_bytes = u64_max,
     max_bsdiff_diff_bytes = u64_max,
     max_bsdiff_extra_bytes = u64_max,
     max_bsdiff_control_triples = usize_max,
     max_vcdiff_window_count = usize_max,
     max_vcdiff_instruction_count = usize_max,
     max_vcdiff_output_size = u64_max,
     use_runtime_memory_budget = False \<rparr>"

named_theorems limit_defs "the resource checks"

definition check_archive_size :: "ResourceLimits \<Rightarrow> u64 \<Rightarrow> SarError + unit" where [limit_defs]:
  "check_archive_size limits value =
     (if max_archive_size limits > 0 \<and> value > max_archive_size limits then Inl SarError.LimitExceeded else Inr ())"

definition check_entry_count :: "ResourceLimits \<Rightarrow> nat \<Rightarrow> SarError + unit" where [limit_defs]:
  "check_entry_count limits count =
     (if count > max_entry_count limits then Inl SarError.LimitExceeded else Inr ())"

definition check_lfh_header_bytes :: "ResourceLimits \<Rightarrow> nat \<Rightarrow> SarError + unit" where [limit_defs]:
  "check_lfh_header_bytes limits bytes =
     (if bytes > max_lfh_header_bytes limits then Inl SarError.LimitExceeded else Inr ())"

definition check_path_bytes :: "ResourceLimits \<Rightarrow> nat \<Rightarrow> SarError + unit" where [limit_defs]:
  "check_path_bytes limits bytes =
     (if bytes > max_path_bytes limits then Inl SarError.LimitExceeded else Inr ())"

definition check_global_flags_bytes :: "ResourceLimits \<Rightarrow> nat \<Rightarrow> SarError + unit" where [limit_defs]:
  "check_global_flags_bytes limits bytes =
     (if bytes > max_global_flags_bytes limits then Inl SarError.LimitExceeded else Inr ())"

definition check_kms_payload_bytes :: "ResourceLimits \<Rightarrow> nat \<Rightarrow> SarError + unit" where [limit_defs]:
  "check_kms_payload_bytes limits bytes =
     (if bytes > max_kms_payload_bytes limits then Inl SarError.LimitExceeded else Inr ())"

definition check_tlv_bytes :: "ResourceLimits \<Rightarrow> nat \<Rightarrow> SarError + unit" where [limit_defs]:
  "check_tlv_bytes limits bytes =
     (if bytes > max_tlv_bytes limits then Inl SarError.LimitExceeded else Inr ())"

definition check_tlv_count :: "ResourceLimits \<Rightarrow> nat \<Rightarrow> SarError + unit" where [limit_defs]:
  "check_tlv_count limits count =
     (if count > max_tlv_count limits then Inl SarError.LimitExceeded else Inr ())"

definition check_cd_bytes :: "ResourceLimits \<Rightarrow> u64 \<Rightarrow> SarError + unit" where [limit_defs]:
  "check_cd_bytes limits bytes =
     (if bytes > max_cd_bytes limits then Inl SarError.LimitExceeded else Inr ())"

definition check_decoded_entry_size :: "ResourceLimits \<Rightarrow> u64 \<Rightarrow> SarError + unit" where [limit_defs]:
  "check_decoded_entry_size limits bytes =
     (if bytes > max_decoded_entry_size limits then Inl SarError.LimitExceeded else Inr ())"

definition check_in_memory_buffer :: "ResourceLimits \<Rightarrow> u64 \<Rightarrow> SarError + unit" where [limit_defs]:
  "check_in_memory_buffer limits bytes =
     (if bytes > max_in_memory_buffer limits then Inl SarError.LimitExceeded else Inr ())"

definition check_total_pipeline_memory :: "ResourceLimits \<Rightarrow> u64 \<Rightarrow> SarError + unit" where [limit_defs]:
  "check_total_pipeline_memory limits bytes =
     (if bytes > max_total_pipeline_memory limits then Inl SarError.LimitExceeded else Inr ())"

definition check_allocation_bytes :: "ResourceLimits \<Rightarrow> u64 \<Rightarrow> SarError + unit" where [limit_defs]:
  "check_allocation_bytes limits bytes =
     bindR (check_in_memory_buffer limits bytes) (\<lambda>_.
       check_total_pipeline_memory limits bytes)"

definition allocation_len :: "ResourceLimits \<Rightarrow> u64 \<Rightarrow> SarError + nat" where
  "allocation_len limits bytes =
     bindR (check_allocation_bytes limits bytes) (\<lambda>_.
     bindR (ok_or (usize_of_word bytes) SarError.Overflow) (\<lambda>len.
       if len > isize_max then Inl SarError.Overflow else Inr len))"

definition check_sparse_map_bytes :: "ResourceLimits \<Rightarrow> nat \<Rightarrow> SarError + unit" where [limit_defs]:
  "check_sparse_map_bytes limits bytes =
     (if bytes > max_sparse_map_bytes limits then Inl SarError.LimitExceeded else Inr ())"

definition check_sparse_descriptor_count :: "ResourceLimits \<Rightarrow> nat \<Rightarrow> SarError + unit" where [limit_defs]:
  "check_sparse_descriptor_count limits count =
     (if count > max_sparse_descriptors limits then Inl SarError.LimitExceeded else Inr ())"

definition check_fragment_count :: "ResourceLimits \<Rightarrow> nat \<Rightarrow> SarError + unit" where [limit_defs]:
  "check_fragment_count limits count =
     (if count > max_fragment_count limits then Inl SarError.LimitExceeded else Inr ())"

definition check_fragment_group_span :: "ResourceLimits \<Rightarrow> u64 \<Rightarrow> SarError + unit" where [limit_defs]:
  "check_fragment_group_span limits bytes =
     (if bytes > max_fragment_group_span limits then Inl SarError.LimitExceeded else Inr ())"

definition check_loss_tolerant_gap :: "ResourceLimits \<Rightarrow> u64 \<Rightarrow> SarError + unit" where [limit_defs]:
  "check_loss_tolerant_gap limits bytes =
     (if bytes > max_loss_tolerant_gap limits then Inl SarError.LimitExceeded else Inr ())"

definition check_active_streams :: "ResourceLimits \<Rightarrow> nat \<Rightarrow> SarError + unit" where [limit_defs]:
  "check_active_streams limits count =
     (if count > max_active_streams limits then Inl SarError.TooManyStreams else Inr ())"

definition check_session_metadata_bytes :: "ResourceLimits \<Rightarrow> nat \<Rightarrow> SarError + unit" where [limit_defs]:
  "check_session_metadata_bytes limits bytes =
     (if bytes > max_session_metadata_bytes limits then Inl SarError.LimitExceeded else Inr ())"

definition check_session_status_message_bytes :: "ResourceLimits \<Rightarrow> nat \<Rightarrow> SarError + unit" where [limit_defs]:
  "check_session_status_message_bytes limits bytes =
     (if bytes > max_session_status_message_bytes limits then Inl SarError.LimitExceeded else Inr ())"

definition check_session_fragment_buffer_bytes :: "ResourceLimits \<Rightarrow> u64 \<Rightarrow> SarError + unit" where [limit_defs]:
  "check_session_fragment_buffer_bytes limits bytes =
     (if bytes > max_session_fragment_buffer_bytes limits then Inl SarError.LimitExceeded else Inr ())"

definition check_session_memory_bytes :: "ResourceLimits \<Rightarrow> u64 \<Rightarrow> SarError + unit" where [limit_defs]:
  "check_session_memory_bytes limits bytes =
     (if bytes > max_session_memory_bytes limits then Inl SarError.LimitExceeded else Inr ())"

definition check_fec_value_bytes :: "ResourceLimits \<Rightarrow> nat \<Rightarrow> SarError + unit" where [limit_defs]:
  "check_fec_value_bytes limits bytes =
     (if bytes > max_fec_value_bytes limits then Inl SarError.LimitExceeded else Inr ())"

definition check_recovery_protected_range :: "ResourceLimits \<Rightarrow> u64 \<Rightarrow> SarError + unit" where [limit_defs]:
  "check_recovery_protected_range limits bytes =
     (if bytes > max_recovery_protected_range limits then Inl SarError.LimitExceeded else Inr ())"

definition check_repair_working_set :: "ResourceLimits \<Rightarrow> u64 \<Rightarrow> SarError + unit" where [limit_defs]:
  "check_repair_working_set limits bytes =
     (if bytes > max_repair_working_set limits then Inl SarError.LimitExceeded else Inr ())"

definition check_cdc_chunk_count :: "ResourceLimits \<Rightarrow> nat \<Rightarrow> SarError + unit" where [limit_defs]:
  "check_cdc_chunk_count limits count =
     (if count > max_cdc_chunk_count limits then Inl SarError.LimitExceeded else Inr ())"

definition check_cdc_metadata_bytes :: "ResourceLimits \<Rightarrow> nat \<Rightarrow> SarError + unit" where [limit_defs]:
  "check_cdc_metadata_bytes limits bytes =
     (if bytes > max_cdc_metadata_bytes limits then Inl SarError.LimitExceeded else Inr ())"

lemma allocation_len_Inr:
  "allocation_len limits bytes = Inr n \<longleftrightarrow>
     n = unat bytes \<and> n \<le> isize_max \<and>
     bytes \<le> max_in_memory_buffer limits \<and> bytes \<le> max_total_pipeline_memory limits"
  by (auto simp: allocation_len_def limit_defs result_simps not_less)

end
