(* ===== verification/Sar_Tlv.thy ===== *)
theory Sar_Tlv
  imports Sar_Io Sar_Limits Sar_Fec_Base
begin

text \<open>
  The metadata TLV blocks of \<^verbatim>\<open>sar-core/src/tlv.rs\<close> with the recovery-type classification of
  \<^verbatim>\<open>sar-core/src/fec.rs\<close>.  A TLV is a type byte, a \<^verbatim>\<open>u32\<close> length, the value and zero padding
  to a multiple of eight.
\<close>

section \<open>Model\<close>

primrec SarError_from_FecError :: "FecError \<Rightarrow> SarError" where
  "SarError_from_FecError FecError.Truncated = SarError.Truncated"
| "SarError_from_FecError FecError.Malformed = SarError.Malformed"
| "SarError_from_FecError FecError.InvalidLength = SarError.InvalidLength"
| "SarError_from_FecError FecError.Overflow = SarError.Overflow"
| "SarError_from_FecError FecError.LimitExceeded = SarError.LimitExceeded"
| "SarError_from_FecError FecError.EcFailed = SarError.EcFailed"
| "SarError_from_FecError FecError.ReservedValue = SarError.ReservedValue"
| "SarError_from_FecError FecError.Unsupported = SarError.Unsupported"
| "SarError_from_FecError FecError.RecoveryUnavailable = SarError.RecoveryUnavailable"

definition classify_recovery_tlv_id :: "u8 \<Rightarrow> SarError + unit" where
  "classify_recovery_tlv_id type_id = map_err SarError_from_FecError (validate_fec_algo_id type_id)"

record Tlv =
  tlv_type_id :: u8
  tlv_value :: bytes

definition encoded_len :: "Tlv \<Rightarrow> nat" where
  "encoded_len tlv = (let base = 1 + 4 + length (tlv_value tlv) in base + (8 - base mod 8) mod 8)"

definition classify_type :: "u8 \<Rightarrow> SarError + unit" where
  "classify_type type_id =
     (if type_id = 0x00 then Inl SarError.ReservedValue
      else if 0x01 \<le> type_id \<and> type_id \<le> 0x04 then Inr ()
      else if 0x10 \<le> type_id \<and> type_id \<le> 0x1F then classify_recovery_tlv_id type_id
      else if 0x20 \<le> type_id \<and> type_id \<le> 0x2F then Inl SarError.Unsupported
      else if 0x30 \<le> type_id \<and> type_id \<le> 0x3F then Inr ()
      else if type_id = 0x40 \<or> type_id = 0x41 \<or> type_id = 0x4F then Inr ()
      else if 0x42 \<le> type_id \<and> type_id \<le> 0x4E then Inl SarError.ReservedValue
      else if 0x50 \<le> type_id then Inl SarError.ReservedValue
      else Inr ())"

text \<open>The zero padding behind a value.\<close>

definition parse_pad :: "nat \<Rightarrow> ParseCursor \<Rightarrow> SarError + ParseCursor" where
  "parse_pad pad cursor =
     (if pad > 0 then
        bindR (read_bytes cursor pad) (\<lambda>(padding, cursor).
          if list_ex (\<lambda>byte. byte \<noteq> 0) padding then Inl SarError.InvalidAlignment
          else Inr cursor)
      else Inr cursor)"

text \<open>One iteration of the loop of \<^verbatim>\<open>parse_tlvs\<close>, after the count check.\<close>

definition parse_tlv_block :: "ResourceLimits \<Rightarrow> ParseCursor \<Rightarrow> SarError + (Tlv \<times> ParseCursor)" where
  "parse_tlv_block limits cursor =
     (let start = position cursor in
      bindR (read_u8 cursor) (\<lambda>(type_id, cursor).
      bindR (classify_type type_id) (\<lambda>_.
      bindR (read_u32_le cursor) (\<lambda>(len, cursor).
      if len = u32_max then Inl SarError.ReservedValue else
      bindR (ok_or (usize_of_word len) SarError.Overflow) (\<lambda>length_usize.
      bindR (check_tlv_bytes limits length_usize) (\<lambda>_.
      bindR (read_bytes cursor length_usize) (\<lambda>(value, cursor).
      bindR (ok_or (checked_sub_usize (position cursor) start) SarError.Overflow) (\<lambda>consumed.
      let rem = consumed mod 8 in
      bindR (if rem = 0 then Inr 0 else ok_or (checked_sub_usize 8 rem) SarError.Overflow) (\<lambda>pad.
      bindR (parse_pad pad cursor) (\<lambda>cursor.
      Inr (\<lparr> tlv_type_id = type_id, tlv_value = value \<rparr>, cursor)))))))))))"

lemma parse_tlv_block_progress:
  assumes "parse_tlv_block limits c = Inr (t, c')"
  shows "remaining c' < remaining c"
proof -
  from assms obtain ty c1 where 1: "read_u8 c = Inr (ty, c1)" and
    2: "\<exists>len c2 v c3. read_u32_le c1 = Inr (len, c2) \<and> read_bytes c2 (unat len) = Inr (v, c3) \<and>
      (c' = c3 \<or> (\<exists>pad p. read_bytes c3 pad = Inr (p, c')))"
    by (fastforce simp: parse_tlv_block_def parse_pad_def bindR_eq_Inr Let_def split: if_splits)
  from 1 have "c1 = advance 1 c" "1 \<le> remaining c"
    by (auto simp: read_u8_def bindR_eq_Inr read_bytes_Inr remaining_def)
  moreover from 2 have "remaining c' \<le> remaining c1"
    by (auto simp: read_u32_le_def bindR_eq_Inr read_bytes_Inr)
  ultimately show ?thesis
    by simp
qed

function parse_tlvs_loop :: "ResourceLimits \<Rightarrow> ParseCursor \<Rightarrow> Tlv list \<Rightarrow> SarError + Tlv list" where
  "parse_tlvs_loop limits cursor out =
     (if remaining cursor > 0 then
        bindR (ok_or (checked_add_usize (length out) 1) SarError.Overflow) (\<lambda>count.
        bindR (check_tlv_count limits count) (\<lambda>_.
        bindR (parse_tlv_block limits cursor) (\<lambda>(tlv, cursor).
          parse_tlvs_loop limits cursor (out @ [tlv]))))
      else Inr out)"
  by auto
termination
  by (relation "measure (\<lambda>(_, c, _). remaining c)") (auto dest: parse_tlv_block_progress)

declare parse_tlvs_loop.simps [simp del]

definition parse_tlvs :: "bytes \<Rightarrow> ResourceLimits \<Rightarrow> SarError + Tlv list" where
  "parse_tlvs inp limits = parse_tlvs_loop limits (cursor_new inp) []"

definition write_tlv_block :: "Tlv \<Rightarrow> BinaryWriter \<Rightarrow> SarError + BinaryWriter" where
  "write_tlv_block tlv writer =
     bindR (classify_type (tlv_type_id tlv)) (\<lambda>_.
     bindR (ok_or (word_of_usize (length (tlv_value tlv))) SarError.Overflow) (\<lambda>(len :: u32).
     if len = u32_max then Inl SarError.ReservedValue else
     let block_writer = writer_new;
         block_writer = write_u8 block_writer (tlv_type_id tlv);
         block_writer = write_u32_le block_writer len;
         block_writer = write_bytes block_writer (tlv_value tlv);
         block = into_inner block_writer;
         pad = (8 - length block mod 8) mod 8;
         block = block @ replicate pad 0
     in Inr (write_bytes writer block)))"

definition write_tlvs :: "Tlv list \<Rightarrow> SarError + bytes" where
  "write_tlvs tlvs = bindR (foldR write_tlv_block tlvs writer_new) (\<lambda>writer. Inr (into_inner writer))"

section \<open>The wire form of a block\<close>

definition tlv_pad :: "nat \<Rightarrow> nat" where
  "tlv_pad n = (8 - (5 + n) mod 8) mod 8"

definition tlv_wire :: "Tlv \<Rightarrow> bytes" where
  "tlv_wire t = byte (tlv_type_id t) @ le_bytes 4 (of_nat (length (tlv_value t)) :: u32)
     @ tlv_value t @ replicate (tlv_pad (length (tlv_value t))) 0"

definition tlv_ok :: "Tlv \<Rightarrow> bool" where
  "tlv_ok t \<longleftrightarrow> classify_type (tlv_type_id t) = Inr () \<and> length (tlv_value t) < 2 ^ 32 - 1"

lemma length_tlv_wire: "length (tlv_wire t) = encoded_len t"
  by (simp add: tlv_wire_def tlv_pad_def encoded_len_def Let_def)

lemma pad8_eq: "(8 - b mod 8) mod 8 = (if b mod 8 = 0 then 0 else 8 - b mod 8)" for b :: nat
  by (simp add: mod_less)

lemma encoded_len_aligned: "encoded_len t mod 8 = 0"
proof -
  have "(b + (8 - b mod 8) mod 8) mod 8 = 0" for b :: nat
  proof (cases "b mod 8 = 0")
    case False
    have "b + (8 - b mod 8) = 8 * (b div 8) + 8"
      using div_mult_mod_eq [of b 8] mod_less_divisor [of 8 b] by linarith
    with False show ?thesis
      by (simp add: pad8_eq)
  qed simp
  then show ?thesis
    by (simp add: encoded_len_def Let_def)
qed

lemma of_nat_u32_eq_max: "n < 2 ^ 32 \<Longrightarrow> (of_nat n :: u32) = - 1 \<longleftrightarrow> n = 2 ^ 32 - 1"
  by (simp add: word_unat_eq_iff unat_minus_one_word unat_of_nat_word_le)

lemma write_tlv_block_eq:
  "write_tlv_block t w = Inr w' \<longleftrightarrow> tlv_ok t \<and> w' = write_bytes w (tlv_wire t)"
proof (cases "length (tlv_value t) < 2 ^ 32")
  case True
  have "into_inner (write_bytes (write_u32_le (write_u8 writer_new ty) len) v) =
      byte ty @ le_bytes 4 len @ v" for ty len v
    by (simp add: writer_simps)
  with True show ?thesis
    by (auto simp: write_tlv_block_def tlv_ok_def bindR_eq_Inr Let_def of_nat_u32_eq_max
        tlv_wire_def tlv_pad_def)
next
  case False
  then show ?thesis
    by (auto simp: write_tlv_block_def tlv_ok_def bindR_eq_Inr word_of_usize_def)
qed

lemma foldR_write_tlv_block:
  "foldR write_tlv_block ts w = Inr w' \<longleftrightarrow>
     list_all tlv_ok ts \<and> w' = write_bytes w (concat (map tlv_wire ts))"
proof (induction ts arbitrary: w)
  case Nil
  show ?case
    by (auto simp: write_bytes_def)
next
  case (Cons t ts)
  show ?case
    by (auto simp: bindR_eq_Inr write_tlv_block_eq Cons.IH write_bytes_def)
qed

lemma write_tlvs_eq:
  "write_tlvs ts = Inr bs \<longleftrightarrow> list_all tlv_ok ts \<and> bs = concat (map tlv_wire ts)"
  by (auto simp: write_tlvs_def bindR_eq_Inr foldR_write_tlv_block writer_simps)

section \<open>Reading a block\<close>

text \<open>
  One loop iteration is a field reader for whole blocks: the padding it skips is determined by
  the length, so a block that is read is the wire form of the value that is returned.
\<close>

lemma tlv_pad_rem:
  "(if (5 + n) mod 8 = 0 then 0 else 8 - (5 + n) mod 8) = tlv_pad n"
  by (simp add: tlv_pad_def pad8_eq)

lemma list_ex_nonzero_replicate: "\<not> list_ex (\<lambda>b. b \<noteq> 0) bs \<longleftrightarrow> bs = replicate (length bs) (0 :: u8)"
  by (induction bs) auto

lemma parse_pad_Inr:
  assumes "parse_pad pad c = Inr c'" "in_range c"
  shows "rest_of c = replicate pad 0 @ rest_of c' \<and> c' = advance pad c \<and> in_range c'"
proof (cases "pad > 0")
  case True
  with assms obtain bs where bs: "read_bytes c pad = Inr (bs, c')" "\<not> list_ex (\<lambda>b. b \<noteq> 0) bs"
    by (auto simp: parse_pad_def bindR_eq_Inr split: if_splits)
  from bs(2) have "bs = replicate (length bs) 0"
    by (simp add: list_ex_nonzero_replicate)
  with read_bytes_sound [OF bs(1)] show ?thesis
    by simp
qed (use assms in \<open>simp add: parse_pad_def\<close>)

lemma parse_pad_ok:
  "cursor_ok c \<Longrightarrow> rest_of c = replicate pad 0 @ r \<Longrightarrow> parse_pad pad c = Inr (advance pad c)"
  by (auto simp: parse_pad_def read_bytes_append list_ex_iff)

lemma parse_tlv_block_alt:
  "parse_tlv_block limits c =
     bindR (read_u8 c) (\<lambda>(ty, c1).
     bindR (classify_type ty) (\<lambda>_.
     bindR (read_u32_le c1) (\<lambda>(len, c2).
     if len = u32_max \<or> unat len > max_tlv_bytes limits
     then Inl (if len = u32_max then SarError.ReservedValue else SarError.LimitExceeded) else
     bindR (read_bytes c2 (unat len)) (\<lambda>(v, c3).
     bindR (parse_pad (tlv_pad (unat len)) c3) (\<lambda>c4.
     Inr (\<lparr> tlv_type_id = ty, tlv_value = v \<rparr>, c4))))))"
proof -
  have consumed: "checked_sub_usize (position c3) (position c) = Some (5 + unat len)"
    if "read_u8 c = Inr (ty, c1)" "read_u32_le c1 = Inr (len, c2)"
      "read_bytes c2 (unat len) = Inr (v, c3)" for ty c1 len c2 v c3
    using that by (auto simp: read_u8_def read_u32_le_def bindR_eq_Inr read_bytes_Inr)
  have pad: "(if (5 + n) mod 8 = 0 then Inr 0
      else ok_or (checked_sub_usize 8 ((5 + n) mod 8)) SarError.Overflow) = Inr (tlv_pad n)" for n
    using tlv_pad_rem [of n] by (auto simp: checked_sub_usize_def split: if_splits)
  show ?thesis
    unfolding parse_tlv_block_def Let_def
    by (intro bindR_cong refl)
      (auto simp: limit_defs consumed pad intro!: bindR_cong)
qed

definition tlv_adm :: "ResourceLimits \<Rightarrow> Tlv \<Rightarrow> bool" where
  "tlv_adm limits t \<longleftrightarrow> tlv_ok t \<and> length (tlv_value t) \<le> max_tlv_bytes limits"

lemma parse_tlv_block_sound:
  assumes "parse_tlv_block limits c = Inr (t, c')" "in_range c"
  shows "tlv_adm limits t \<and> rest_of c = tlv_wire t @ rest_of c' \<and>
    c' = advance (length (tlv_wire t)) c \<and> in_range c'"
proof -
  from assms(1) obtain ty c1 len c2 v c3 where
    1: "read_u8 c = Inr (ty, c1)" "read_u32_le c1 = Inr (len, c2)" and
    2: "read_bytes c2 (unat len) = Inr (v, c3)" "parse_pad (tlv_pad (unat len)) c3 = Inr c'" and
    t: "t = \<lparr> tlv_type_id = ty, tlv_value = v \<rparr>" and
    adm: "classify_type ty = Inr ()" "len \<noteq> u32_max" "unat len \<le> max_tlv_bytes limits"
    by (fastforce simp: parse_tlv_block_alt bindR_eq_Inr split: if_splits)
  note s1 = u8.rd_sound [OF 1(1) assms(2)]
  note s2 = u32.rd_sound [OF 1(2) s1 [THEN conjunct2, THEN conjunct2, THEN conjunct2]]
  note s3 = read_bytes_sound [OF 2(1)]
  note s4 = parse_pad_Inr [OF 2(2) s3(4)]
  have len: "len = of_nat (length v)" "length v = unat len"
    using s3(1) by simp_all
  moreover have "unat len \<noteq> 4294967295"
    using adm(2) by (simp add: word_unat_eq_iff unat_minus_one_word)
  then have "unat len < 4294967295"
    using unat_u32_less [of len] by linarith
  then have "length v < 2 ^ 32 - 1"
    using len(2) by simp
  ultimately show ?thesis
    using s1 s2 s3 s4 adm t
    by (clarsimp simp: tlv_adm_def tlv_ok_def tlv_wire_def add.assoc)
qed

interpretation tlv_block: field_codec "parse_tlv_block limits" tlv_wire "tlv_adm limits" for limits
proof
  fix t c r
  assume adm: "tlv_adm limits t" and c: "cursor_ok c" "rest_of c = tlv_wire t @ r"
  let ?n = "length (tlv_value t)"
  have n: "?n < 2 ^ 32" "?n \<noteq> 2 ^ 32 - 1" "?n \<le> max_tlv_bytes limits"
    and ty: "classify_type (tlv_type_id t) = Inr ()"
    using adm by (auto simp: tlv_adm_def tlv_ok_def)
  have rest: "rest_of c = byte (tlv_type_id t) @ le_bytes 4 (of_nat ?n :: u32) @ tlv_value t
      @ replicate (tlv_pad ?n) 0 @ r"
    using c(2) by (simp add: tlv_wire_def)
  have len: "(of_nat ?n :: u32) \<noteq> u32_max" "unat (of_nat ?n :: u32) = ?n"
    using n by (simp_all add: of_nat_u32_eq_max)
  have 1: "read_u8 c = Inr (tlv_type_id t, advance 1 c)"
    using u8.rd_enc [OF TrueI c(1) rest] by simp
  have c1: "cursor_ok (advance 1 c)" "rest_of (advance 1 c) = le_bytes 4 (of_nat ?n :: u32)
      @ tlv_value t @ replicate (tlv_pad ?n) 0 @ r"
    using c(1) rest by (simp_all add: rest_of_advance)
  have 2: "read_u32_le (advance 1 c) = Inr (of_nat ?n, advance 5 c)"
    using u32.rd_enc [OF TrueI c1] by simp
  have c2: "cursor_ok (advance 5 c)"
    "rest_of (advance 5 c) = tlv_value t @ replicate (tlv_pad ?n) 0 @ r"
    using c(1) rest by (simp_all add: rest_of_advance)
  have 3: "read_bytes (advance 5 c) ?n = Inr (tlv_value t, advance (5 + ?n) c)"
    using raw.rd_enc [OF refl c2] by simp
  have 4: "parse_pad (tlv_pad ?n) (advance (5 + ?n) c) = Inr (advance (5 + ?n + tlv_pad ?n) c)"
    using parse_pad_ok [of "advance (5 + ?n) c" "tlv_pad ?n" r] c(1) rest
    by (simp add: rest_of_advance)
  show "parse_tlv_block limits c = Inr (t, advance (length (tlv_wire t)) c)"
    unfolding parse_tlv_block_alt
    using 1 2 3 4 ty len n(3) by (simp add: tlv_wire_def add.assoc)
qed (rule parse_tlv_block_sound)

section \<open>Sequences of blocks\<close>

lemma parse_tlvs_loop_wire:
  assumes "cursor_ok c" "rest_of c = concat (map (tlv_wire) ts)" "list_all (tlv_adm limits) ts"
    and "length out + length ts \<le> max_tlv_count limits" "length out + length ts \<le> usize_max"
  shows "parse_tlvs_loop limits c out = Inr (out @ ts)"
  using assms
proof (induction ts arbitrary: c out)
  case Nil
  then show ?case
    by (simp add: parse_tlvs_loop.simps remaining_gt_0_iff)
next
  case (Cons t ts)
  let ?c = "advance (length (tlv_wire t)) c"
  have rd: "parse_tlv_block limits c = Inr (t, ?c)"
    using Cons.prems by (intro tlv_block.rd_enc [where r = "concat (map tlv_wire ts)"]) simp_all
  have "tlv_wire t \<noteq> []"
    by (simp add: tlv_wire_def)
  then have rem: "remaining c > 0"
    using Cons.prems(2) by (simp add: remaining_gt_0_iff)
  have "parse_tlvs_loop limits ?c (out @ [t]) = Inr ((out @ [t]) @ ts)"
    using Cons.prems by (intro Cons.IH) (simp_all add: rest_of_advance)
  with rem rd Cons.prems(4,5) show ?case
    by (subst parse_tlvs_loop.simps) (simp add: checked_add_usize_def limit_defs)
qed

lemma parse_tlvs_loop_sound:
  assumes "parse_tlvs_loop limits c out = Inr res" "in_range c"
  shows "\<exists>ts. res = out @ ts \<and> rest_of c = concat (map tlv_wire ts) \<and>
    list_all (tlv_adm limits) ts \<and> (ts \<noteq> [] \<longrightarrow> length res \<le> max_tlv_count limits)"
  using assms
proof (induction limits c out rule: parse_tlvs_loop.induct)
  case (1 limits c out)
  show ?case
  proof (cases "remaining c > 0")
    case False
    with "1.prems" show ?thesis
      by (auto simp: parse_tlvs_loop.simps [of limits c out] remaining_0_iff)
  next
    case True
    with "1.prems"(1) obtain t c' where
      cnt: "length out + 1 \<le> max_tlv_count limits" "checked_add_usize (length out) 1 = Some (length out + 1)"
      and rd: "parse_tlv_block limits c = Inr (t, c')"
      and rec: "parse_tlvs_loop limits c' (out @ [t]) = Inr res"
      by (subst (asm) parse_tlvs_loop.simps)
        (auto simp: bindR_eq_Inr limit_defs checked_add_usize_def split: if_splits)
    note s = tlv_block.rd_sound [OF rd "1.prems"(2)]
    have "check_tlv_count limits (length out + 1) = Inr ()"
      using cnt(1) by (simp add: limit_defs)
    then obtain ts where ts: "res = (out @ [t]) @ ts" "rest_of c' = concat (map tlv_wire ts)"
      "list_all (tlv_adm limits) ts" "ts \<noteq> [] \<longrightarrow> length res \<le> max_tlv_count limits"
      using "1.IH" [OF True _ _ rd refl rec] cnt(2) s by auto
    with s cnt(1) show ?thesis
      by (intro exI [of _ "t # ts"]) (cases ts; auto)
  qed
qed

lemma parse_tlvs_iff_write_tlvs:
  assumes "length bs \<le> isize_max"
  shows "parse_tlvs bs limits = Inr ts \<longleftrightarrow>
    write_tlvs ts = Inr bs \<and> length ts \<le> max_tlv_count limits \<and>
    list_all (\<lambda>t. length (tlv_value t) \<le> max_tlv_bytes limits) ts"
proof
  assume "parse_tlvs bs limits = Inr ts"
  then show "write_tlvs ts = Inr bs \<and> length ts \<le> max_tlv_count limits \<and>
    list_all (\<lambda>t. length (tlv_value t) \<le> max_tlv_bytes limits) ts"
    using parse_tlvs_loop_sound [of limits "cursor_new bs" "[]" ts]
    by (cases ts) (auto simp: parse_tlvs_def write_tlvs_eq tlv_adm_def list_all_iff)
next
  assume *: "write_tlvs ts = Inr bs \<and> length ts \<le> max_tlv_count limits \<and>
    list_all (\<lambda>t. length (tlv_value t) \<le> max_tlv_bytes limits) ts"
  then have bs: "bs = concat (map tlv_wire ts)"
    by (simp add: write_tlvs_eq)
  have "length ts \<le> length (concat (map tlv_wire ts))"
    by (induction ts) (auto simp: tlv_wire_def)
  with assms bs have "length ts \<le> usize_max"
    by (auto simp: size_simps)
  with * bs assms show "parse_tlvs bs limits = Inr ts"
    unfolding parse_tlvs_def
    by (subst parse_tlvs_loop_wire [where ts = ts])
      (auto simp: write_tlvs_eq tlv_adm_def list_all_iff)
qed

section \<open>Properties\<close>

text \<open>
  (C4) The TLV codec is exact.  For every input that fits in memory, \<^verbatim>\<open>parse_tlvs\<close> returns a list of
  TLVs exactly when that list has an assigned type in every block, respects the count and size
  limits and is written by \<^verbatim>\<open>write_tlvs\<close> as this very input.  Hence there is one encoding per list,
  and truncated, misaligned or non-zero padding is always refused.
\<close>

lemma tlv_codec_exact:
  assumes "length bs \<le> isize_max"
  shows "parse_tlvs bs limits = Inr ts \<longleftrightarrow>
    write_tlvs ts = Inr bs \<and> length ts \<le> max_tlv_count limits \<and>
    list_all (\<lambda>t. length (tlv_value t) \<le> max_tlv_bytes limits) ts"
  using parse_tlvs_iff_write_tlvs [OF assms] by simp

lemma tlv_codec_exact_witness:
  "parse_tlvs [0x40, 1, 0, 0, 0, 7, 0, 0] default_limits = Inr [\<lparr> tlv_type_id = 0x40, tlv_value = [7] \<rparr>] \<and>
   parse_tlvs [0x40, 1, 0, 0, 0, 7, 0, 9] default_limits \<noteq> Inr [\<lparr> tlv_type_id = 0x40, tlv_value = [7] \<rparr>]"
  using tlv_codec_exact [of "[0x40, 1, 0, 0, 0, 7, 0, 0]" default_limits "[\<lparr> tlv_type_id = 0x40, tlv_value = [7] \<rparr>]"]
    tlv_codec_exact [of "[0x40, 1, 0, 0, 0, 7, 0, 9]" default_limits "[\<lparr> tlv_type_id = 0x40, tlv_value = [7] \<rparr>]"]
  by (simp add: isize_max_def write_tlvs_eq tlv_ok_def classify_type_def tlv_wire_def byte_def tlv_pad_def
      le_bytes_numeral default_limits_def replicate_numeral)

end
