(* ===== verification/Sar_Fec.thy ===== *)
theory Sar_Fec
  imports Sar_Fec_Xor Sar_Rs Sar_Tlv
begin

text \<open>
  The callers of the two codecs: the dispatch of \<^verbatim>\<open>crates/sar-fec/src/registry.rs\<close>, the summaries of
  \<^verbatim>\<open>crates/sar-core/src/fec.rs\<close> and the settings of the archive writer
  (\<^verbatim>\<open>crates/sar-archive/src/archive.rs\<close>).  The lemmas show that a stored FEC value has the length that
  the writer computed for it in advance, and that a reader accepts it and sees the writer's settings.
\<close>

section \<open>Registry\<close>

definition parse_fec_value :: "u8 \<Rightarrow> bytes \<Rightarrow> FecError + FecMeta" where
  "parse_fec_value algo_id value_data =
     (if algo_id = 0x11 then
        bindR (RsCodec_from_fec_value value_data) (\<lambda>codec.
        bindR (rs_validate codec value_data) (\<lambda>_.
        bindR (parse_rs_meta value_data) (\<lambda>m. Inr (FecMeta.Rs m))))
      else if algo_id = 0x14 then
        bindR (XorCodec_from_fec_value value_data) (\<lambda>codec.
        bindR (xor_validate codec value_data) (\<lambda>_.
        bindR (parse_xor_meta value_data) (\<lambda>m. Inr (FecMeta.Xor m))))
      else if algo_id = 0x10 \<or> (0x17 \<le> algo_id \<and> algo_id \<le> 0x1F) then Inl FecError.ReservedValue
      else if algo_id = 0x12 \<or> algo_id = 0x13 \<or> algo_id = 0x15 \<or> algo_id = 0x16 then Inl FecError.Unsupported
      else Inl FecError.ReservedValue)"

definition encode_fec :: "u8 \<Rightarrow> bytes \<Rightarrow> u8 \<Rightarrow> u8 \<Rightarrow> u32 option \<Rightarrow> FecError + FecValue" where
  "encode_fec algo_id protected config0 config1 symbol_size_for_rs =
     (if algo_id = 0x11 then
        bindR (ok_or symbol_size_for_rs FecError.Malformed) (\<lambda>symbol_size.
        bindR (RsCodec_new config0 config1 symbol_size) (\<lambda>codec. rs_encode_recovery codec protected))
      else if algo_id = 0x14 then
        bindR (XorCodec_new config0 config1) (\<lambda>codec. xor_encode_recovery codec protected)
      else if algo_id = 0x10 \<or> (0x17 \<le> algo_id \<and> algo_id \<le> 0x1F) then Inl FecError.ReservedValue
      else Inl FecError.Unsupported)"

section \<open>Summaries\<close>

datatype FecSummary =
  XorSummary (xs_algo_id: u8) (xs_stripe_size: u8) (xs_block_size: u32) (xs_original_protected_len: u64)
    (xs_stripe_count: u32) (xs_parity_data_len: nat)
| ReedSolomonSummary (rs_algo_id: u8) (rs_k: u8) (rs_parity_count: u8) (rs_symbol_size: u32)
    (rs_original_protected_len: u64) (rs_group_count: u32) (rs_parity_data_len: nat)

definition FecSummary_from_meta :: "u8 \<Rightarrow> FecMeta \<Rightarrow> FecSummary" where
  "FecSummary_from_meta algo_id meta = (case meta of
     FecMeta.Xor m \<Rightarrow> XorSummary algo_id (xm_stripe_size m) (xm_block_size m) (xm_original_protected_len m)
       (xm_stripe_count m) (xm_parity_data_len m)
   | FecMeta.Rs m \<Rightarrow> ReedSolomonSummary algo_id (rm_k m) (rm_parity_count m) (rm_symbol_size m)
       (rm_original_protected_len m) (rm_group_count m) (rm_parity_data_len m))"

definition validate_recovery_tlv :: "u8 \<Rightarrow> bytes \<Rightarrow> ResourceLimits \<Rightarrow> SarError + FecSummary" where
  "validate_recovery_tlv type_id v limits =
     bindR (classify_recovery_tlv_id type_id) (\<lambda>_.
     if type_id = 0 then Inl SarError.Malformed else
     bindR (check_fec_value_bytes limits (length v)) (\<lambda>_.
     bindR (map_err SarError_from_FecError (parse_fec_value type_id v)) (\<lambda>meta.
     Inr (FecSummary_from_meta type_id meta))))"

definition validate_lfh_fec_algo_id :: "u8 \<Rightarrow> SarError + unit" where
  "validate_lfh_fec_algo_id algo_id = map_err SarError_from_FecError (validate_fec_algo_id algo_id)"

definition parse_lfh_fec_value :: "u8 \<Rightarrow> bytes \<Rightarrow> ResourceLimits \<Rightarrow> SarError + FecSummary option" where
  "parse_lfh_fec_value algo_id fec_value limits =
     (if algo_id = 0 then Inr None else
      bindR (validate_lfh_fec_algo_id algo_id) (\<lambda>_.
      if fec_value = [] then Inl SarError.InvalidLength else
      bindR (check_fec_value_bytes limits (length fec_value)) (\<lambda>_.
      bindR (map_err SarError_from_FecError (parse_fec_value algo_id fec_value)) (\<lambda>meta.
      Inr (Some (FecSummary_from_meta algo_id meta))))))"

section \<open>Settings of the archive writer\<close>

record FecSettings =
  fs_algo_id :: u8
  fs_config0 :: u8
  fs_config1 :: u8
  fs_symbol_size :: u32

definition FecSettings_default_xor :: FecSettings where
  "FecSettings_default_xor = \<lparr> fs_algo_id = FEC_ALGO_XOR, fs_config0 = 4, fs_config1 = 4, fs_symbol_size = 0 \<rparr>"

definition FecSettings_default_rs :: FecSettings where
  "FecSettings_default_rs = \<lparr> fs_algo_id = FEC_ALGO_REED_SOLOMON, fs_config0 = 4, fs_config1 = 2, fs_symbol_size = 256 \<rparr>"

definition validate_writer_fec_settings :: "FecSettings \<Rightarrow> SarError + unit" where
  "validate_writer_fec_settings fec =
     (if fs_algo_id fec = FEC_ALGO_XOR then
        bindR (map_err SarError_from_FecError (XorCodec_new (fs_config0 fec) (fs_config1 fec))) (\<lambda>_. Inr ())
      else if fs_algo_id fec = FEC_ALGO_REED_SOLOMON then
        bindR (map_err SarError_from_FecError (RsCodec_new (fs_config0 fec) (fs_config1 fec) (fs_symbol_size fec))) (\<lambda>_. Inr ())
      else Inl SarError.Unsupported)"

definition compute_fec_value :: "FecSettings \<Rightarrow> bytes \<Rightarrow> SarError + bytes" where
  "compute_fec_value fec protected =
     bindR (if fs_algo_id fec = FEC_ALGO_XOR then
        bindR (map_err SarError_from_FecError (XorCodec_new (fs_config0 fec) (fs_config1 fec))) (\<lambda>codec.
        map_err SarError_from_FecError (xor_encode_recovery codec protected))
      else if fs_algo_id fec = FEC_ALGO_REED_SOLOMON then
        bindR (map_err SarError_from_FecError (RsCodec_new (fs_config0 fec) (fs_config1 fec) (fs_symbol_size fec))) (\<lambda>codec.
        map_err SarError_from_FecError (rs_encode_recovery codec protected))
      else Inl SarError.Unsupported) (\<lambda>fec_value.
     Inr (fv_data fec_value))"

definition archive_ceil_div_u64 :: "u64 \<Rightarrow> u64 \<Rightarrow> SarError + u64" where
  "archive_ceil_div_u64 a b =
     (if b = 0 then Inl SarError.Overflow else
      bindR (ok_or (checked_add_word a (b - 1)) SarError.Overflow) (\<lambda>s. Inr (s div b)))"

definition writer_block_size :: "u8 \<Rightarrow> SarError + u64" where
  "writer_block_size config1 =
     ok_or (map_of [(0x00, 256), (0x01, 512), (0x02, 1024), (0x03, 2048), (0x04, 4096), (0x05, 8192),
       (0x06, 16384), (0x07, 32768), (0x08, 65536)] config1) SarError.ReservedValue"

definition compute_fec_value_len :: "FecSettings \<Rightarrow> nat \<Rightarrow> SarError + nat" where
  "compute_fec_value_len fec protected_len =
     bindR (ok_or (word_of_usize protected_len) SarError.Overflow) (\<lambda>(original_len :: u64).
     if fs_algo_id fec = FEC_ALGO_XOR then
       bindR (map_err SarError_from_FecError (XorCodec_new (fs_config0 fec) (fs_config1 fec))) (\<lambda>_.
       bindR (writer_block_size (fs_config1 fec)) (\<lambda>block_size.
       bindR (ok_or (checked_mul_word (ucast (fs_config0 fec)) block_size) SarError.Overflow) (\<lambda>stripe_bytes.
       bindR (archive_ceil_div_u64 original_len stripe_bytes) (\<lambda>stripe_count.
       bindR (ok_or (checked_mul_word stripe_count block_size) SarError.Overflow) (\<lambda>parity_len.
       if parity_len > 256 * 1024 * 1024 then Inl SarError.LimitExceeded else
       ok_or (usize_of_word (14 + parity_len)) SarError.Overflow)))))
     else if fs_algo_id fec = FEC_ALGO_REED_SOLOMON then
       bindR (map_err SarError_from_FecError (RsCodec_new (fs_config0 fec) (fs_config1 fec) (fs_symbol_size fec))) (\<lambda>_.
       bindR (ok_or (checked_mul_word (ucast (fs_config0 fec)) (ucast (fs_symbol_size fec))) SarError.Overflow) (\<lambda>group_bytes.
       bindR (archive_ceil_div_u64 original_len group_bytes) (\<lambda>group_count.
       bindR (ok_or (checked_mul_word group_count (ucast (fs_config1 fec))) SarError.Overflow) (\<lambda>m.
       bindR (ok_or (checked_mul_word m (ucast (fs_symbol_size fec))) SarError.Overflow) (\<lambda>parity_len.
       if parity_len > 256 * 1024 * 1024 then Inl SarError.LimitExceeded else
       ok_or (usize_of_word (18 + parity_len)) SarError.Overflow)))))
     else Inl SarError.Unsupported)"

section \<open>Length of a value, computed in advance\<close>

lemma archive_ceil_div_eq:
  "archive_ceil_div_u64 a b = (case xor_ceil_div a b of Inr q \<Rightarrow> Inr q | Inl _ \<Rightarrow> Inl SarError.Overflow)"
  by (simp add: archive_ceil_div_u64_def xor_ceil_div_def bindR_def split: sum.split option.split)
    (cases "checked_add_word a (b - 1)"; simp)

text \<open>The number of rows as the writer computes it, without the narrowing to 32 bits.\<close>

lemma archive_ceil_div_Inr:
  assumes "unat e = k * s" "0 < k" "0 < s" "n < 2 ^ 64"
  shows "archive_ceil_div_u64 (of_nat n) e = Inr q \<longleftrightarrow> n + k * s - 1 < 2 ^ 64 \<and> unat q = stripes (k * s) n"
proof -
  have "e \<noteq> 0"
    using assms(1-3) by (auto simp: unat_gt_0 [symmetric])
  then have "xor_ceil_div (of_nat n) e = Inr q \<longleftrightarrow> n + k * s - 1 < 2 ^ 64 \<and> unat q = stripes (k * s) n"
    using assms(1,4) by (simp add: xor_ceil_div_Inr stripes_def)
  moreover have "archive_ceil_div_u64 (of_nat n) e = Inr q \<longleftrightarrow> xor_ceil_div (of_nat n) e = Inr q"
    by (simp add: archive_ceil_div_eq split: sum.split)
  ultimately show ?thesis
    by simp
qed

lemma checked_mul_Some_unat:
  "(\<exists>w. checked_mul_word a b = Some w \<and> P (unat w)) \<longleftrightarrow> unat a * unat b < 2 ^ 64 \<and> P (unat a * unat (b :: u64))"
  unfolding checked_mul_word_Some by (auto intro!: exI [of _ "of_nat (unat a * unat b)"] simp del: of_nat_mult)

lemma parity_limit_word: "268435456 < (w :: u64) \<longleftrightarrow> 268435456 < unat w"
  by (simp add: word_less_nat_alt)

lemma unat_plus_small: "unat (w :: u64) \<le> 268435456 \<Longrightarrow> unat (14 + w) = 14 + unat w \<and> unat (18 + w) = 18 + unat w"
  by (simp add: unat_plus_if_size word_size)

lemma writer_block_size_eq: "map_of BLOCK_SIZE_TABLE i = Some bs \<Longrightarrow> writer_block_size i = Inr (ucast bs)"
  by (auto simp: writer_block_size_def BLOCK_SIZE_TABLE_def split: if_splits)

text \<open>The end of both branches of \<^verbatim>\<open>compute_fec_value_len\<close>.\<close>

lemma len_tail:
  "\<not> 268435456 < w \<and> (\<not> 268435456 < w \<longrightarrow> A \<and> unat (14 + w) = l) \<longleftrightarrow> A \<and> unat (w :: u64) \<le> 268435456 \<and> l = 14 + unat w"
  "\<not> 268435456 < w \<and> (\<not> 268435456 < w \<longrightarrow> A \<and> unat (18 + w) = l) \<longleftrightarrow> A \<and> unat (w :: u64) \<le> 268435456 \<and> l = 18 + unat w"
  using unat_plus_small [of w] by (auto simp: parity_limit_word)

lemma ex_word_unat: "(\<exists>q :: u64. (C \<and> unat q = t) \<and> P (unat q)) \<longleftrightarrow> C \<and> t < 2 ^ 64 \<and> P t"
  by (auto intro!: exI [of _ "of_nat t :: u64"])

lemma fec_len_xor:
  assumes "fs_algo_id fec = FEC_ALGO_XOR" "XorCodec_new (fs_config0 fec) (fs_config1 fec) = Inr c"
  shows "compute_fec_value_len fec (length p) = Inr l \<longleftrightarrow> xor_encodable c p \<and> l = HEADER_SIZE + xor_total c p * c_bs c"
proof -
  have ok: "codec_ok c" "xc_stripe_size c = fs_config0 fec" "xc_block_size_index c = fs_config1 fec"
    using assms(2) by (simp_all add: XorCodec_new_Inr)
  note rng = codec_range [OF ok(1)]
  let ?e = "of_nat (c_ss c * c_bs c) :: u64"
  have e: "unat ?e = c_ss c * c_bs c" "checked_mul_word (ucast (fs_config0 fec)) (ucast (xc_block_size c)) = Some ?e"
    using codec_sizes(3) [OF ok(1)] by (simp_all add: checked_mul_word_Some unat_ucast_up ok(2) del: of_nat_mult)
  have bs: "map_of BLOCK_SIZE_TABLE (fs_config1 fec) = Some (xc_block_size c)"
    using ok by (simp add: codec_ok_def)
  have small: "xor_total c p < 2 ^ 32" if "xor_total c p * c_bs c \<le> MAX_PARITY_SIZE"
  proof -
    have "xor_total c p * 256 \<le> xor_total c p * c_bs c"
      using rng by simp
    with that have "xor_total c p * 256 \<le> MAX_PARITY_SIZE"
      by linarith
    then show ?thesis
      by (simp add: MAX_PARITY_SIZE_def)
  qed
  have "compute_fec_value_len fec (length p) = Inr l \<longleftrightarrow> length p < 2 ^ 64 \<and>
      (\<exists>q. archive_ceil_div_u64 (of_nat (length p)) ?e = Inr q \<and>
        (\<exists>w. checked_mul_word q (ucast (xc_block_size c)) = Some w \<and> unat w \<le> MAX_PARITY_SIZE \<and> l = 14 + unat w))"
    by (simp add: len_tail compute_fec_value_len_def assms writer_block_size_eq [OF bs] e(2) bindR_eq_Inr word_of_usize_def
        MAX_PARITY_SIZE_def del: of_nat_mult)
  also have "\<dots> \<longleftrightarrow> length p < 2 ^ 64 \<and> length p + c_ss c * c_bs c - 1 < 2 ^ 64 \<and>
      xor_total c p * c_bs c \<le> MAX_PARITY_SIZE \<and> l = 14 + xor_total c p * c_bs c"
  proof -
    have ceil: "archive_ceil_div_u64 (of_nat (length p)) ?e = Inr q \<longleftrightarrow>
        length p + c_ss c * c_bs c - 1 < 2 ^ 64 \<and> unat q = xor_total c p" if "length p < 2 ^ 64" for q
      using archive_ceil_div_Inr [OF e(1) _ _ that] rng by (simp add: xor_total_def)
    have mul: "(\<exists>w. checked_mul_word q (ucast (xc_block_size c)) = Some w \<and> unat w \<le> MAX_PARITY_SIZE \<and> l = 14 + unat w) \<longleftrightarrow>
        unat q * c_bs c \<le> MAX_PARITY_SIZE \<and> l = 14 + unat q * c_bs c" for q :: u64
      using checked_mul_Some_unat [of q "ucast (xc_block_size c)" "\<lambda>w. w \<le> MAX_PARITY_SIZE \<and> l = 14 + w"]
      by (auto simp: unat_ucast_up MAX_PARITY_SIZE_def)
    have "xor_total c p < 2 ^ 64" if "xor_total c p * c_bs c \<le> MAX_PARITY_SIZE"
      using small [OF that] by simp
    then show ?thesis
      unfolding mul
      by (cases "length p < 2 ^ 64")
        (auto simp only: ceil ex_word_unat [where P = "\<lambda>q. q * c_bs c \<le> MAX_PARITY_SIZE \<and> l = 14 + q * c_bs c"])
  qed
  finally show ?thesis
    using small by (auto simp: xor_encodable_def HEADER_SIZE_def)
qed

lemma fec_len_rs:
  assumes "fs_algo_id fec = FEC_ALGO_REED_SOLOMON" "RsCodec_new (fs_config0 fec) (fs_config1 fec) (fs_symbol_size fec) = Inr c"
  shows "compute_fec_value_len fec (length p) = Inr l \<longleftrightarrow>
    rs_encodable c p \<and> l = RS_HEADER_SIZE + rs_total c p * r_pc c * r_ss c"
proof -
  have ok: "rs_ok c" "rc_k c = fs_config0 fec" "rc_parity_count c = fs_config1 fec" "rc_symbol_size c = fs_symbol_size fec"
    using assms(2) by (simp_all add: RsCodec_new_Inr)
  note rng = rs_range [OF ok(1)]
  let ?e = "of_nat (r_k c * r_ss c) :: u64"
  have e: "unat ?e = r_k c * r_ss c" "checked_mul_word (ucast (fs_config0 fec)) (ucast (fs_symbol_size fec)) = Some ?e"
    using rs_sizes [OF ok(1)] by (simp_all add: checked_mul_word_Some unat_ucast_up flip: ok(2,4) del: of_nat_mult)
  have small: "rs_total c p < 2 ^ 32" if "rs_total c p * r_pc c * r_ss c \<le> RS_MAX_PARITY_SIZE"
  proof -
    have "rs_total c p * 1 * 1 \<le> rs_total c p * r_pc c * r_ss c"
      using rng by (intro mult_le_mono) simp_all
    with that have "rs_total c p \<le> RS_MAX_PARITY_SIZE"
      by linarith
    then show ?thesis
      by (simp add: RS_MAX_PARITY_SIZE_def)
  qed
  have xor: "fs_algo_id fec \<noteq> FEC_ALGO_XOR"
    using assms(1) by (simp add: FEC_ALGO_XOR_def FEC_ALGO_REED_SOLOMON_def)
  have "compute_fec_value_len fec (length p) = Inr l \<longleftrightarrow> length p < 2 ^ 64 \<and>
      (\<exists>q. archive_ceil_div_u64 (of_nat (length p)) ?e = Inr q \<and>
        (\<exists>m. checked_mul_word q (ucast (rc_parity_count c)) = Some m \<and>
          (\<exists>w. checked_mul_word m (ucast (rc_symbol_size c)) = Some w \<and> unat w \<le> RS_MAX_PARITY_SIZE \<and> l = 18 + unat w)))"
    using xor by (simp add: len_tail compute_fec_value_len_def assms e(2) bindR_eq_Inr word_of_usize_def ok(3,4)
        RS_MAX_PARITY_SIZE_def del: of_nat_mult)
  also have "\<dots> \<longleftrightarrow> length p < 2 ^ 64 \<and> length p + r_k c * r_ss c - 1 < 2 ^ 64 \<and>
      rs_total c p * r_pc c * r_ss c \<le> RS_MAX_PARITY_SIZE \<and> l = 18 + rs_total c p * r_pc c * r_ss c"
  proof -
    have ceil: "archive_ceil_div_u64 (of_nat (length p)) ?e = Inr q \<longleftrightarrow>
        length p + r_k c * r_ss c - 1 < 2 ^ 64 \<and> unat q = rs_total c p" if "length p < 2 ^ 64" for q
      using archive_ceil_div_Inr [OF e(1) _ _ that] rng by (simp add: rs_total_def)
    have mul: "(\<exists>w. checked_mul_word m (ucast (rc_symbol_size c)) = Some w \<and> unat w \<le> RS_MAX_PARITY_SIZE \<and> l = 18 + unat w) \<longleftrightarrow>
        unat m * r_ss c \<le> RS_MAX_PARITY_SIZE \<and> l = 18 + unat m * r_ss c" for m :: u64
      using checked_mul_Some_unat [of m "ucast (rc_symbol_size c)" "\<lambda>w. w \<le> RS_MAX_PARITY_SIZE \<and> l = 18 + w"]
      by (auto simp: unat_ucast_up RS_MAX_PARITY_SIZE_def)
    have mul2: "(\<exists>m. checked_mul_word q (ucast (rc_parity_count c)) = Some m \<and>
          unat m * r_ss c \<le> RS_MAX_PARITY_SIZE \<and> l = 18 + unat m * r_ss c) \<longleftrightarrow>
        unat q * r_pc c * r_ss c \<le> RS_MAX_PARITY_SIZE \<and> l = 18 + unat q * r_pc c * r_ss c" for q :: u64
    proof -
      have "unat q * r_pc c \<le> unat q * r_pc c * r_ss c"
        using rng by simp
      moreover have "RS_MAX_PARITY_SIZE < 2 ^ 64"
        by (simp add: RS_MAX_PARITY_SIZE_def)
      ultimately have "unat q * r_pc c < 2 ^ 64" if "unat q * r_pc c * r_ss c \<le> RS_MAX_PARITY_SIZE"
        using that by linarith
      then show ?thesis
        using checked_mul_Some_unat [of q "ucast (rc_parity_count c)" "\<lambda>m. m * r_ss c \<le> RS_MAX_PARITY_SIZE \<and> l = 18 + m * r_ss c"]
        by (auto simp: unat_ucast_up)
    qed
    have "rs_total c p < 2 ^ 64" if "rs_total c p * r_pc c * r_ss c \<le> RS_MAX_PARITY_SIZE"
      using small [OF that] by simp
    then show ?thesis
      unfolding mul mul2
      by (cases "length p < 2 ^ 64") (auto simp only: ceil
          ex_word_unat [where P = "\<lambda>q. q * r_pc c * r_ss c \<le> RS_MAX_PARITY_SIZE \<and> l = 18 + q * r_pc c * r_ss c"])
  qed
  finally show ?thesis
    using small by (auto simp: rs_encodable_def RS_HEADER_SIZE_def)
qed

section \<open>What a reader sees of a stored value\<close>

text \<open>The summary that belongs to settings and protected bytes.\<close>

definition expected_summary :: "FecSettings \<Rightarrow> bytes \<Rightarrow> FecSummary" where
  "expected_summary fec p =
     (if fs_algo_id fec = FEC_ALGO_XOR then
        let c = xor_config (fs_config0 fec) (fs_config1 fec); n = xor_total c p in
        XorSummary (fs_algo_id fec) (fs_config0 fec) (xc_block_size c) (of_nat (length p)) (of_nat n) (n * c_bs c)
      else
        let c = rs_config (fs_config0 fec) (fs_config1 fec) (fs_symbol_size fec); n = rs_total c p in
        ReedSolomonSummary (fs_algo_id fec) (fs_config0 fec) (fs_config1 fec) (fs_symbol_size fec)
          (of_nat (length p)) (of_nat n) (n * r_pc c * r_ss c))"

lemma xor_value_summary:
  assumes "XorCodec_new ss bi = Inr c" "xor_encode_recovery c p = Inr v"
  shows "parse_fec_value FEC_ALGO_XOR (fv_data v) = Inr (FecMeta.Xor \<lparr> xm_stripe_size = ss, xm_block_size = xc_block_size c,
      xm_original_protected_len = of_nat (length p), xm_stripe_count = of_nat (xor_total c p),
      xm_parity_data_len = xor_total c p * c_bs c \<rparr>)"
    "length (fv_data v) = HEADER_SIZE + xor_total c p * c_bs c"
proof -
  have ok: "codec_ok c" "xc_stripe_size c = ss"
    using assms(1) by (simp_all add: XorCodec_new_Inr)
  obtain par where par: "fv_data v = [xc_stripe_size c, xc_block_size_index c] @
      le_bytes 8 (of_nat (length p) :: u64) @ le_bytes 4 (of_nat (xor_total c p) :: u32) @ par"
    "length par = xor_total c p * c_bs c"
    using xor_encode_Inr(3) [OF ok(1) assms(2)] by auto
  have "xor_encodable c p"
    by (rule xor_encode_Inr(1) [OF ok(1) assms(2)])
  then have u: "unat (of_nat (xor_total c p) :: u32) = xor_total c p"
    by (simp add: xor_encodable_def)
  have "XorCodec_new (xc_stripe_size c) (xc_block_size_index c) = Inr c"
    using ok(1) by (simp add: XorCodec_new_Inr)
  then have from_value: "XorCodec_from_fec_value (fv_data v) = Inr c"
    by (simp add: par(1) XorCodec_from_fec_value_def)
  have "xor_parity_len (of_nat (xor_total c p)) (xc_block_size c) = Inr (xor_total c p * c_bs c)"
    by (simp add: xor_parity_len_Inr u)
  then have "parse_xor_meta (fv_data v) = Inr \<lparr> xm_stripe_size = ss, xm_block_size = xc_block_size c,
      xm_original_protected_len = of_nat (length p), xm_stripe_count = of_nat (xor_total c p),
      xm_parity_data_len = xor_total c p * c_bs c \<rparr>"
    unfolding parse_xor_meta_def par(1) xor_header [OF ok(1)] by (simp add: ok(2))
  then show "parse_fec_value FEC_ALGO_XOR (fv_data v) = Inr (FecMeta.Xor \<lparr> xm_stripe_size = ss, xm_block_size = xc_block_size c,
      xm_original_protected_len = of_nat (length p), xm_stripe_count = of_nat (xor_total c p),
      xm_parity_data_len = xor_total c p * c_bs c \<rparr>)"
    by (simp add: parse_fec_value_def FEC_ALGO_XOR_def from_value xor_encode_validates [OF ok(1) assms(2)])
  show "length (fv_data v) = HEADER_SIZE + xor_total c p * c_bs c"
    by (simp add: par HEADER_SIZE_def)
qed

lemma rs_value_summary:
  assumes "RsCodec_new k pc ss = Inr c" "rs_encode_recovery c p = Inr v"
  shows "parse_fec_value FEC_ALGO_REED_SOLOMON (fv_data v) = Inr (FecMeta.Rs \<lparr> rm_k = k, rm_parity_count = pc,
      rm_symbol_size = ss, rm_original_protected_len = of_nat (length p), rm_group_count = of_nat (rs_total c p),
      rm_parity_data_len = rs_total c p * r_pc c * r_ss c \<rparr>)"
    "length (fv_data v) = RS_HEADER_SIZE + rs_total c p * r_pc c * r_ss c"
proof -
  have ok: "rs_ok c" "rc_k c = k" "rc_parity_count c = pc" "rc_symbol_size c = ss"
    using assms(1) by (simp_all add: RsCodec_new_Inr)
  obtain par where par: "rs_encodable c p" "fv_data v = rs_layout c p par" "length par = rs_total c p * r_pc c * r_ss c"
    using rs_encode_Inr [OF ok(1) assms(2)] by metis
  then have u: "unat (of_nat (rs_total c p) :: u32) = rs_total c p"
    by (simp add: rs_encodable_def)
  have "parity_data_len (of_nat (rs_total c p)) (rc_parity_count c) (rc_symbol_size c) = Inr (rs_total c p * r_pc c * r_ss c)"
    using par(1) by (simp add: parity_data_len_Inr u rs_encodable_def RS_MAX_PARITY_SIZE_def)
  then show "parse_fec_value FEC_ALGO_REED_SOLOMON (fv_data v) = Inr (FecMeta.Rs \<lparr> rm_k = k, rm_parity_count = pc,
      rm_symbol_size = ss, rm_original_protected_len = of_nat (length p), rm_group_count = of_nat (rs_total c p),
      rm_parity_data_len = rs_total c p * r_pc c * r_ss c \<rparr>)"
    by (simp add: parse_fec_value_def FEC_ALGO_REED_SOLOMON_def par RsCodec_from_layout [OF ok(1)] rs_validates [OF ok(1)]
        parse_rs_meta_def rs_header [OF ok(1)] ok(2-4))
  show "length (fv_data v) = RS_HEADER_SIZE + rs_total c p * r_pc c * r_ss c"
    by (simp add: par rs_layout_parts)
qed

lemma compute_fec_value_cases:
  assumes "compute_fec_value fec p = Inr d"
  obtains (xor) c v where "fs_algo_id fec = FEC_ALGO_XOR" "XorCodec_new (fs_config0 fec) (fs_config1 fec) = Inr c"
      "xor_encode_recovery c p = Inr v" "d = fv_data v"
  | (rs) c v where "fs_algo_id fec = FEC_ALGO_REED_SOLOMON"
      "RsCodec_new (fs_config0 fec) (fs_config1 fec) (fs_symbol_size fec) = Inr c" "rs_encode_recovery c p = Inr v" "d = fv_data v"
  using assms by (auto simp: compute_fec_value_def bindR_eq_Inr split: if_splits)

lemma fec_value_len:
  "(\<exists>v. compute_fec_value fec p = Inr v \<and> length v = n) \<longleftrightarrow> compute_fec_value_len fec (length p) = Inr n"
proof (cases "compute_fec_value_len fec (length p) = Inr n")
  case True
  consider c where "fs_algo_id fec = FEC_ALGO_XOR" "XorCodec_new (fs_config0 fec) (fs_config1 fec) = Inr c"
    | c where "fs_algo_id fec = FEC_ALGO_REED_SOLOMON" "RsCodec_new (fs_config0 fec) (fs_config1 fec) (fs_symbol_size fec) = Inr c"
    using True by (auto simp: compute_fec_value_len_def bindR_eq_Inr split: if_splits)
  then show ?thesis
  proof cases
    case 1
    then obtain v where "xor_encode_recovery c p = Inr v"
      using True fec_len_xor [OF 1] xor_encode_defined [of c p] by (auto simp: XorCodec_new_Inr)
    with 1 show ?thesis
      using True fec_len_xor [OF 1, of p n] xor_value_summary(2) [OF 1(2), of p v] by (auto simp: compute_fec_value_def)
  next
    case 2
    then have ok: "rs_ok c"
      by (simp add: RsCodec_new_Inr)
    have "\<exists>v. rs_encode_recovery c p = Inr v"
      unfolding rs_encode_exact [OF ok] using True fec_len_rs [OF 2, of p n]
      by (intro exI [of _ "\<lparr> fv_algo_id = _, fv_data = _ \<rparr>"]) simp
    then obtain v where "rs_encode_recovery c p = Inr v"
      by blast
    moreover have "FEC_ALGO_REED_SOLOMON \<noteq> FEC_ALGO_XOR"
      by (simp add: FEC_ALGO_XOR_def FEC_ALGO_REED_SOLOMON_def)
    ultimately show ?thesis
      using True 2 fec_len_rs [OF 2, of p n] rs_value_summary(2) [OF 2(2), of p v] by (auto simp: compute_fec_value_def)
  qed
next
  case False
  have "compute_fec_value_len fec (length p) = Inr (length d)" if "compute_fec_value fec p = Inr d" for d
    using that
  proof (cases rule: compute_fec_value_cases)
    case (xor c v)
    then show ?thesis
      using fec_len_xor [OF xor(1,2)] xor_value_summary(2) [OF xor(2,3)] xor_encode_Inr(1) [of c p v]
      by (simp add: XorCodec_new_Inr)
  next
    case (rs c v)
    then show ?thesis
      using fec_len_rs [OF rs(1,2)] rs_value_summary(2) [OF rs(2,3)] rs_encode_exact [of c p v]
      by (simp add: RsCodec_new_Inr)
  qed
  with False show ?thesis
    by auto
qed

lemma fec_value_read:
  assumes "compute_fec_value fec p = Inr d" "length d \<le> max_fec_value_bytes limits"
  shows "parse_lfh_fec_value (fs_algo_id fec) d limits = Inr (Some (expected_summary fec p))"
  using assms(1)
proof (cases rule: compute_fec_value_cases)
  case (xor c v)
  have "d \<noteq> []" "xor_config (fs_config0 fec) (fs_config1 fec) = c"
    using xor_value_summary(2) [OF xor(2,3)] xor(2,4) by (auto simp: HEADER_SIZE_def xor_config_def)
  moreover have "validate_fec_algo_id FEC_ALGO_XOR = Inr ()" "FEC_ALGO_XOR \<noteq> 0"
    by (simp_all add: validate_fec_algo_id_Inr) (simp add: FEC_ALGO_XOR_def)
  ultimately show ?thesis
    using xor_value_summary(1) [OF xor(2,3)] assms(2) xor
    by (simp add: parse_lfh_fec_value_def validate_lfh_fec_algo_id_def check_fec_value_bytes_def FecSummary_from_meta_def
        expected_summary_def Let_def not_less)
next
  case (rs c v)
  have "d \<noteq> []" "rs_config (fs_config0 fec) (fs_config1 fec) (fs_symbol_size fec) = c"
    using rs_value_summary(2) [OF rs(2,3)] rs(2,4) by (auto simp: RS_HEADER_SIZE_def rs_config_def RsCodec_new_Inr)
  moreover have "validate_fec_algo_id FEC_ALGO_REED_SOLOMON = Inr ()" "FEC_ALGO_REED_SOLOMON \<noteq> 0"
    "FEC_ALGO_REED_SOLOMON \<noteq> FEC_ALGO_XOR"
    by (simp_all add: validate_fec_algo_id_Inr) (simp_all add: FEC_ALGO_REED_SOLOMON_def FEC_ALGO_XOR_def)
  ultimately show ?thesis
    using rs_value_summary(1) [OF rs(2,3)] assms(2) rs
    by (simp add: parse_lfh_fec_value_def validate_lfh_fec_algo_id_def check_fec_value_bytes_def FecSummary_from_meta_def
        expected_summary_def Let_def not_less)
qed

text \<open>
  (C39) The FEC value of an entry, from the settings to the reader.  The length that the writer puts into
  the header before it has the payload parity is exactly the length of the value that it stores
  later, and one computation succeeds exactly when the other does.  A stored value within the limit of the
  reader is accepted there, and its summary shows the settings, the protected length and the
  row count of the writer.
\<close>

theorem fec_value_exact:
  "((\<exists>v. compute_fec_value fec p = Inr v \<and> length v = n) \<longleftrightarrow> compute_fec_value_len fec (length p) = Inr n) \<and>
   (\<forall>v. compute_fec_value fec p = Inr v \<and> length v \<le> max_fec_value_bytes limits \<longrightarrow>
     parse_lfh_fec_value (fs_algo_id fec) v limits = Inr (Some (expected_summary fec p)))"
  using fec_value_len fec_value_read by blast

lemma fec_value_exact_witness:
  "\<exists>v. compute_fec_value FecSettings_default_rs [1, 2, 3] = Inr v \<and> length v = 530 \<and>
     parse_lfh_fec_value FEC_ALGO_REED_SOLOMON v default_limits =
       Inr (Some (ReedSolomonSummary FEC_ALGO_REED_SOLOMON 4 2 256 3 1 512))"
proof -
  let ?f = FecSettings_default_rs
  have c: "RsCodec_new (fs_config0 ?f) (fs_config1 ?f) (fs_symbol_size ?f) = Inr (rs_config 4 2 256)"
    "fs_algo_id ?f = FEC_ALGO_REED_SOLOMON"
    by (simp_all add: FecSettings_default_rs_def RsCodec_new_def rs_config_def MAX_PARITY_COUNT_def)
  have total: "rs_total (rs_config 4 2 256) [1, 2, 3] = 1"
    by (simp add: rs_total_def rs_config_def stripes_def)
  then have "compute_fec_value_len ?f (length [1, 2, 3 :: u8]) = Inr 530"
    unfolding fec_len_rs [OF c(2,1)] by (simp add: rs_encodable_def rs_config_def RS_HEADER_SIZE_def RS_MAX_PARITY_SIZE_def)
  then obtain v where v: "compute_fec_value ?f [1, 2, 3] = Inr v" "length v = 530"
    using fec_value_exact [of ?f "[1, 2, 3]" 530 default_limits] by blast
  moreover have "530 \<le> max_fec_value_bytes default_limits"
    by (simp add: default_limits_def)
  ultimately have "parse_lfh_fec_value (fs_algo_id ?f) v default_limits = Inr (Some (expected_summary ?f [1, 2, 3]))"
    using fec_value_exact [of ?f "[1, 2, 3]" 530 default_limits] by simp
  moreover have "FEC_ALGO_REED_SOLOMON \<noteq> FEC_ALGO_XOR"
    by (simp add: FEC_ALGO_XOR_def FEC_ALGO_REED_SOLOMON_def)
  then have "expected_summary ?f [1, 2, 3] = ReedSolomonSummary FEC_ALGO_REED_SOLOMON 4 2 256 3 1 512"
    using total by (simp add: expected_summary_def FecSettings_default_rs_def Let_def) (simp add: rs_config_def)
  ultimately show ?thesis
    using v c(2) by auto
qed

end
