(* ===== verification/Sar_Std.thy ===== *)
theory Sar_Std
  imports Sar_Prelude "HOL-Library.Multiset"
begin

text \<open>
  Two pieces of the Rust standard library that several components use: the validity check of
  \<^verbatim>\<open>std::str::from_utf8\<close> and the ordered map \<^verbatim>\<open>BTreeMap\<close>.  A \<^verbatim>\<open>String\<close> is its bytes, with
  \<open>utf8_valid\<close> as the invariant of the type.  A \<^verbatim>\<open>BTreeMap\<close> is the list of its entries in key order;
  the interface \<open>finite_map\<close> states what the clients rely on and derives how sums over the
  entries change, which is what memory accounting needs.
\<close>

section \<open>UTF-8\<close>

definition utf8_cont :: "u8 \<Rightarrow> bool" where
  "utf8_cont b \<longleftrightarrow> 0x80 \<le> b \<and> b \<le> 0xBF"

definition utf8_lead3 :: "u8 \<Rightarrow> u8 \<Rightarrow> bool" where
  "utf8_lead3 a b \<longleftrightarrow> a = 0xE0 \<and> 0xA0 \<le> b \<and> b \<le> 0xBF \<or> 0xE1 \<le> a \<and> a \<le> 0xEC \<and> utf8_cont b \<or>
     a = 0xED \<and> 0x80 \<le> b \<and> b \<le> 0x9F \<or> 0xEE \<le> a \<and> a \<le> 0xEF \<and> utf8_cont b"

definition utf8_lead4 :: "u8 \<Rightarrow> u8 \<Rightarrow> bool" where
  "utf8_lead4 a b \<longleftrightarrow> a = 0xF0 \<and> 0x90 \<le> b \<and> b \<le> 0xBF \<or> 0xF1 \<le> a \<and> a \<le> 0xF3 \<and> utf8_cont b \<or>
     a = 0xF4 \<and> 0x80 \<le> b \<and> b \<le> 0x8F"

fun utf8_valid :: "bytes \<Rightarrow> bool" where
  "utf8_valid [] = True"
| "utf8_valid (a # bs) =
     (if a < 0x80 then utf8_valid bs else
      case bs of [] \<Rightarrow> False | b # cs \<Rightarrow>
      if 0xC2 \<le> a \<and> a \<le> 0xDF then utf8_cont b \<and> utf8_valid cs else
      case cs of [] \<Rightarrow> False | c # ds \<Rightarrow>
      if utf8_lead3 a b then utf8_cont c \<and> utf8_valid ds else
      case ds of [] \<Rightarrow> False | d # es \<Rightarrow> utf8_lead4 a b \<and> utf8_cont c \<and> utf8_cont d \<and> utf8_valid es)"

section \<open>Ordered maps\<close>

type_synonym ('k, 'v) btree = "('k \<times> 'v) list"

definition bt_get :: "('k, 'v) btree \<Rightarrow> 'k \<Rightarrow> 'v option" where
  "bt_get m k = map_of m k"

fun bt_insert :: "'k::linorder \<Rightarrow> 'v \<Rightarrow> ('k, 'v) btree \<Rightarrow> ('k, 'v) btree" where
  "bt_insert k v [] = [(k, v)]"
| "bt_insert k v ((j, w) # m) =
     (if k < j then (k, v) # (j, w) # m else if k = j then (k, v) # m else (j, w) # bt_insert k v m)"

definition bt_remove :: "'k \<Rightarrow> ('k, 'v) btree \<Rightarrow> ('k, 'v) btree" where
  "bt_remove k m = filter (\<lambda>(j, _). j \<noteq> k) m"

definition bt_ok :: "('k::linorder, 'v) btree \<Rightarrow> bool" where
  "bt_ok m \<longleftrightarrow> sorted_wrt (<) (map fst m)"

text \<open>The sum of a measure over the entries; the size of a map is the sum of ones.\<close>

definition total_of :: "('k \<times> 'v \<Rightarrow> nat) \<Rightarrow> ('k \<times> 'v) list \<Rightarrow> nat" where
  "total_of f es = sum_list (map f es)"

lemma length_total_of: "length es = total_of (\<lambda>_. 1) es"
  by (simp add: total_of_def sum_list_triv)

locale finite_map =
  fixes ok :: "'m \<Rightarrow> bool"
    and get :: "'m \<Rightarrow> 'k \<Rightarrow> 'v option"
    and put :: "'k \<Rightarrow> 'v \<Rightarrow> 'm \<Rightarrow> 'm"
    and del :: "'k \<Rightarrow> 'm \<Rightarrow> 'm"
    and entries :: "'m \<Rightarrow> ('k \<times> 'v) list"
  assumes ok_put: "ok m \<Longrightarrow> ok (put k v m)"
    and ok_del: "ok m \<Longrightarrow> ok (del k m)"
    and get_put: "ok m \<Longrightarrow> get (put k v m) j = (if j = k then Some v else get m j)"
    and get_del: "ok m \<Longrightarrow> get (del k m) j = (if j = k then None else get m j)"
    and entries_get: "ok m \<Longrightarrow> (j, w) \<in> set (entries m) \<longleftrightarrow> get m j = Some w"
    and distinct_entries: "ok m \<Longrightarrow> distinct (entries m)"
begin

lemma set_entries_put: "ok m \<Longrightarrow> set (entries (put k v m)) = insert (k, v) {(j, w) \<in> set (entries m). j \<noteq> k}"
  by (auto simp: entries_get ok_put get_put split: if_splits)

lemma set_entries_del: "ok m \<Longrightarrow> set (entries (del k m)) = {(j, w) \<in> set (entries m). j \<noteq> k}"
  by (auto simp: entries_get ok_del get_del split: if_splits)

lemma entries_split:
  "ok m \<Longrightarrow> get m k = Some v \<Longrightarrow> set (entries m) = insert (k, v) {(j, w) \<in> set (entries m). j \<noteq> k}"
  by (auto simp: entries_get)

lemma total_of_sum: "ok m \<Longrightarrow> total_of f (entries m) = sum f (set (entries m))"
  by (simp add: total_of_def sum_list_distinct_conv_sum_set distinct_entries)

lemma sum_insert_entry:
  "ok m \<Longrightarrow> sum f (insert (k, v) (set (entries (del k m)))) = f (k, v) + total_of f (entries (del k m))"
proof -
  assume "ok m"
  then have "(k, v) \<notin> set (entries (del k m))"
    by (auto simp: set_entries_del)
  with \<open>ok m\<close> show ?thesis
    by (simp add: total_of_sum ok_del)
qed

lemma total_del_None: "ok m \<Longrightarrow> get m k = None \<Longrightarrow> total_of f (entries (del k m)) = total_of f (entries m)"
proof -
  assume "ok m" "get m k = None"
  then have "set (entries (del k m)) = set (entries m)"
    by (auto simp: set_entries_del entries_get)
  with \<open>ok m\<close> show ?thesis
    by (simp add: total_of_sum ok_del)
qed

lemma total_put: "ok m \<Longrightarrow> total_of f (entries (put k v m)) = f (k, v) + total_of f (entries (del k m))"
proof -
  assume "ok m"
  then have "total_of f (entries (put k v m)) = sum f (insert (k, v) (set (entries (del k m))))"
    by (simp add: total_of_sum ok_put set_entries_put set_entries_del)
  also note sum_insert_entry [OF \<open>ok m\<close>]
  finally show ?thesis .
qed

lemma total_del: "ok m \<Longrightarrow> get m k = Some v \<Longrightarrow> f (k, v) + total_of f (entries (del k m)) = total_of f (entries m)"
proof -
  assume *: "ok m" "get m k = Some v"
  then have "total_of f (entries m) = sum f (insert (k, v) (set (entries (del k m))))"
    using entries_split [OF *] by (simp add: total_of_sum set_entries_del)
  also note sum_insert_entry [OF *(1)]
  finally show ?thesis
    by simp
qed

lemma total_put_new: "ok m \<Longrightarrow> get m k = None \<Longrightarrow> total_of f (entries (put k v m)) = f (k, v) + total_of f (entries m)"
  by (simp add: total_put total_del_None)

lemma total_put_old: "ok m \<Longrightarrow> get m k = Some w \<Longrightarrow> f (k, w) + total_of f (entries (put k v m)) = f (k, v) + total_of f (entries m)"
  by (simp add: total_put total_del [symmetric])

lemma total_ge: "ok m \<Longrightarrow> get m k = Some w \<Longrightarrow> f (k, w) \<le> total_of f (entries m)"
  by (simp add: total_del [symmetric])

end

lemma set_bt_insert: "bt_ok m \<Longrightarrow> set (bt_insert k v m) = insert (k, v) {(j, w) \<in> set m. j \<noteq> k}"
  by (induction k v m rule: bt_insert.induct) (auto simp: bt_ok_def)

lemma bt_ok_insert: "bt_ok m \<Longrightarrow> bt_ok (bt_insert k v m)"
proof (induction k v m rule: bt_insert.induct)
  case (2 k v j w m)
  have "fst ` set (bt_insert k v m) \<subseteq> insert k (fst ` set m)" if "bt_ok m"
    using set_bt_insert [OF that, of k v] by auto
  with 2 show ?case
    by (fastforce simp: bt_ok_def)
qed (simp add: bt_ok_def)

lemma bt_ok_distinct: "bt_ok m \<Longrightarrow> distinct (map fst m)"
  by (simp add: bt_ok_def strict_sorted_iff)

lemma bt_get_iff: "bt_ok m \<Longrightarrow> bt_get m k = Some v \<longleftrightarrow> (k, v) \<in> set m"
  by (simp add: bt_get_def bt_ok_distinct)

lemma bt_get_eqI:
  "bt_ok m \<Longrightarrow> (\<And>v. (k, v) \<in> set m \<longleftrightarrow> r = Some v) \<Longrightarrow> bt_get m k = r"
  by (cases "bt_get m k"; cases r) (auto simp: bt_get_iff [symmetric])

lemma bt_ok_remove: "bt_ok m \<Longrightarrow> bt_ok (bt_remove k m)"
  by (induction m) (auto simp: bt_ok_def bt_remove_def)

interpretation bt: finite_map bt_ok bt_get bt_insert bt_remove "\<lambda>m. m"
proof
  fix m :: "('a::linorder, 'b) btree" and k j v w
  assume ok: "bt_ok m"
  show "bt_get (bt_insert k v m) j = (if j = k then Some v else bt_get m j)"
    using ok by (intro bt_get_eqI bt_ok_insert) (auto simp: set_bt_insert bt_get_iff)
  show "bt_get (bt_remove k m) j = (if j = k then None else bt_get m j)"
    using ok by (intro bt_get_eqI bt_ok_remove) (auto simp: bt_get_iff bt_remove_def)
  show "(j, w) \<in> set m \<longleftrightarrow> bt_get m j = Some w"
    using ok by (simp add: bt_get_iff)
  show "distinct m"
    using bt_ok_distinct [OF ok] by (simp add: distinct_map)
qed (simp_all add: bt_ok_insert bt_ok_remove)

lemma bt_ok_Nil [simp]: "bt_ok []"
  by (simp add: bt_ok_def)

end
