(* ===== verification/Sar_Table.thy ===== *)
theory Sar_Table
  imports Sar_Prelude
begin

text \<open>
  Tables of fixed-size records.  Several parts of an archive are byte strings that hold records of
  \<open>k\<close> bytes one after the other; the readers cut the bytes into slices and decode each, the writers
  append the encodings.  The interface \<open>record_table\<close> states what one record's codec promises and
  derives that the table and the list of its records determine each other.
\<close>

lemma block_within: "length bs = n * k \<Longrightarrow> i < n \<Longrightarrow> i * k + k \<le> length bs"
  by (metis Suc_leI add.commute mult_Suc mult_le_mono1)

locale record_table =
  fixes k :: nat
    and dec :: "bytes \<Rightarrow> 'r"
    and enc :: "'r \<Rightarrow> bytes"
    and fits :: "'r \<Rightarrow> bool"
  assumes size_pos: "0 < k"
    and length_enc: "fits r \<Longrightarrow> length (enc r) = k"
    and dec_enc: "fits r \<Longrightarrow> dec (enc r) = r"
    and enc_dec: "length bs = k \<Longrightarrow> enc (dec bs) = bs \<and> fits (dec bs)"
begin

lemma encs_blocks: "list_all fits rs \<Longrightarrow> list_all (\<lambda>xs. length xs = k) (map enc rs)"
  by (simp add: list_all_iff length_enc)

lemma length_table: "list_all fits rs \<Longrightarrow> length (concat (map enc rs)) = length rs * k"
  using length_concat_blocks [OF encs_blocks, of rs] by simp

lemma table_write_read:
  assumes "list_all fits rs"
  shows "map (\<lambda>i. dec (slice (concat (map enc rs)) (i * k) k)) [0..<length rs] = rs"
proof (rule nth_equalityI)
  fix i assume "i < length (map (\<lambda>i. dec (slice (concat (map enc rs)) (i * k) k)) [0..<length rs])"
  then have i: "i < length rs"
    by simp
  then have "slice (concat (map enc rs)) (i * k) k = enc (rs ! i)"
    using slice_concat [OF encs_blocks [OF assms], of i] by simp
  with i assms show "map (\<lambda>i. dec (slice (concat (map enc rs)) (i * k) k)) [0..<length rs] ! i = rs ! i"
    by (simp add: dec_enc list_all_length)
qed simp

lemma table_read_write:
  assumes "length bs = n * k"
  shows "concat (map (\<lambda>i. enc (dec (slice bs (i * k) k))) [0..<n]) = bs"
    and "i < n \<Longrightarrow> fits (dec (slice bs (i * k) k))"
proof -
  have "length (slice bs (i * k) k) = k" if "i < n" for i
    using block_within [OF assms that] by simp
  note rec = enc_dec [OF this]
  have "map (\<lambda>i. enc (dec (slice bs (i * k) k))) [0..<n] = map (\<lambda>i. slice bs (i * k) k) [0..<n]"
    using rec by simp
  then have "concat (map (\<lambda>i. enc (dec (slice bs (i * k) k))) [0..<n]) = concat (map (\<lambda>i. slice bs (i * k) k) [0..<n])"
    by (rule arg_cong)
  also have "\<dots> = bs"
    by (rule concat_slices [OF assms])
  finally show "concat (map (\<lambda>i. enc (dec (slice bs (i * k) k))) [0..<n]) = bs" .
  show "i < n \<Longrightarrow> fits (dec (slice bs (i * k) k))"
    using rec by simp
qed

lemma table_exact:
  "length bs = n * k \<and> rs = map (\<lambda>i. dec (slice bs (i * k) k)) [0..<n] \<longleftrightarrow>
     length rs = n \<and> list_all fits rs \<and> bs = concat (map enc rs)"
proof
  assume "length bs = n * k \<and> rs = map (\<lambda>i. dec (slice bs (i * k) k)) [0..<n]"
  then have len: "length bs = n * k" and rs: "rs = map (\<lambda>i. dec (slice bs (i * k) k)) [0..<n]"
    by blast+
  have "list_all fits rs"
    unfolding rs using table_read_write(2) [OF len] by (simp add: list_all_iff)
  moreover have "concat (map enc rs) = bs"
    unfolding rs using table_read_write(1) [OF len] by (simp add: comp_def)
  moreover have "length rs = n"
    unfolding rs by simp
  ultimately show "length rs = n \<and> list_all fits rs \<and> bs = concat (map enc rs)"
    by blast
next
  assume a: "length rs = n \<and> list_all fits rs \<and> bs = concat (map enc rs)"
  then have "length bs = n * k"
    using length_table [of rs] by (simp only:)
  moreover have "map (\<lambda>i. dec (slice bs (i * k) k)) [0..<n] = rs"
    using a table_write_read [of rs] by (simp only:)
  ultimately show "length bs = n * k \<and> rs = map (\<lambda>i. dec (slice bs (i * k) k)) [0..<n]"
    by (simp only:)
qed

end

end
