(* ===== verification/Sar_Cdc.thy ===== *)
theory Sar_Cdc
  imports Sar_Limits Sar_Std Sar_Tlv Sar_Table
begin

text \<open>
  Content-defined chunking without the chunker: the algorithm registry, the chunk table and the
  \<^verbatim>\<open>CDC_MAP\<close> catalog of \<^verbatim>\<open>crates/sar-cdc/src\<close> (\<^verbatim>\<open>algo.rs\<close>, \<^verbatim>\<open>types.rs\<close>, \<^verbatim>\<open>map.rs\<close>, \<^verbatim>\<open>validate.rs\<close>) and
  the TLV layer over it in \<^verbatim>\<open>crates/sar-core/src/cdc.rs\<close>.  SHA-256 and BLAKE3 are the parameters
  \<open>sha256\<close> and \<open>blake3\<close>.  A 32-byte array is a byte list; \<open>record_fits\<close> states its length.
\<close>

section \<open>Registry\<close>

datatype CdcError = Unsupported | ReservedValue | Overflow | Bounds | Malformed | LimitExceeded | InvalidLength

definition CDC_ALGO_LITERAL :: u8 where "CDC_ALGO_LITERAL = 0x00"
definition CDC_ALGO_RABIN :: u8 where "CDC_ALGO_RABIN = 0x01"
definition CDC_ALGO_FASTCDC :: u8 where "CDC_ALGO_FASTCDC = 0x02"
definition CDC_ALGO_BUZHASH :: u8 where "CDC_ALGO_BUZHASH = 0x03"
definition CDC_ALGO_CUSTOM_MIN :: u8 where "CDC_ALGO_CUSTOM_MIN = 0xF0"
definition CDC_ALGO_CUSTOM_MAX :: u8 where "CDC_ALGO_CUSTOM_MAX = 0xFF"
definition CDC_RECIPE_HASH_LEN :: nat where "CDC_RECIPE_HASH_LEN = 32"

lemmas cdc_algo_defs = CDC_ALGO_LITERAL_def CDC_ALGO_RABIN_def CDC_ALGO_FASTCDC_def
  CDC_ALGO_BUZHASH_def CDC_ALGO_CUSTOM_MIN_def CDC_ALGO_CUSTOM_MAX_def

definition algo_name :: "u8 \<Rightarrow> string" where
  "algo_name algo_id =
     (if algo_id = CDC_ALGO_LITERAL then ''literal''
      else if algo_id = CDC_ALGO_RABIN then ''rabin''
      else if algo_id = CDC_ALGO_FASTCDC then ''fastcdc''
      else if algo_id = CDC_ALGO_BUZHASH then ''buzhash''
      else if CDC_ALGO_CUSTOM_MIN \<le> algo_id \<and> algo_id \<le> CDC_ALGO_CUSTOM_MAX then ''custom''
      else ''unknown'')"

definition cdc_validate_algo :: "u8 \<Rightarrow> CdcError + unit" where
  "cdc_validate_algo algo_id =
     (if algo_id = CDC_ALGO_LITERAL then Inr ()
      else if algo_id = CDC_ALGO_FASTCDC then Inr ()
      else if algo_id = 0x01 \<or> algo_id = 0x03 then Inl CdcError.Unsupported
      else if CDC_ALGO_CUSTOM_MIN \<le> algo_id \<and> algo_id \<le> CDC_ALGO_CUSTOM_MAX then Inl CdcError.Unsupported
      else Inl CdcError.ReservedValue)"

definition validate_cdc_map_hash_algo_id :: "u8 \<Rightarrow> CdcError + unit" where
  "validate_cdc_map_hash_algo_id algo_id =
     (if algo_id = 0x30 then Inr ()
      else if algo_id = 0x31 then Inr ()
      else if algo_id = 0x32 then Inl CdcError.Unsupported
      else Inl CdcError.ReservedValue)"

section \<open>Chunk table\<close>

record CdcChunk =
  ch_offset :: u64
  ch_length :: u64
  ch_hash :: "bytes option"

record CdcMetadata =
  cm_algorithm_id :: u8
  cm_min_size :: u32
  cm_avg_size :: u32
  cm_max_size :: u32
  cm_chunks :: "CdcChunk list"

text \<open>One iteration of the loop over the chunks; the state is \<^verbatim>\<open>cursor\<close>.\<close>

definition validate_chunk :: "u64 \<Rightarrow> CdcChunk \<Rightarrow> u64 \<Rightarrow> CdcError + u64" where
  "validate_chunk logical_size chunk cursor =
     (if ch_length chunk = 0 then Inl CdcError.InvalidLength else
      if ch_offset chunk \<noteq> cursor then Inl CdcError.Bounds else
      bindR (ok_or (checked_add_word (ch_offset chunk) (ch_length chunk)) CdcError.Overflow) (\<lambda>end_pos.
      if logical_size > 0 \<and> end_pos > logical_size then Inl CdcError.Bounds else Inr end_pos))"

definition validate_cdc_metadata :: "CdcMetadata \<Rightarrow> u64 \<Rightarrow> nat \<Rightarrow> CdcError + unit" where
  "validate_cdc_metadata meta logical_size max_chunks =
     (if length (cm_chunks meta) > max_chunks then Inl CdcError.LimitExceeded else
      bindR (foldR (validate_chunk logical_size) (cm_chunks meta) 0) (\<lambda>cursor.
      if logical_size > 0 \<and> cm_chunks meta \<noteq> [] \<and> cursor \<noteq> logical_size then Inl CdcError.Bounds
      else Inr ()))"

section \<open>The chunk catalog\<close>

definition CDC_MAP_VERSION_V1 :: u8 where "CDC_MAP_VERSION_V1 = 0x01"
definition CDC_MAP_HEADER_SIZE :: nat where "CDC_MAP_HEADER_SIZE = 16"
definition CDC_MAP_V1_RECORD_SIZE :: u16 where "CDC_MAP_V1_RECORD_SIZE = 48"
definition CDC_MAP_RECORD_LEN :: nat where "CDC_MAP_RECORD_LEN = 32 + 4 + 8 + 4"
definition CDC_MAP_MAX_RECORDS_DEFAULT :: nat where "CDC_MAP_MAX_RECORDS_DEFAULT = 1000000"
definition CDC_CHUNK_MAX_DEFAULT :: nat where "CDC_CHUNK_MAX_DEFAULT = 1000000"

lemmas cdc_map_consts = CDC_MAP_VERSION_V1_def CDC_MAP_HEADER_SIZE_def CDC_MAP_V1_RECORD_SIZE_def
  CDC_MAP_RECORD_LEN_def

record CdcMapRecord =
  mr_hash :: bytes
  mr_partition_id :: u32
  mr_absolute_offset :: u64
  mr_compressed_size :: u32

record CdcMap =
  map_hash_algorithm_id :: u8
  map_records :: "CdcMapRecord list"

text \<open>The record in the 48 bytes \<^verbatim>\<open>rec\<close>, one iteration of the parse loop.\<close>

definition parse_map_record :: "bytes \<Rightarrow> CdcMapRecord" where
  "parse_map_record rec = \<lparr>
     mr_hash = slice rec 0 32,
     mr_partition_id = from_le (slice rec 32 4),
     mr_absolute_offset = from_le (slice rec 36 8),
     mr_compressed_size = from_le (slice rec 44 4) \<rparr>"

definition parse_cdc_map :: "bytes \<Rightarrow> nat \<Rightarrow> CdcError + CdcMap" where
  "parse_cdc_map bytes max_records =
     (if length bytes < CDC_MAP_HEADER_SIZE then Inl CdcError.Malformed else
      let map_version = bytes ! 0 in
      if map_version \<noteq> CDC_MAP_VERSION_V1 then Inl CdcError.Unsupported else
      let hash_algorithm_id = bytes ! 1 in
      bindR (validate_cdc_map_hash_algo_id hash_algorithm_id) (\<lambda>_.
      let flags = (from_le (slice bytes 2 2) :: u16) in
      if flags \<noteq> 0 then Inl CdcError.Malformed else
      let record_count = (from_le (slice bytes 4 4) :: u32);
          record_size = (from_le (slice bytes 8 2) :: u16) in
      if record_size \<noteq> CDC_MAP_V1_RECORD_SIZE then Inl CdcError.Malformed else
      if list_ex (\<lambda>b. b \<noteq> 0) (slice bytes 10 6) then Inl CdcError.Malformed else
      bindR (ok_or (checked_mul_usize (unat record_count) CDC_MAP_RECORD_LEN) CdcError.Overflow) (\<lambda>records_bytes.
      bindR (ok_or (checked_add_usize records_bytes CDC_MAP_HEADER_SIZE) CdcError.Overflow) (\<lambda>expected_len.
      if length bytes \<noteq> expected_len then Inl CdcError.Malformed else
      if unat record_count > max_records then Inl CdcError.LimitExceeded else
      let count = unat record_count;
          records = map (\<lambda>i. parse_map_record
            (slice bytes (CDC_MAP_HEADER_SIZE + i * CDC_MAP_RECORD_LEN) CDC_MAP_RECORD_LEN)) [0..<count] in
      Inr \<lparr> map_hash_algorithm_id = hash_algorithm_id, map_records = records \<rparr>))))"

text \<open>The bytes appended for one record.\<close>

definition write_map_record :: "CdcMapRecord \<Rightarrow> bytes" where
  "write_map_record record = mr_hash record @ le_bytes 4 (mr_partition_id record) @
     le_bytes 8 (mr_absolute_offset record) @ le_bytes 4 (mr_compressed_size record)"

definition write_cdc_map :: "CdcMap \<Rightarrow> CdcError + bytes" where
  "write_cdc_map cmap =
     bindR (validate_cdc_map_hash_algo_id (map_hash_algorithm_id cmap)) (\<lambda>_.
     bindR (ok_or (word_of_usize (length (map_records cmap))) CdcError.Overflow) (\<lambda>(record_count_u32 :: u32).
     bindR (ok_or (checked_mul_usize (length (map_records cmap)) CDC_MAP_RECORD_LEN) CdcError.Overflow) (\<lambda>records_bytes.
     bindR (ok_or (checked_add_usize records_bytes CDC_MAP_HEADER_SIZE) CdcError.Overflow) (\<lambda>_.
     let out = [CDC_MAP_VERSION_V1, map_hash_algorithm_id cmap] @ le_bytes 2 (0 :: u16) @
           le_bytes 4 record_count_u32 @ le_bytes 2 CDC_MAP_V1_RECORD_SIZE @ replicate 6 0 in
     Inr (fold (\<lambda>record out. out @ write_map_record record) (map_records cmap) out)))))"

definition validate_cdc_map_bytes :: "bytes \<Rightarrow> nat \<Rightarrow> CdcError + unit" where
  "validate_cdc_map_bytes bytes max_records = bindR (parse_cdc_map bytes max_records) (\<lambda>_. Inr ())"

definition validate_cdc_map :: "CdcMap \<Rightarrow> nat \<Rightarrow> CdcError + unit" where
  "validate_cdc_map cmap max_records =
     (if length (map_records cmap) > max_records then Inl CdcError.LimitExceeded else
      foldR (\<lambda>record _. if mr_compressed_size record = 0 then Inl CdcError.InvalidLength else Inr ())
        (map_records cmap) ())"

definition verify_cdc_map_record_hash ::
  "(bytes \<Rightarrow> bytes) \<Rightarrow> (bytes \<Rightarrow> bytes) \<Rightarrow> CdcMapRecord \<Rightarrow> u8 \<Rightarrow> bytes \<Rightarrow> CdcError + bool" where
  "verify_cdc_map_record_hash sha256 blake3 record hash_algorithm_id archive_bytes =
     bindR (validate_cdc_map_hash_algo_id hash_algorithm_id) (\<lambda>_.
     bindR (ok_or (checked_add_word (mr_absolute_offset record) (ucast (mr_compressed_size record))) CdcError.Overflow)
       (\<lambda>end_u64.
     bindR (ok_or (usize_of_word (mr_absolute_offset record)) CdcError.Bounds) (\<lambda>start.
     bindR (ok_or (usize_of_word end_u64) CdcError.Bounds) (\<lambda>end_pos.
     if end_pos > length archive_bytes then Inl CdcError.Bounds else
     let chunk_bytes = slice archive_bytes start (end_pos - start) in
     bindR (if hash_algorithm_id = 0x30 then Inr (sha256 chunk_bytes)
            else if hash_algorithm_id = 0x31 then Inr (blake3 chunk_bytes)
            else Inl CdcError.Unsupported) (\<lambda>computed.
     Inr (computed = mr_hash record))))))"

section \<open>The TLV layer\<close>

definition TLV_DATA_HASH_BLAKE3 :: u8 where "TLV_DATA_HASH_BLAKE3 = 0x31"
definition TLV_CDC_MAP :: u8 where "TLV_CDC_MAP = 0x40"
definition TLV_CDC_EXT_PROVIDER :: u8 where "TLV_CDC_EXT_PROVIDER = 0x41"
definition TLV_CDC_CUSTOM :: u8 where "TLV_CDC_CUSTOM = 0x4F"



datatype CdcAlgoId = CdcAlgoId u8

primrec is_literal :: "CdcAlgoId \<Rightarrow> bool" where
  "is_literal (CdcAlgoId algo_id) = (algo_id = CDC_ALGO_LITERAL)"

primrec is_recipe_mode :: "CdcAlgoId \<Rightarrow> bool" where
  "is_recipe_mode (CdcAlgoId algo_id) = (algo_id \<noteq> CDC_ALGO_LITERAL)"

primrec cdc_err_to_sar :: "CdcError \<Rightarrow> SarError" where
  "cdc_err_to_sar CdcError.Unsupported = SarError.Unsupported"
| "cdc_err_to_sar CdcError.ReservedValue = SarError.ReservedValue"
| "cdc_err_to_sar CdcError.Overflow = SarError.Overflow"
| "cdc_err_to_sar CdcError.Bounds = SarError.Bounds"
| "cdc_err_to_sar CdcError.Malformed = SarError.Malformed"
| "cdc_err_to_sar CdcError.LimitExceeded = SarError.LimitExceeded"
| "cdc_err_to_sar CdcError.InvalidLength = SarError.InvalidLength"

definition validate_cdc_algo_id :: "u8 \<Rightarrow> SarError + unit" where
  "validate_cdc_algo_id algo_id = map_err cdc_err_to_sar (cdc_validate_algo algo_id)"

definition is_cdc_metadata_tlv_type :: "u8 \<Rightarrow> bool" where
  "is_cdc_metadata_tlv_type type_id \<longleftrightarrow> TLV_CDC_MAP \<le> type_id \<and> type_id \<le> TLV_CDC_CUSTOM"



definition make_cdc_ext_provider_tlv :: "bytes \<Rightarrow> ResourceLimits \<Rightarrow> SarError + Tlv" where
  "make_cdc_ext_provider_tlv uri limits =
     bindR (check_cdc_metadata_bytes limits (length uri)) (\<lambda>_.
     Inr \<lparr> tlv_type_id = TLV_CDC_EXT_PROVIDER, tlv_value = uri \<rparr>)"




definition validate_recipe_payload :: "bytes \<Rightarrow> ResourceLimits \<Rightarrow> SarError + nat" where
  "validate_recipe_payload payload limits =
     bindR (check_cdc_metadata_bytes limits (length payload)) (\<lambda>_.
     if length payload mod CDC_RECIPE_HASH_LEN \<noteq> 0 then Inl SarError.InvalidLength else
     let count = length payload div CDC_RECIPE_HASH_LEN in
     bindR (check_cdc_chunk_count limits count) (\<lambda>_. Inr count))"

text \<open>\<^verbatim>\<open>chunks_exact(32)\<close>: the full blocks, a shorter rest is dropped.\<close>

definition recipe_hashes :: "bytes \<Rightarrow> bytes list" where
  "recipe_hashes payload =
     map (\<lambda>i. slice payload (i * CDC_RECIPE_HASH_LEN) CDC_RECIPE_HASH_LEN)
       [0..<length payload div CDC_RECIPE_HASH_LEN]"

section \<open>Chunk tables\<close>

text \<open>Non-empty chunks that tile the positions from \<open>p\<close> on without wrap-around, and their end.\<close>

primrec tiles :: "nat \<Rightarrow> CdcChunk list \<Rightarrow> bool" where
  "tiles p [] \<longleftrightarrow> True"
| "tiles p (c # cs) \<longleftrightarrow> ch_length c \<noteq> 0 \<and> unat (ch_offset c) = p \<and> p + unat (ch_length c) < 2 ^ 64 \<and>
     tiles (p + unat (ch_length c)) cs"

primrec tiles_end :: "nat \<Rightarrow> CdcChunk list \<Rightarrow> nat" where
  "tiles_end p [] = p"
| "tiles_end p (c # cs) = tiles_end (p + unat (ch_length c)) cs"

lemma tiles_end_mono: "p \<le> tiles_end p cs"
  by (induction cs arbitrary: p) (auto intro: le_trans [OF le_add1])

lemma foldR_validate_chunk:
  assumes "p < 2 ^ 64"
  shows "foldR (validate_chunk L) cs (of_nat p) = Inr e \<longleftrightarrow>
    tiles p cs \<and> e = of_nat (tiles_end p cs) \<and> (L = 0 \<or> cs = [] \<or> tiles_end p cs \<le> unat L)"
  using assms
proof (induction cs arbitrary: p)
  case (Cons c cs)
  let ?q = "p + unat (ch_length c)"
  have step: "validate_chunk L c (of_nat p) = Inr v \<longleftrightarrow>
      ch_length c \<noteq> 0 \<and> unat (ch_offset c) = p \<and> ?q < 2 ^ 64 \<and> (L = 0 \<or> ?q \<le> unat L) \<and> v = of_nat ?q" for v
  proof -
    have "ch_offset c = of_nat p \<longleftrightarrow> unat (ch_offset c) = p"
      using Cons.prems by (auto simp: unat_of_nat_u64)
    moreover have "unat (ch_offset c + ch_length c) = unat (ch_offset c) + unat (ch_length c)"
      if "unat (ch_offset c) + unat (ch_length c) < 2 ^ 64"
      using that unat_add_lem [of "ch_offset c" "ch_length c"] by simp
    ultimately show ?thesis
      by (auto simp: validate_chunk_def bindR_eq_Inr checked_add_word_def word_less_nat_alt unat_gt_0 not_less
          split: if_splits)
  qed
  show ?case
  proof (cases "ch_length c \<noteq> 0 \<and> unat (ch_offset c) = p \<and> ?q < 2 ^ 64")
    case True
    then have "foldR (validate_chunk L) cs (of_nat ?q) = Inr e \<longleftrightarrow>
        tiles ?q cs \<and> e = of_nat (tiles_end ?q cs) \<and> (L = 0 \<or> cs = [] \<or> tiles_end ?q cs \<le> unat L)"
      by (intro Cons.IH) simp
    with True step show ?thesis
      using tiles_end_mono [of ?q cs] by (cases cs) (auto simp: bindR_eq_Inr)
  next
    case False
    then show ?thesis
      by (auto simp: bindR_eq_Inr step)
  qed
qed auto

lemma validate_cdc_metadata_Inr:
  "validate_cdc_metadata meta L maxc = Inr () \<longleftrightarrow>
     length (cm_chunks meta) \<le> maxc \<and> tiles 0 (cm_chunks meta) \<and>
     (L = 0 \<or> cm_chunks meta = [] \<or> tiles_end 0 (cm_chunks meta) = unat L)"
proof -
  have "of_nat (tiles_end 0 cs) = L \<longleftrightarrow> tiles_end 0 cs = unat L" if "tiles_end 0 cs \<le> unat L" for cs
    using that unat_lt2p [of L] by (auto simp: unat_of_nat_u64 simp del: unat_u64_less)
  then show ?thesis
    using foldR_validate_chunk [of 0 L "cm_chunks meta"] unat_gt_0 [of L]
    by (auto simp: validate_cdc_metadata_def bindR_eq_Inr word_gt_0)
qed

section \<open>The catalog on the wire\<close>

definition record_fits :: "CdcMapRecord \<Rightarrow> bool" where
  "record_fits r \<longleftrightarrow> length (mr_hash r) = 32"

lemma length_write_record: "record_fits r \<Longrightarrow> length (write_map_record r) = 48"
  by (simp add: write_map_record_def record_fits_def)

lemma parse_write_record: "record_fits r \<Longrightarrow> parse_map_record (write_map_record r) = r"
  by (simp add: parse_map_record_def write_map_record_def record_fits_def slice_def from_le_le_bytes)

lemma slices_48: "length bs = 48 \<Longrightarrow> slice bs 0 32 @ slice bs 32 4 @ slice bs 36 8 @ slice bs 44 4 = bs"
  using slice_drop [of 48 44 4 bs] by (simp add: slice_drop)

lemma write_parse_record:
  assumes "length bs = 48"
  shows "write_map_record (parse_map_record bs) = bs \<and> record_fits (parse_map_record bs)"
  using slices_48 [OF assms] assms
    le_bytes_from_le [of "slice bs 32 4", where 'a = 32] le_bytes_from_le [of "slice bs 36 8", where 'a = 64]
    le_bytes_from_le [of "slice bs 44 4", where 'a = 32]
  by (simp add: parse_map_record_def write_map_record_def record_fits_def)

interpretation cdc_table: record_table CDC_MAP_RECORD_LEN parse_map_record write_map_record record_fits
proof
  show "0 < CDC_MAP_RECORD_LEN"
    by (simp add: CDC_MAP_RECORD_LEN_def)
qed (auto simp: CDC_MAP_RECORD_LEN_def length_write_record parse_write_record write_parse_record)

text \<open>The header of a catalog with \<open>n\<close> records.\<close>

definition map_header :: "u8 \<Rightarrow> nat \<Rightarrow> bytes" where
  "map_header h n = [CDC_MAP_VERSION_V1, h] @ le_bytes 2 (0 :: u16) @ le_bytes 4 (of_nat n :: u32) @
     le_bytes 2 CDC_MAP_V1_RECORD_SIZE @ replicate 6 0"

lemma length_map_header [simp]: "length (map_header h n) = 16"
  by (simp add: map_header_def)

lemma write_cdc_map_Inr:
  "write_cdc_map m = Inr bs \<longleftrightarrow> validate_cdc_map_hash_algo_id (map_hash_algorithm_id m) = Inr () \<and>
     length (map_records m) < 2 ^ 32 \<and>
     bs = map_header (map_hash_algorithm_id m) (length (map_records m)) @ concat (map write_map_record (map_records m))"
proof -
  have "fold (\<lambda>r out. out @ write_map_record r) rs out = out @ concat (map write_map_record rs)" for rs out
    by (induction rs arbitrary: out) simp_all
  then show ?thesis
    by (auto simp: write_cdc_map_def Let_def bindR_eq_Inr word_of_usize_def checked_mul_usize_def cdc_map_consts
        map_header_def usize_max_def)
qed

lemma header_split:
  "16 \<le> length bs \<Longrightarrow> take 16 bs = [bs ! 0, bs ! 1] @ slice bs 2 2 @ slice bs 4 4 @ slice bs 8 2 @ slice bs 10 6"
proof -
  assume "16 \<le> length bs"
  then have "bs = [bs ! 0, bs ! 1] @ drop 2 bs"
    by (cases bs; cases "tl bs") auto
  also have "drop 2 bs = slice bs 2 2 @ slice bs 4 4 @ slice bs 8 2 @ slice bs 10 6 @ drop 16 bs"
    by (simp add: slice_drop)
  finally have "take 16 bs @ drop 16 bs =
      ([bs ! 0, bs ! 1] @ slice bs 2 2 @ slice bs 4 4 @ slice bs 8 2 @ slice bs 10 6) @ drop 16 bs"
    by (simp only: append_take_drop_id append_assoc)
  then show ?thesis
    by (simp only: append_same_eq)
qed

lemma zero_block: "length xs = 6 \<Longrightarrow> \<not> list_ex (\<lambda>b. b \<noteq> 0) xs \<longleftrightarrow> xs = replicate 6 (0 :: u8)"
  by (auto simp: list_ex_iff intro!: replicate_eqI)

lemma from_le_eq_iff:
  "length xs = k \<Longrightarrow> LENGTH('a) = 8 * k \<Longrightarrow> (from_le xs :: 'a::len word) = v \<longleftrightarrow> xs = le_bytes k v"
  using le_bytes_from_le [of xs, where 'a = 'a] from_le_le_bytes [of k v] by auto

lemma map_header_eq:
  assumes "16 \<le> length bs"
  shows "bs ! 0 = CDC_MAP_VERSION_V1 \<and> bs ! 1 = h \<and> (from_le (slice bs 2 2) :: u16) = 0 \<and>
      unat (from_le (slice bs 4 4) :: u32) = n \<and> (from_le (slice bs 8 2) :: u16) = CDC_MAP_V1_RECORD_SIZE \<and>
      \<not> list_ex (\<lambda>b. b \<noteq> 0) (slice bs 10 6) \<longleftrightarrow> n < 2 ^ 32 \<and> take 16 bs = map_header h n"
proof -
  have n: "unat w = n \<longleftrightarrow> n < 2 ^ 32 \<and> w = of_nat n" for w :: u32
    using unat_lt2p [of w] by (auto simp: unat_of_nat_u32 simp del: unat_u32_less)
  show ?thesis
    using assms
    by (auto simp: header_split map_header_def n from_le_eq_iff [of _ 2, where 'a = 16] from_le_eq_iff [of _ 4, where 'a = 32] zero_block)
qed

lemma parse_cdc_map_Inr:
  "parse_cdc_map bs maxr = Inr m \<longleftrightarrow> write_cdc_map m = Inr bs \<and>
     length (map_records m) \<le> maxr \<and> list_all record_fits (map_records m)"
proof -
  let ?h = "map_hash_algorithm_id m" and ?rs = "map_records m"
  let ?n = "length ?rs" and ?k = CDC_MAP_RECORD_LEN
  have m: "m = \<lparr> map_hash_algorithm_id = h, map_records = rs \<rparr> \<longleftrightarrow> ?h = h \<and> ?rs = rs" for h rs
    by (cases m) auto
  have sl: "slice bs (16 + i) k = slice (drop 16 bs) i k" for i k
    by (simp add: slice_def add.commute)
  have cnt: "checked_mul_usize (unat w) 48 = Some (unat w * 48)"
    "checked_add_usize (unat w * 48) 16 = Some (unat w * 48 + 16)" for w :: u32
    using unat_lt2p [of w] by (simp_all add: checked_mul_usize_def checked_add_usize_def usize_max_def del: unat_u32_less)
  have "parse_cdc_map bs maxr = Inr m \<longleftrightarrow> 16 \<le> length bs \<and> validate_cdc_map_hash_algo_id ?h = Inr () \<and>
      (bs ! 0 = CDC_MAP_VERSION_V1 \<and> bs ! 1 = ?h \<and> (from_le (slice bs 2 2) :: u16) = 0 \<and>
       unat (from_le (slice bs 4 4) :: u32) = ?n \<and> (from_le (slice bs 8 2) :: u16) = CDC_MAP_V1_RECORD_SIZE \<and>
       \<not> list_ex (\<lambda>b. b \<noteq> 0) (slice bs 10 6)) \<and>
      (length (drop 16 bs) = ?n * ?k \<and> ?rs = map (\<lambda>i. parse_map_record (slice (drop 16 bs) (i * ?k) ?k)) [0..<?n]) \<and>
      ?n \<le> maxr"
    by (auto simp: parse_cdc_map_def Let_def bindR_eq_Inr m sl cdc_map_consts cnt
        simp del: from_le.simps split: if_splits)
  also have "\<dots> \<longleftrightarrow> 16 \<le> length bs \<and> validate_cdc_map_hash_algo_id ?h = Inr () \<and>
      (?n < 2 ^ 32 \<and> take 16 bs = map_header ?h ?n) \<and>
      (list_all record_fits ?rs \<and> drop 16 bs = concat (map write_map_record ?rs)) \<and> ?n \<le> maxr"
    unfolding cdc_table.table_exact using map_header_eq [of bs ?h ?n] by blast
  also have "\<dots> \<longleftrightarrow> write_cdc_map m = Inr bs \<and> ?n \<le> maxr \<and> list_all record_fits ?rs"
    unfolding write_cdc_map_Inr
    by (metis append_eq_conv_conj append_take_drop_id length_map_header length_append le_add1)
  finally show ?thesis .
qed

section \<open>TLVs and recipes\<close>




lemma recipe_hashes_exact:
  assumes "validate_recipe_payload payload limits = Inr n"
  shows "length (recipe_hashes payload) = n \<and> concat (recipe_hashes payload) = payload \<and>
    list_all (\<lambda>h. length h = 32) (recipe_hashes payload)"
proof -
  have n: "length payload = n * 32" "n = length payload div 32"
    using assms by (auto simp: validate_recipe_payload_def bindR_eq_Inr CDC_RECIPE_HASH_LEN_def Let_def split: if_splits)
  have h: "recipe_hashes payload = map (\<lambda>i. slice payload (i * 32) 32) [0..<n]"
    by (simp only: recipe_hashes_def CDC_RECIPE_HASH_LEN_def flip: n(2))
  show ?thesis
    unfolding h concat_slices [OF n(1)] using block_within [OF n(1)] by (simp add: list_all_iff)
qed

section \<open>Properties\<close>

definition sample_map :: CdcMap where
  "sample_map = \<lparr> map_hash_algorithm_id = 0x31, map_records =
     [\<lparr> mr_hash = replicate 32 7, mr_partition_id = 0, mr_absolute_offset = 64, mr_compressed_size = 9 \<rparr>] \<rparr>"

text \<open>
  (C34) The \<^verbatim>\<open>CDC_MAP\<close> catalog on the wire.  \<^verbatim>\<open>parse_cdc_map\<close> returns a catalog exactly when
  \<^verbatim>\<open>write_cdc_map\<close> encodes that catalog as the input, the number of its records respects the limit and
  its hashes have 32 bytes: no two byte strings are read as the same catalog, none is read with a
  rest, and a length that disagrees with the record count is refused.
\<close>

lemma cdc_map_exact:
  "parse_cdc_map bs maxr = Inr m \<longleftrightarrow> write_cdc_map m = Inr bs \<and> length (map_records m) \<le> maxr \<and>
     (\<forall>i < length (map_records m). length (mr_hash (map_records m ! i)) = 32)"
  by (simp add: parse_cdc_map_Inr list_all_length record_fits_def)

lemma cdc_map_exact_witness:
  "\<exists>bs. write_cdc_map sample_map = Inr bs \<and> parse_cdc_map bs 1 = Inr sample_map"
  unfolding cdc_map_exact
  by (simp add: write_cdc_map_Inr sample_map_def validate_cdc_map_hash_algo_id_def)



end
