(* ===== verification/Sar_Fastcdc.thy ===== *)
theory Sar_Fastcdc
  imports Sar_Cdc
begin

text \<open>
  The FASTCDC chunker of \<^verbatim>\<open>crates/sar-cdc/src/fastcdc.rs\<close>: the generated gear table, the masks, the
  search for one cut and the loop over the data.  The loop is a \<^verbatim>\<open>while\<close> whose progress depends on
  the cut that the search returns; it is a partial function, \<^const>\<open>None\<close> for a run that does not end.
  The lemmas show that it ends for every validated configuration, which chunks it returns, and
  that where a cut falls depends only on the bytes in a window before it.
\<close>

section \<open>Gear table and masks\<close>

text \<open>One step of \<^verbatim>\<open>xorshift64*\<close>.\<close>

definition xorshift :: "u64 \<Rightarrow> u64" where
  "xorshift state =
     (let state = state XOR push_bit 12 state;
          state = state XOR drop_bit 25 state;
          state = state XOR push_bit 27 state in
      state)"

primrec gear_entries :: "nat \<Rightarrow> u64 \<Rightarrow> u64 list" where
  "gear_entries 0 state = []"
| "gear_entries (Suc n) state = (let state = xorshift state in state * 0x2545F4914F6CDD1D # gear_entries n state)"

definition generate_gear :: "u64 list" where
  "generate_gear = gear_entries 256 0x9e3779b97f4a7c15"

definition GEAR :: "u64 list" where
  "GEAR = generate_gear"

record FastCdcOptions =
  fo_min_size :: u32
  fo_avg_size :: u32
  fo_max_size :: u32

definition FastCdcOptions_default :: FastCdcOptions where
  "FastCdcOptions_default = \<lparr> fo_min_size = 2048, fo_avg_size = 8192, fo_max_size = 65536 \<rparr>"

definition fastcdc_validate :: "FastCdcOptions \<Rightarrow> CdcError + unit" where
  "fastcdc_validate opts =
     (if fo_min_size opts < 64 then Inl CdcError.Bounds else
      if fo_avg_size opts < fo_min_size opts then Inl CdcError.Bounds else
      if fo_max_size opts < fo_avg_size opts then Inl CdcError.Bounds else Inr ())"

text \<open>The zero bits above the highest bit that is set, \<^verbatim>\<open>u32::leading_zeros\<close>.\<close>

definition leading_zeros :: "u32 \<Rightarrow> nat" where
  "leading_zeros w = length (takeWhile (\<lambda>i. \<not> bit w i) (rev [0..<32]))"

definition mask_for_size :: "u32 \<Rightarrow> u64" where
  "mask_for_size sz =
     (if sz < 2 then 0 else
      let bits = 32 - 1 - leading_zeros sz;
          bits = min bits 63 in
      push_bit bits 1 - 1)"

section \<open>One cut\<close>

definition gear_step :: "u8 \<Rightarrow> u64 \<Rightarrow> u64" where
  "gear_step b hash = push_bit 1 hash + GEAR ! unat b"

text \<open>
  A \<^verbatim>\<open>for\<close> loop over the bytes from position \<^verbatim>\<open>i\<close> on: \<^const>\<open>Inl\<close> the value returned from inside, or
  \<^const>\<open>Inr\<close> the hash at its end.
\<close>

primrec cut_scan :: "u64 \<Rightarrow> bytes \<Rightarrow> nat \<Rightarrow> u64 \<Rightarrow> nat + u64" where
  "cut_scan m [] i hash = Inr hash"
| "cut_scan m (b # data) i hash =
     (let hash = gear_step b hash in
      if hash AND m = 0 then Inl (i + 1) else cut_scan m data (i + 1) hash)"

definition fastcdc_cut :: "bytes \<Rightarrow> nat \<Rightarrow> nat \<Rightarrow> u64 \<Rightarrow> u64 \<Rightarrow> nat" where
  "fastcdc_cut data min_size avg_size mask_s mask_l =
     (let n = length data in
      if n = 0 then 0 else
      if n \<le> min_size then n else
      let hash = fold gear_step (take min_size data) 0;
          phase1_end = min avg_size n in
      case cut_scan mask_s (slice data min_size (phase1_end - min_size)) min_size hash of
        Inl c \<Rightarrow> c
      | Inr hash \<Rightarrow>
          (case cut_scan mask_l (drop avg_size data) avg_size hash of
             Inl c \<Rightarrow> c
           | Inr hash \<Rightarrow> n))"

section \<open>The loop\<close>

partial_function (option) chunk_loop ::
  "(bytes \<Rightarrow> bytes) \<Rightarrow> bytes \<Rightarrow> nat \<Rightarrow> nat \<Rightarrow> nat \<Rightarrow> u64 \<Rightarrow> u64 \<Rightarrow> nat \<Rightarrow> nat \<Rightarrow> CdcChunk list \<Rightarrow>
   (CdcError + CdcChunk list) option" where
  "chunk_loop sha256 data min_size avg_size max_size mask_s mask_l max_chunks pos chunks =
     (if pos < length data then
        let remaining = length data - pos;
            limit = min remaining max_size;
            cut = fastcdc_cut (slice data pos limit) min_size avg_size mask_s mask_l;
            end_pos = pos + cut;
            chunk_bytes = slice data pos cut;
            hash = sha256 chunk_bytes in
        case checked_add_usize (length chunks) 1 of
          None \<Rightarrow> Some (Inl CdcError.Overflow)
        | Some new_len \<Rightarrow>
            if new_len > max_chunks then Some (Inl CdcError.LimitExceeded) else
            (case word_of_usize pos of
               None \<Rightarrow> Some (Inl CdcError.Overflow)
             | Some offset \<Rightarrow>
                 (case word_of_usize cut of
                    None \<Rightarrow> Some (Inl CdcError.Overflow)
                  | Some len \<Rightarrow>
                      chunk_loop sha256 data min_size avg_size max_size mask_s mask_l max_chunks end_pos
                        (chunks @ [\<lparr> ch_offset = offset, ch_length = len, ch_hash = Some hash \<rparr>])))
      else Some (Inr chunks))"

definition chunk_data :: "(bytes \<Rightarrow> bytes) \<Rightarrow> bytes \<Rightarrow> FastCdcOptions \<Rightarrow> nat \<Rightarrow> (CdcError + CdcChunk list) option" where
  "chunk_data sha256 data opts max_chunks =
     (case fastcdc_validate opts of
        Inl e \<Rightarrow> Some (Inl e)
      | Inr _ \<Rightarrow>
          if data = [] then Some (Inr []) else
          let min_size = unat (fo_min_size opts);
              avg_size = unat (fo_avg_size opts);
              max_size = unat (fo_max_size opts);
              mask_s = mask_for_size (fo_avg_size opts div 2);
              mask_l = mask_for_size (fo_avg_size opts) in
          chunk_loop sha256 data min_size avg_size max_size mask_s mask_l max_chunks 0 [])"

section \<open>Where a cut falls\<close>

definition gear :: "bytes \<Rightarrow> u64" where
  "gear data = fold gear_step data 0"

lemma gear_snoc: "gear (xs @ [b]) = gear_step b (gear xs)"
  by (simp add: gear_def)

text \<open>A cut may fall behind the first \<open>c\<close> bytes: the masked hash of these bytes is zero.\<close>

definition cuts_at :: "bytes \<Rightarrow> nat \<Rightarrow> u64 \<Rightarrow> u64 \<Rightarrow> nat \<Rightarrow> bool" where
  "cuts_at data avg mask_s mask_l c \<longleftrightarrow> gear (take c data) AND (if c \<le> avg then mask_s else mask_l) = 0"

lemma cut_scan_spec:
  "case cut_scan m ys (length xs) (gear xs) of
     Inl c \<Rightarrow> length xs < c \<and> c \<le> length (xs @ ys) \<and> gear (take c (xs @ ys)) AND m = 0 \<and>
       (\<forall>d. length xs < d \<and> d < c \<longrightarrow> gear (take d (xs @ ys)) AND m \<noteq> 0)
   | Inr h \<Rightarrow> h = gear (xs @ ys) \<and>
       (\<forall>d. length xs < d \<and> d \<le> length (xs @ ys) \<longrightarrow> gear (take d (xs @ ys)) AND m \<noteq> 0)"
proof (induction ys arbitrary: xs)
  case (Cons b ys)
  have first: "take d (xs @ b # ys) = xs @ [b]" if "d = Suc (length xs)" for d
    using that by simp
  show ?case
  proof (cases "gear (xs @ [b]) AND m = 0")
    case True
    then show ?thesis
      by (auto simp: gear_snoc first)
  next
    case False
    then have step: "cut_scan m (b # ys) (length xs) (gear xs) =
        cut_scan m ys (length (xs @ [b])) (gear (xs @ [b]))"
      by (simp add: gear_snoc)
    have range: "length xs < d \<longleftrightarrow> d = Suc (length xs) \<or> length (xs @ [b]) < d" for d
      by auto
    show ?thesis
      unfolding step range using Cons.IH [of "xs @ [b]"] False first
      by (auto split: sum.splits)
  qed
qed auto

lemma fastcdc_cut_spec:
  assumes "min_size \<le> avg" "min_size < length data"
  shows "let c = fastcdc_cut data min_size avg ms ml in
    min_size < c \<and> c \<le> length data \<and> (c = length data \<or> cuts_at data avg ms ml c) \<and>
    (\<forall>d. min_size < d \<and> d < c \<longrightarrow> \<not> cuts_at data avg ms ml d)"
proof -
  let ?n = "length data"
  let ?p = "take min_size data" and ?m = "slice data min_size (min avg ?n - min_size)"
  have split: "?p @ ?m = take avg data"
    using assms by (simp add: slice_def min_def flip: take_add)
  have len: "length ?p = min_size" "length (?p @ ?m) = min avg ?n"
    using assms unfolding split by simp_all
  have cut: "fastcdc_cut data min_size avg ms ml =
      (case cut_scan ms ?m (length ?p) (gear ?p) of Inl c \<Rightarrow> c
       | Inr h \<Rightarrow> (case cut_scan ml (drop avg data) avg h of Inl c \<Rightarrow> c | Inr h \<Rightarrow> ?n))"
    using assms len(1) by (auto simp: fastcdc_cut_def gear_def Let_def)
  show ?thesis
  proof (cases "cut_scan ms ?m (length ?p) (gear ?p)")
    case (Inl c)
    with cut_scan_spec [where m = ms and ys = ?m and xs = ?p] have c: "min_size < c" "c \<le> min avg ?n" "gear (take c (take avg data)) AND ms = 0"
      "\<And>d. min_size < d \<Longrightarrow> d < c \<Longrightarrow> gear (take d (take avg data)) AND ms \<noteq> 0"
      unfolding len split by auto
    then show ?thesis
      unfolding cut Inl sum.case Let_def by (auto simp: cuts_at_def min_absorb1)
  next
    case (Inr h)
    with cut_scan_spec [where m = ms and ys = ?m and xs = ?p] have h: "h = gear (take avg data)"
      "\<And>d. min_size < d \<Longrightarrow> d \<le> min avg ?n \<Longrightarrow> gear (take d (take avg data)) AND ms \<noteq> 0"
      unfolding len split by auto
    show ?thesis
    proof (cases "avg < ?n")
      case True
      then have "length (take avg data) = avg"
        by simp
      note spec = cut_scan_spec [where m = ml and ys = "drop avg data" and xs = "take avg data", unfolded this append_take_drop_id]
      have low: "\<not> cuts_at data avg ms ml d" if "min_size < d" "d \<le> avg" for d
        using h(2) [of d] that True by (simp add: cuts_at_def min_absorb1)
      show ?thesis
      proof (cases "cut_scan ml (drop avg data) avg (gear (take avg data))")
        case (Inl c)
        with spec low assms show ?thesis
          unfolding cut Inr h(1) sum.case Let_def by (auto simp: cuts_at_def not_le)
      next
        case r: (Inr h')
        with spec low assms True have "\<And>d. min_size < d \<Longrightarrow> d < ?n \<Longrightarrow> \<not> cuts_at data avg ms ml d"
          by (auto simp: cuts_at_def not_le)
        with r assms show ?thesis
          unfolding cut Inr h(1) sum.case Let_def by auto
      qed
    next
      case False
      with h assms show ?thesis
        unfolding cut Inr sum.case Let_def by (auto simp: cuts_at_def)
    qed
  qed
qed

lemma fastcdc_cut_short: "length data \<le> min_size \<Longrightarrow> fastcdc_cut data min_size avg ms ml = length data"
  by (simp add: fastcdc_cut_def Let_def)

lemma fastcdc_cut_bounds:
  assumes "min_size \<le> avg" "data \<noteq> []"
  shows "0 < fastcdc_cut data min_size avg ms ml" "fastcdc_cut data min_size avg ms ml \<le> length data"
    "min min_size (length data) \<le> fastcdc_cut data min_size avg ms ml"
  using fastcdc_cut_spec [OF assms(1), of data ms ml] assms fastcdc_cut_short [of data min_size avg ms ml]
  by (cases "length data \<le> min_size"; force simp: Let_def)+

section \<open>The window\<close>

lemma gear_append: "gear (xs @ ys) = push_bit (length ys) (gear xs) + gear ys"
proof (induction ys rule: rev_induct)
  case (snoc y ys)
  have "gear (xs @ ys @ [y]) = push_bit 1 (gear (xs @ ys)) + GEAR ! unat y"
    by (simp add: gear_snoc gear_step_def flip: append_assoc)
  also have "push_bit 1 (gear (xs @ ys)) = push_bit (Suc (length ys)) (gear xs) + push_bit 1 (gear ys)"
    by (simp add: snoc.IH push_bit_add push_bit_Suc)
  finally show ?case
    by (simp add: gear_snoc gear_step_def)
qed (simp add: gear_def)

lemma mask_for_size_mask: "\<exists>k \<le> 31. mask_for_size sz = mask k"
proof (cases "sz < 2")
  case True
  then show ?thesis
    by (intro exI [of _ 0]) (simp add: mask_for_size_def)
next
  case False
  then show ?thesis
    by (intro exI [of _ "31 - leading_zeros sz"]) (simp add: mask_for_size_def mask_eq_exp_minus_1)
qed

lemma take_bit_add_push:
  fixes v g :: u64
  assumes "k \<le> m" "k \<le> 64"
  shows "take_bit k (push_bit m v + g) = take_bit k g"
proof -
  have m: "x mod 18446744073709551616 = take_bit 64 x" for x :: nat
    by (simp add: take_bit_eq_mod)
  have "unat (take_bit k (push_bit m v + g)) = take_bit k (take_bit 64 (push_bit m (unat v)) + unat g)"
    using assms by (simp add: unsigned_take_bit_eq unat_word_ariths unsigned_push_bit_eq min_def m)
  also have "\<dots> = take_bit k (take_bit k (push_bit m (unat v)) + take_bit k (unat g))"
    using assms take_bit_add [of k "take_bit 64 (push_bit m (unat v))" "unat g"] by (simp add: min_def)
  also have "\<dots> = unat (take_bit k g)"
    using assms by (simp add: take_bit_push_bit unsigned_take_bit_eq)
  finally show ?thesis
    by (rule word_unat_eq_iff [THEN iffD2])
qed

lemma gear_window:
  assumes "31 \<le> length w"
  shows "gear (xs @ w) AND mask_for_size sz = gear (ys @ w) AND mask_for_size sz"
proof -
  obtain k where k: "k \<le> 31" "mask_for_size sz = mask k"
    using mask_for_size_mask by blast
  have "take_bit k (push_bit (length w) v + g) = take_bit k g" for v g :: u64
    using k assms by (simp add: take_bit_add_push)
  then show ?thesis
    by (simp add: k(2) gear_append flip: take_bit_eq_mask)
qed

section \<open>The chunks of the data\<close>

lemma fastcdc_validate_Inr:
  "fastcdc_validate opts = Inr () \<longleftrightarrow> 64 \<le> unat (fo_min_size opts) \<and>
     unat (fo_min_size opts) \<le> unat (fo_avg_size opts) \<and> unat (fo_avg_size opts) \<le> unat (fo_max_size opts)"
  by (auto simp: fastcdc_validate_def word_less_nat_alt)

definition next_cut :: "FastCdcOptions \<Rightarrow> bytes \<Rightarrow> nat" where
  "next_cut opts rest = fastcdc_cut (take (unat (fo_max_size opts)) rest) (unat (fo_min_size opts))
     (unat (fo_avg_size opts)) (mask_for_size (fo_avg_size opts div 2)) (mask_for_size (fo_avg_size opts))"

text \<open>The chunks of \<open>rest\<close> when its first byte has the offset \<open>p\<close>.\<close>

primrec chunked :: "(bytes \<Rightarrow> bytes) \<Rightarrow> FastCdcOptions \<Rightarrow> nat \<Rightarrow> bytes \<Rightarrow> CdcChunk list \<Rightarrow> bool" where
  "chunked sha opts p rest [] \<longleftrightarrow> rest = []"
| "chunked sha opts p rest (c # cs) \<longleftrightarrow> rest \<noteq> [] \<and>
     c = \<lparr> ch_offset = of_nat p, ch_length = of_nat (next_cut opts rest),
           ch_hash = Some (sha (take (next_cut opts rest) rest)) \<rparr> \<and>
     chunked sha opts (p + next_cut opts rest) (drop (next_cut opts rest) rest) cs"

lemma next_cut_bounds:
  assumes "fastcdc_validate opts = Inr ()" "rest \<noteq> []"
  shows "0 < next_cut opts rest" "next_cut opts rest \<le> length rest" "next_cut opts rest \<le> unat (fo_max_size opts)"
    "min (unat (fo_min_size opts)) (length rest) \<le> next_cut opts rest"
proof -
  let ?d = "take (unat (fo_max_size opts)) rest"
  have "unat (fo_min_size opts) \<le> unat (fo_avg_size opts)" "?d \<noteq> []"
    using assms by (auto simp: fastcdc_validate_Inr)
  note b = fastcdc_cut_bounds [OF this, of "mask_for_size (fo_avg_size opts div 2)" "mask_for_size (fo_avg_size opts)",
      folded next_cut_def]
  show "0 < next_cut opts rest" "next_cut opts rest \<le> length rest" "next_cut opts rest \<le> unat (fo_max_size opts)"
    "min (unat (fo_min_size opts)) (length rest) \<le> next_cut opts rest"
    using b assms(1) unfolding fastcdc_validate_Inr length_take by (simp_all only: min_le_iff_disj min.bounded_iff) linarith+
qed

lemma chunked_exists:
  assumes "fastcdc_validate opts = Inr ()"
  shows "\<exists>cs. chunked sha opts p rest cs"
proof (induction "length rest" arbitrary: p rest rule: less_induct)
  case less
  show ?case
  proof (cases "rest = []")
    case False
    note b = next_cut_bounds [OF assms False]
    have "length (drop (next_cut opts rest) rest) < length rest"
      using b(1) False by simp
    from less [OF this] False show ?thesis
      by (metis chunked.simps(2))
  qed (metis chunked.simps(1))
qed

lemma chunked_hash_length:
  "chunked sha opts p rest cs \<Longrightarrow> chunked sha opts q rest ds \<Longrightarrow>
   map ch_hash cs = map ch_hash ds \<and> map ch_length cs = map ch_length ds"
proof (induction cs arbitrary: p q rest ds)
  case (Cons c cs)
  then show ?case
    by (cases ds) auto
next
  case Nil
  then show ?case
    by (cases ds) auto
qed

lemma chunked_append:
  assumes "fastcdc_validate opts = Inr ()"
  shows "chunked sha opts p rest (cs @ ds) \<Longrightarrow> p + length rest < 2 ^ 64 \<Longrightarrow> p \<le> tiles_end p cs \<and>
    tiles_end p cs \<le> p + length rest \<and> chunked sha opts (tiles_end p cs) (drop (tiles_end p cs - p) rest) ds"
proof (induction cs arbitrary: p rest)
  case (Cons c cs)
  let ?n = "next_cut opts rest"
  have c: "rest \<noteq> []" "ch_length c = of_nat ?n" "chunked sha opts (p + ?n) (drop ?n rest) (cs @ ds)"
    using Cons.prems(1) by auto
  note b = next_cut_bounds [OF assms c(1)]
  have l: "unat (ch_length c) = ?n"
    using b(2) Cons.prems(2) by (simp add: c(2) unat_of_nat_u64)
  show ?case
    using Cons.IH [OF c(3)] b(2) Cons.prems(2) by (auto simp: l)
qed simp

lemma chunk_loop_eq:
  assumes "fastcdc_validate opts = Inr ()" "length data \<le> isize_max"
    and "chunked sha opts p (drop p data) cs" "p \<le> length data" "length acc \<le> p" "length acc \<le> maxc"
  shows "chunk_loop sha data (unat (fo_min_size opts)) (unat (fo_avg_size opts)) (unat (fo_max_size opts))
      (mask_for_size (fo_avg_size opts div 2)) (mask_for_size (fo_avg_size opts)) maxc p acc =
    Some (if length acc + length cs \<le> maxc then Inr (acc @ cs) else Inl CdcError.LimitExceeded)"
  using assms(3-)
proof (induction cs arbitrary: p acc)
  case Nil
  then show ?case
    by (subst chunk_loop.simps) simp
next
  case (Cons c cs)
  let ?rest = "drop p data"
  let ?n = "next_cut opts ?rest"
  have c: "?rest \<noteq> []" "c = \<lparr> ch_offset = of_nat p, ch_length = of_nat ?n, ch_hash = Some (sha (take ?n ?rest)) \<rparr>"
    "chunked sha opts (p + ?n) (drop (p + ?n) data) cs"
    using Cons.prems(1) by (auto simp: add.commute)
  note b = next_cut_bounds [OF assms(1) c(1)]
  have p: "p < length data" "p + ?n \<le> length data"
    using c(1) b(2) by auto
  have w: "word_of_usize p = Some (of_nat p :: u64)" "word_of_usize ?n = Some (of_nat ?n :: u64)"
    "checked_add_usize (length acc) 1 = Some (length acc + 1)"
    using p assms(2) Cons.prems(3) by (simp_all add: word_of_usize_def isize_max_def usize_max_def)
  have cut: "fastcdc_cut (slice data p (min (length data - p) (unat (fo_max_size opts)))) (unat (fo_min_size opts))
      (unat (fo_avg_size opts)) (mask_for_size (fo_avg_size opts div 2)) (mask_for_size (fo_avg_size opts)) = ?n"
    "slice data p ?n = take ?n ?rest"
    by (simp_all add: next_cut_def slice_def min_def)
  let ?loop = "chunk_loop sha data (unat (fo_min_size opts)) (unat (fo_avg_size opts)) (unat (fo_max_size opts))
      (mask_for_size (fo_avg_size opts div 2)) (mask_for_size (fo_avg_size opts)) maxc"
  have step: "?loop p acc =
      (if length acc + 1 > maxc then Some (Inl CdcError.LimitExceeded) else ?loop (p + ?n) (acc @ [c]))"
    by (subst chunk_loop.simps) (simp only: Let_def p(1) if_True cut w option.case c(2))
  have acc: "length (acc @ [c]) \<le> p + ?n"
    using b(1) Cons.prems(3) by simp
  show ?case
    using Cons.IH [OF c(3) p(2) acc] Cons.prems(4) by (simp add: step not_less)
qed

lemma chunk_data_eq:
  assumes "fastcdc_validate opts = Inr ()" "length data \<le> isize_max" "chunked sha opts 0 data cs"
  shows "chunk_data sha data opts maxc = Some (if length cs \<le> maxc then Inr cs else Inl CdcError.LimitExceeded)"
proof (cases "data = []")
  case True
  with assms(3) have "cs = []"
    by (cases cs) auto
  with True assms(1) show ?thesis
    by (simp add: chunk_data_def)
next
  case False
  then show ?thesis
    using chunk_loop_eq [OF assms(1,2), of sha 0 cs "[]" maxc] assms(1,3) by (simp add: chunk_data_def Let_def)
qed

lemma chunk_data_chunked:
  assumes "chunk_data sha data opts maxc = Some (Inr cs)" "length data \<le> isize_max"
  shows "fastcdc_validate opts = Inr ()" "chunked sha opts 0 data cs" "length cs \<le> maxc"
proof -
  show v: "fastcdc_validate opts = Inr ()"
    using assms(1) by (auto simp: chunk_data_def split: sum.splits)
  obtain ds where ds: "chunked sha opts 0 data ds"
    using chunked_exists [OF v] by blast
  show "chunked sha opts 0 data cs" "length cs \<le> maxc"
    using chunk_data_eq [OF v assms(2) ds] ds assms(1) by (auto split: if_splits)
qed

lemma chunked_count:
  assumes "fastcdc_validate opts = Inr ()" "chunked sha opts p rest cs"
  shows "(length cs - 1) * unat (fo_min_size opts) \<le> length rest"
  using assms(2)
proof (induction cs arbitrary: p rest)
  case (Cons c cs)
  let ?n = "next_cut opts rest"
  have c: "rest \<noteq> []" "chunked sha opts (p + ?n) (drop ?n rest) cs"
    using Cons.prems by auto
  note b = next_cut_bounds [OF assms(1) c(1)]
  show ?case
  proof (cases cs)
    case (Cons d ds)
    then have "drop ?n rest \<noteq> []"
      using c(2) by auto
    then show ?thesis
      using b(2,4) Cons.IH [OF c(2)] Cons by simp
  qed simp
qed simp

lemma tiles_pos: "tiles p cs \<Longrightarrow> \<forall>c \<in> set cs. 0 < unat (ch_length c)"
  by (induction cs arbitrary: p) (auto simp: unat_gt_0)

text \<open>What the chunks of \<open>rest\<close>, behind the bytes \<open>pre\<close> of a file, cover.\<close>

lemma chunked_cover:
  assumes "fastcdc_validate opts = Inr ()" "length (pre @ rest) < 2 ^ 64"
    and "chunked sha opts (length pre) rest cs"
  shows "tiles (length pre) cs \<and> tiles_end (length pre) cs = length (pre @ rest) \<and>
    (\<forall>c \<in> set cs. unat (ch_length c) \<le> unat (fo_max_size opts) \<and>
       ch_hash c = Some (sha (slice (pre @ rest) (unat (ch_offset c)) (unat (ch_length c))))) \<and>
    (\<forall>c \<in> set (butlast cs). unat (fo_min_size opts) \<le> unat (ch_length c)) \<and>
    concat (map (\<lambda>c. slice (pre @ rest) (unat (ch_offset c)) (unat (ch_length c))) cs) = rest"
  using assms(2-)
proof (induction cs arbitrary: pre rest)
  case (Cons c cs)
  let ?n = "next_cut opts rest"
  let ?pre = "pre @ take ?n rest" and ?rest = "drop ?n rest"
  have c: "rest \<noteq> []" "c = \<lparr> ch_offset = of_nat (length pre), ch_length = of_nat ?n, ch_hash = Some (sha (take ?n rest)) \<rparr>"
    "chunked sha opts (length pre + ?n) ?rest cs"
    using Cons.prems(2) by auto
  note b = next_cut_bounds [OF assms(1) c(1)]
  have u: "unat (ch_offset c) = length pre" "unat (ch_length c) = ?n" "ch_length c \<noteq> 0"
    using b(1,2) Cons.prems(1) by (auto simp: c(2) unat_of_nat_u64 simp flip: unat_gt_0 unat_eq_zero)
  have l: "length ?pre = length pre + ?n" "?pre @ ?rest = pre @ rest"
    using b(2) by simp_all
  have sl: "slice (pre @ rest) (length pre) ?n = take ?n rest"
    by (simp add: slice_def)
  have last: "unat (fo_min_size opts) \<le> ?n" if "cs \<noteq> []"
  proof -
    have "?rest \<noteq> []"
      using c(3) that by (cases cs) auto
    then show ?thesis
      using b(4) by simp
  qed
  have "length (?pre @ ?rest) < 2 ^ 64" "chunked sha opts (length ?pre) ?rest cs"
    using c(3) Cons.prems(1) by (simp_all only: l)
  note ih = Cons.IH [OF this, unfolded l]
  show ?case
    using ih b(2,3) u sl last Cons.prems(1) by (auto simp: c(2))
qed simp

section \<open>Properties\<close>

text \<open>
  (C31) The chunker returns.  For every configuration that \<^verbatim>\<open>FastCdcOptions::validate\<close> accepts and all
  data that fits in memory there is one list of chunks, no longer than the data allows with
  chunks of the minimum size, such that \<^verbatim>\<open>chunk_data\<close> ends with this list when \<^verbatim>\<open>max_chunks\<close> admits it and
  with \<^verbatim>\<open>LimitExceeded\<close> otherwise.  The overflow errors of the loop are never returned.
\<close>

lemma chunk_data_total:
  assumes "fastcdc_validate opts = Inr ()" "length data \<le> isize_max"
  shows "\<exists>cs. (length cs - 1) * unat (fo_min_size opts) \<le> length data \<and>
    (\<forall>maxc. chunk_data sha256 data opts maxc =
       Some (if length cs \<le> maxc then Inr cs else Inl CdcError.LimitExceeded))"
proof -
  obtain cs where cs: "chunked sha256 opts 0 data cs"
    using chunked_exists [OF assms(1)] by blast
  have "(length cs - 1) * unat (fo_min_size opts) \<le> length data"
    using chunked_count [OF assms(1) cs] .
  then show ?thesis
    using chunk_data_eq [OF assms cs] by blast
qed

lemma chunk_data_total_witness:
  "\<exists>cs. chunk_data (\<lambda>_. replicate 32 0) [1, 2, 3] FastCdcOptions_default 1 =
     Some (if length cs \<le> 1 then Inr cs else Inl CdcError.LimitExceeded)"
  using chunk_data_total [of FastCdcOptions_default "[1, 2, 3]" "\<lambda>_. replicate 32 0"]
  by (auto simp: fastcdc_validate_Inr FastCdcOptions_default_def isize_max_def)

text \<open>
  (C11) The chunks cover the data.  The chunks that \<^verbatim>\<open>chunk_data\<close> returns are non-empty, start where
  the one before ends, and together are the data; none is longer than \<^verbatim>\<open>max_size\<close>, all but the
  last have at least \<^verbatim>\<open>min_size\<close> bytes, each carries the hash of its bytes, and the table passes
  \<^verbatim>\<open>validate_cdc_metadata\<close> for a file of that length.
\<close>

lemma chunks_cover_data:
  assumes "chunk_data sha256 data opts maxc = Some (Inr cs)" "length data \<le> isize_max"
  shows "concat (map (\<lambda>c. slice data (unat (ch_offset c)) (unat (ch_length c))) cs) = data \<and>
    (\<forall>c \<in> set cs. 0 < unat (ch_length c) \<and> unat (ch_length c) \<le> unat (fo_max_size opts) \<and>
      ch_hash c = Some (sha256 (slice data (unat (ch_offset c)) (unat (ch_length c))))) \<and>
    (\<forall>c \<in> set (butlast cs). unat (fo_min_size opts) \<le> unat (ch_length c)) \<and>
    validate_cdc_metadata \<lparr> cm_algorithm_id = CDC_ALGO_FASTCDC, cm_min_size = fo_min_size opts,
        cm_avg_size = fo_avg_size opts, cm_max_size = fo_max_size opts, cm_chunks = cs \<rparr>
      (of_nat (length data)) maxc = Inr ()"
proof -
  note ch = chunk_data_chunked [OF assms]
  have len: "length data < 2 ^ 64"
    using assms(2) by (simp add: isize_max_def)
  have cov: "tiles 0 cs \<and> tiles_end 0 cs = length data \<and>
    (\<forall>c \<in> set cs. unat (ch_length c) \<le> unat (fo_max_size opts) \<and>
       ch_hash c = Some (sha256 (slice data (unat (ch_offset c)) (unat (ch_length c))))) \<and>
    (\<forall>c \<in> set (butlast cs). unat (fo_min_size opts) \<le> unat (ch_length c)) \<and>
    concat (map (\<lambda>c. slice data (unat (ch_offset c)) (unat (ch_length c))) cs) = data"
    using chunked_cover [OF ch(1), of "[]" data sha256 cs] ch(2) len by simp
  moreover have "validate_cdc_metadata \<lparr> cm_algorithm_id = CDC_ALGO_FASTCDC, cm_min_size = fo_min_size opts,
        cm_avg_size = fo_avg_size opts, cm_max_size = fo_max_size opts, cm_chunks = cs \<rparr>
      (of_nat (length data)) maxc = Inr ()"
    using cov ch(3) len by (simp add: validate_cdc_metadata_Inr unat_of_nat_u64)
  ultimately show ?thesis
    using tiles_pos [of 0 cs] by blast
qed

lemma chunks_cover_data_witness:
  "chunk_data (\<lambda>_. replicate 32 0) [1, 2, 3] FastCdcOptions_default 1 =
     Some (Inr [\<lparr> ch_offset = 0, ch_length = 3, ch_hash = Some (replicate 32 0) \<rparr>]) \<and>
   concat (map (\<lambda>c. slice [1, 2, 3 :: u8] (unat (ch_offset c)) (unat (ch_length c)))
     [\<lparr> ch_offset = 0, ch_length = 3, ch_hash = Some (replicate 32 0) \<rparr>]) = [1, 2, 3]"
proof -
  have "chunked (\<lambda>_. replicate 32 0) FastCdcOptions_default 0 [1, 2, 3]
      [\<lparr> ch_offset = 0, ch_length = 3, ch_hash = Some (replicate 32 0) \<rparr>]"
    by (simp add: next_cut_def fastcdc_cut_short FastCdcOptions_default_def)
  then have "chunk_data (\<lambda>_. replicate 32 0) [1, 2, 3] FastCdcOptions_default 1 =
      Some (Inr [\<lparr> ch_offset = 0, ch_length = 3, ch_hash = Some (replicate 32 0) \<rparr>])"
    by (subst chunk_data_eq) (auto simp: fastcdc_validate_Inr FastCdcOptions_default_def isize_max_def)
  from this chunks_cover_data [OF this] show ?thesis
    by (simp add: isize_max_def)
qed

text \<open>
  (C33) Where the chunker cuts.  With more than \<^verbatim>\<open>min_size\<close> bytes in front of it, \<^verbatim>\<open>fastcdc_cut\<close> returns
  the first position behind \<^verbatim>\<open>min_size\<close> whose masked gear hash is zero, with the small mask up to
  \<^verbatim>\<open>avg_size\<close> and the large one behind it, and the end of the bytes when there is none; and whether a
  position qualifies depends on nothing but the 31 bytes before it.
\<close>

lemma cut_is_first:
  assumes "min_size \<le> avg" "min_size < length data"
  shows "(fastcdc_cut data min_size avg (mask_for_size s) (mask_for_size l) = c \<longleftrightarrow>
      min_size < c \<and> c \<le> length data \<and>
      (c = length data \<or> cuts_at data avg (mask_for_size s) (mask_for_size l) c) \<and>
      (\<forall>d. min_size < d \<and> d < c \<longrightarrow> \<not> cuts_at data avg (mask_for_size s) (mask_for_size l) d)) \<and>
    (\<forall>w xs ys. 31 \<le> length w \<longrightarrow>
      fold gear_step (xs @ w) 0 AND mask_for_size s = fold gear_step (ys @ w) 0 AND mask_for_size s)"
proof -
  note spec = fastcdc_cut_spec [OF assms, of "mask_for_size s" "mask_for_size l", unfolded Let_def]
  have "fastcdc_cut data min_size avg (mask_for_size s) (mask_for_size l) = c \<longleftrightarrow>
      min_size < c \<and> c \<le> length data \<and>
      (c = length data \<or> cuts_at data avg (mask_for_size s) (mask_for_size l) c) \<and>
      (\<forall>d. min_size < d \<and> d < c \<longrightarrow> \<not> cuts_at data avg (mask_for_size s) (mask_for_size l) d)"
    using spec by (metis linorder_neqE_nat not_le)
  then show ?thesis
    using gear_window [of _ _ s, unfolded gear_def] by blast
qed

lemma cut_is_first_witness:
  "fastcdc_cut [5, 6, 7] 2 4 (mask_for_size 1) (mask_for_size 2) = 3"
  using cut_is_first [of 2 4 "[5, 6, 7]" 1 2 3] by auto

text \<open>
  (C32) Equal content is cut equally.  When two files end with the same bytes and the chunker cuts
  both where these bytes begin, the chunks from there on have the same lengths and the same
  hashes, wherever the bytes stand in the two files.
\<close>

lemma shared_tail_same_chunks:
  assumes "chunk_data sha256 (xs @ tail) opts m = Some (Inr (as @ cs))" "tiles_end 0 as = length xs"
    and "chunk_data sha256 (ys @ tail) opts n = Some (Inr (bs @ ds))" "tiles_end 0 bs = length ys"
    and "length (xs @ tail) \<le> isize_max" "length (ys @ tail) \<le> isize_max"
  shows "map ch_hash cs = map ch_hash ds \<and> map ch_length cs = map ch_length ds"
proof -
  have small: "0 + length zs < 2 ^ 64" if "length zs \<le> isize_max" for zs :: bytes
    using that by (simp add: isize_max_def)
  note x = chunk_data_chunked [OF assms(1,5)] and y = chunk_data_chunked [OF assms(3,6)]
  have "chunked sha256 opts (length xs) tail cs" "chunked sha256 opts (length ys) tail ds"
    using chunked_append [OF x(1,2) small [OF assms(5)]] chunked_append [OF y(1,2) small [OF assms(6)]] assms(2,4)
    by simp_all
  then show ?thesis
    by (rule chunked_hash_length)
qed

definition sample_opts :: FastCdcOptions where
  "sample_opts = \<lparr> fo_min_size = 64, fo_avg_size = 64, fo_max_size = 64 \<rparr>"

definition sample_hash :: "bytes \<Rightarrow> bytes" where
  "sample_hash d = [of_nat (length d), hd d]"

definition sample_chunk :: "nat \<Rightarrow> nat \<Rightarrow> u8 \<Rightarrow> CdcChunk" where
  "sample_chunk p n b = \<lparr> ch_offset = of_nat p, ch_length = of_nat n, ch_hash = Some [of_nat n, b] \<rparr>"

lemma sample_cut: "next_cut sample_opts rest = min 64 (length rest)"
  by (simp add: next_cut_def fastcdc_cut_short sample_opts_def)

lemma sample_tail:
  "p < 2 ^ 32 \<Longrightarrow> chunked sample_hash sample_opts p (replicate 64 1 @ [2, 3]) [sample_chunk p 64 1, sample_chunk (p + 64) 2 2]"
  by (simp add: sample_cut sample_chunk_def sample_hash_def)

lemma sample_chunk_data:
  "chunk_data sample_hash ((4 # replicate 63 0) @ replicate 64 1 @ [2, 3]) sample_opts 9 =
     Some (Inr ([sample_chunk 0 64 4] @ [sample_chunk 64 64 1, sample_chunk 128 2 2]))"
  "chunk_data sample_hash ([] @ replicate 64 1 @ [2, 3]) sample_opts 9 =
     Some (Inr ([] @ [sample_chunk 0 64 1, sample_chunk 64 2 2]))"
proof -
  have ok: "fastcdc_validate sample_opts = Inr ()"
    by (simp add: fastcdc_validate_Inr sample_opts_def)
  have "chunked sample_hash sample_opts 0 ((4 # replicate 63 0) @ replicate 64 1 @ [2, 3])
      ([sample_chunk 0 64 4] @ [sample_chunk 64 64 1, sample_chunk 128 2 2])"
    using sample_tail [of 64] by (simp add: sample_cut sample_chunk_def sample_hash_def)
  from chunk_data_eq [OF ok _ this, of 9]
  show "chunk_data sample_hash ((4 # replicate 63 0) @ replicate 64 1 @ [2, 3]) sample_opts 9 =
     Some (Inr ([sample_chunk 0 64 4] @ [sample_chunk 64 64 1, sample_chunk 128 2 2]))"
    by (simp add: isize_max_def)
  show "chunk_data sample_hash ([] @ replicate 64 1 @ [2, 3]) sample_opts 9 =
     Some (Inr ([] @ [sample_chunk 0 64 1, sample_chunk 64 2 2]))"
    using chunk_data_eq [OF ok _ sample_tail [of 0], of 9] by (simp add: isize_max_def)
qed

lemma shared_tail_same_chunks_witness:
  "chunk_data sample_hash ((4 # replicate 63 0) @ replicate 64 1 @ [2, 3]) sample_opts 9 =
     Some (Inr ([sample_chunk 0 64 4] @ [sample_chunk 64 64 1, sample_chunk 128 2 2])) \<and>
   map ch_hash [sample_chunk 64 64 1, sample_chunk 128 2 2] = map ch_hash [sample_chunk 0 64 1, sample_chunk 64 2 2] \<and>
   map ch_length [sample_chunk 64 64 1, sample_chunk 128 2 2] = map ch_length [sample_chunk 0 64 1, sample_chunk 64 2 2]"
proof -
  have "tiles_end 0 [sample_chunk 0 64 4] = length (4 # replicate 63 (0 :: u8))"
    by (simp add: sample_chunk_def)
  from shared_tail_same_chunks [OF sample_chunk_data(1) this sample_chunk_data(2)] sample_chunk_data(1) show ?thesis
    by (simp add: isize_max_def)
qed

end
