(* ===== verification/Sar_Delta.thy ===== *)
theory Sar_Delta
  imports Sar_Error Sar_Table
begin

text \<open>
  Delta patches: the algorithm registry and \<^verbatim>\<open>STORE_PATCH\<close> of \<^verbatim>\<open>crates/sar-delta/src/algo.rs\<close> and the
  \<^verbatim>\<open>BSDIFF\<close> format of \<^verbatim>\<open>crates/sar-delta/src/bsdiff.rs\<close>.  An \<^verbatim>\<open>i64\<close> is an \<^typ>\<open>int\<close> in its range, with the
  checked conversions and additions written out.  The lemmas show that applying a patch is the
  three-step algorithm of the format and that a generated patch restores its target.
\<close>

section \<open>Registry\<close>

definition PATCH_ALGO_STORE_PATCH :: u8 where "PATCH_ALGO_STORE_PATCH = 0x00"
definition PATCH_ALGO_VCDIFF :: u8 where "PATCH_ALGO_VCDIFF = 0x01"
definition PATCH_ALGO_BSDIFF :: u8 where "PATCH_ALGO_BSDIFF = 0x02"
definition PATCH_ALGO_ZSTD_PATCH :: u8 where "PATCH_ALGO_ZSTD_PATCH = 0x03"
definition PATCH_ALGO_CUSTOM_MIN :: u8 where "PATCH_ALGO_CUSTOM_MIN = 0xF0"
definition PATCH_ALGO_CUSTOM_MAX :: u8 where "PATCH_ALGO_CUSTOM_MAX = 0xFF"

lemmas patch_algo_defs = PATCH_ALGO_STORE_PATCH_def PATCH_ALGO_VCDIFF_def PATCH_ALGO_BSDIFF_def
  PATCH_ALGO_ZSTD_PATCH_def PATCH_ALGO_CUSTOM_MIN_def PATCH_ALGO_CUSTOM_MAX_def

datatype PatchAlgoId = StorePatch | Vcdiff | Bsdiff | ZstdPatch | Custom u8

primrec PatchAlgoId_as_u8 :: "PatchAlgoId \<Rightarrow> u8" where
  "PatchAlgoId_as_u8 StorePatch = PATCH_ALGO_STORE_PATCH"
| "PatchAlgoId_as_u8 Vcdiff = PATCH_ALGO_VCDIFF"
| "PatchAlgoId_as_u8 Bsdiff = PATCH_ALGO_BSDIFF"
| "PatchAlgoId_as_u8 ZstdPatch = PATCH_ALGO_ZSTD_PATCH"
| "PatchAlgoId_as_u8 (Custom b) = b"

primrec PatchAlgoId_name :: "PatchAlgoId \<Rightarrow> string" where
  "PatchAlgoId_name StorePatch = ''STORE_PATCH''"
| "PatchAlgoId_name Vcdiff = ''VCDIFF''"
| "PatchAlgoId_name Bsdiff = ''BSDIFF''"
| "PatchAlgoId_name ZstdPatch = ''ZSTD_PATCH''"
| "PatchAlgoId_name (Custom b) = ''CUSTOM''"

datatype PatchError = Unsupported | ReservedValue | PatchFailed | BaseMissing | LimitExceeded

definition validate_patch_algo_id :: "u8 \<Rightarrow> PatchError + PatchAlgoId" where
  "validate_patch_algo_id b =
     (if b = PATCH_ALGO_STORE_PATCH then Inr StorePatch
      else if b = PATCH_ALGO_VCDIFF then Inr Vcdiff
      else if b = PATCH_ALGO_BSDIFF then Inr Bsdiff
      else if b = PATCH_ALGO_ZSTD_PATCH then Inr ZstdPatch
      else if PATCH_ALGO_CUSTOM_MIN \<le> b \<and> b \<le> PATCH_ALGO_CUSTOM_MAX then Inl PatchError.Unsupported
      else Inl PatchError.ReservedValue)"

definition patch_algo_name :: "u8 \<Rightarrow> string" where
  "patch_algo_name b =
     (if b = PATCH_ALGO_STORE_PATCH then ''STORE_PATCH''
      else if b = PATCH_ALGO_VCDIFF then ''VCDIFF''
      else if b = PATCH_ALGO_BSDIFF then ''BSDIFF''
      else if b = PATCH_ALGO_ZSTD_PATCH then ''ZSTD_PATCH''
      else if PATCH_ALGO_CUSTOM_MIN \<le> b \<and> b \<le> PATCH_ALGO_CUSTOM_MAX then ''custom''
      else ''unknown'')"

definition generate_store_patch :: "bytes \<Rightarrow> u64 \<Rightarrow> PatchError + bytes" where
  "generate_store_patch target expected_len =
     (let actual_len = (of_nat (length target) :: u64) in
      if actual_len \<noteq> expected_len then Inl PatchError.PatchFailed else Inr target)"

definition apply_store_patch :: "bytes \<Rightarrow> u64 \<Rightarrow> PatchError + bytes" where
  "apply_store_patch patch_payload expected_len =
     (let actual_len = (of_nat (length patch_payload) :: u64) in
      if actual_len \<noteq> expected_len then Inl PatchError.PatchFailed else Inr patch_payload)"

section \<open>Signed arithmetic\<close>

definition i64_min :: int where "i64_min = - (2 ^ 63)"
definition i64_max :: int where "i64_max = 2 ^ 63 - 1"

definition checked_add_i64 :: "int \<Rightarrow> int \<Rightarrow> int option" where
  "checked_add_i64 a b = (if i64_min \<le> a + b \<and> a + b \<le> i64_max then Some (a + b) else None)"

definition i64_of_usize :: "nat \<Rightarrow> int option" where
  "i64_of_usize n = (if int n \<le> i64_max then Some (int n) else None)"

definition u64_of_i64 :: "int \<Rightarrow> u64 option" where
  "u64_of_i64 v = (if 0 \<le> v then Some (of_int v) else None)"

definition usize_of_i64 :: "int \<Rightarrow> nat option" where
  "usize_of_i64 v = (if 0 \<le> v then Some (nat v) else None)"

section \<open>Integers of the format\<close>

definition SAR_BSDIFF_MAGIC :: bytes where
  "SAR_BSDIFF_MAGIC = [0x53, 0x41, 0x52, 0x42, 0x53, 0x44, 0x30, 0x31]"

definition BSDIFF_HEADER_SIZE :: nat where "BSDIFF_HEADER_SIZE = 32"
definition BSDIFF_CONTROL_TRIPLE_COUNT :: nat where "BSDIFF_CONTROL_TRIPLE_COUNT = 1"
definition BSDIFF_CONTROL_ENTRY_COUNT :: u64 where "BSDIFF_CONTROL_ENTRY_COUNT = 3"
definition BSDIFF_CONTROL_VALUE_SIZE :: u64 where "BSDIFF_CONTROL_VALUE_SIZE = 8"
definition BSDIFF_CONTROL_VALUE_SIZE_USIZE :: nat where "BSDIFF_CONTROL_VALUE_SIZE_USIZE = 8"

definition BSDIFF_SINGLE_TRIPLE_CONTROL_BYTES :: u64 where
  "BSDIFF_SINGLE_TRIPLE_CONTROL_BYTES = BSDIFF_CONTROL_ENTRY_COUNT * BSDIFF_CONTROL_VALUE_SIZE"

definition BSDIFF_SINGLE_TRIPLE_CONTROL_BYTES_USIZE :: nat where
  "BSDIFF_SINGLE_TRIPLE_CONTROL_BYTES_USIZE = 24"

lemmas bsdiff_consts = BSDIFF_HEADER_SIZE_def BSDIFF_CONTROL_TRIPLE_COUNT_def BSDIFF_CONTROL_ENTRY_COUNT_def
  BSDIFF_CONTROL_VALUE_SIZE_def BSDIFF_CONTROL_VALUE_SIZE_USIZE_def BSDIFF_SINGLE_TRIPLE_CONTROL_BYTES_def
  BSDIFF_SINGLE_TRIPLE_CONTROL_BYTES_USIZE_def

definition encode_bsdiff_int :: "int \<Rightarrow> bytes" where
  "encode_bsdiff_int v =
     (let magnitude = (of_int \<bar>v\<bar> :: u64);
          sign_bit = (if v < 0 then 0x80 else 0x00) :: u8;
          bytes = le_bytes 8 magnitude in
      bytes[7 := ((bytes ! 7) AND 0x7F) OR sign_bit])"

definition decode_bsdiff_int :: "bytes \<Rightarrow> PatchError + int" where
  "decode_bsdiff_int bytes =
     (if length bytes \<noteq> 8 then Inl PatchError.PatchFailed else
      let magnitude = (from_le (take 7 bytes @ [(bytes ! 7) AND 0x7F]) :: u64);
          negative = ((bytes ! 7) AND 0x80 \<noteq> 0) in
      if uint magnitude > i64_max then Inl PatchError.PatchFailed else
      let v = uint magnitude in
      Inr (if negative then - v else v))"

record BsdiffLimits =
  bl_max_patch_size :: u64
  bl_max_control_bytes :: u64
  bl_max_diff_bytes :: u64
  bl_max_extra_bytes :: u64
  bl_max_control_triples :: nat
  bl_max_target_size :: u64

definition BsdiffLimits_default :: BsdiffLimits where
  "BsdiffLimits_default = \<lparr>
     bl_max_patch_size = 512 * 1024 * 1024,
     bl_max_control_bytes = 64 * 1024 * 1024,
     bl_max_diff_bytes = 1024 * 1024 * 1024,
     bl_max_extra_bytes = 1024 * 1024 * 1024,
     bl_max_control_triples = 4000000,
     bl_max_target_size = 1024 * 1024 * 1024 \<rparr>"

definition BsdiffLimits_unlimited :: BsdiffLimits where
  "BsdiffLimits_unlimited = \<lparr>
     bl_max_patch_size = u64_max,
     bl_max_control_bytes = u64_max,
     bl_max_diff_bytes = u64_max,
     bl_max_extra_bytes = u64_max,
     bl_max_control_triples = usize_max,
     bl_max_target_size = u64_max \<rparr>"

section \<open>Applying a patch\<close>

text \<open>The header and the offsets of the three blocks.\<close>

record BsHeader =
  bh_diff_len :: u64
  bh_extra_len :: u64
  bh_new_size :: u64
  bh_triples :: nat
  bh_ctrl :: bytes
  bh_diff :: bytes
  bh_extra :: bytes

definition bsdiff_header :: "bytes \<Rightarrow> u64 \<Rightarrow> BsdiffLimits \<Rightarrow> PatchError + BsHeader" where
  "bsdiff_header patch expected_target_size limits =
     bindR (ok_or (word_of_usize (length patch)) PatchError.LimitExceeded) (\<lambda>(patch_len :: u64).
     if patch_len > bl_max_patch_size limits then Inl PatchError.LimitExceeded else
     if length patch < BSDIFF_HEADER_SIZE then Inl PatchError.PatchFailed else
     if take 8 patch \<noteq> SAR_BSDIFF_MAGIC then Inl PatchError.PatchFailed else
     bindR (decode_bsdiff_int (slice patch 8 8)) (\<lambda>ctrl_len_raw.
     bindR (decode_bsdiff_int (slice patch 16 8)) (\<lambda>diff_len_raw.
     bindR (decode_bsdiff_int (slice patch 24 8)) (\<lambda>new_size_raw.
     if ctrl_len_raw < 0 then Inl PatchError.PatchFailed else
     if diff_len_raw < 0 then Inl PatchError.PatchFailed else
     if new_size_raw < 0 then Inl PatchError.PatchFailed else
     bindR (ok_or (u64_of_i64 ctrl_len_raw) PatchError.PatchFailed) (\<lambda>ctrl_len.
     bindR (ok_or (u64_of_i64 diff_len_raw) PatchError.PatchFailed) (\<lambda>diff_len.
     bindR (ok_or (u64_of_i64 new_size_raw) PatchError.PatchFailed) (\<lambda>new_size.
     if new_size \<noteq> expected_target_size then Inl PatchError.PatchFailed else
     if new_size > bl_max_target_size limits then Inl PatchError.LimitExceeded else
     if ctrl_len > bl_max_control_bytes limits then Inl PatchError.LimitExceeded else
     if diff_len > bl_max_diff_bytes limits then Inl PatchError.LimitExceeded else
     let ctrl_start = (32 :: u64) in
     bindR (ok_or (checked_add_word ctrl_start ctrl_len) PatchError.PatchFailed) (\<lambda>diff_start.
     bindR (ok_or (checked_add_word diff_start diff_len) PatchError.PatchFailed) (\<lambda>extra_start.
     if extra_start > patch_len then Inl PatchError.PatchFailed else
     bindR (ok_or (checked_sub_word patch_len extra_start) PatchError.PatchFailed) (\<lambda>extra_len.
     if extra_len > bl_max_extra_bytes limits then Inl PatchError.LimitExceeded else
     if ctrl_len mod BSDIFF_SINGLE_TRIPLE_CONTROL_BYTES \<noteq> 0 then Inl PatchError.PatchFailed else
     let triple_count_u64 = ctrl_len div BSDIFF_SINGLE_TRIPLE_CONTROL_BYTES in
     bindR (ok_or (usize_of_word triple_count_u64) PatchError.LimitExceeded) (\<lambda>n_triples.
     if n_triples > bl_max_control_triples limits then Inl PatchError.LimitExceeded else
     bindR (ok_or (usize_of_word ctrl_start) PatchError.PatchFailed) (\<lambda>ctrl_start_usize.
     bindR (ok_or (usize_of_word diff_start) PatchError.PatchFailed) (\<lambda>diff_start_usize.
     bindR (ok_or (usize_of_word extra_start) PatchError.PatchFailed) (\<lambda>extra_start_usize.
     Inr \<lparr> bh_diff_len = diff_len, bh_extra_len = extra_len, bh_new_size = new_size, bh_triples = n_triples,
           bh_ctrl = slice patch ctrl_start_usize (diff_start_usize - ctrl_start_usize),
           bh_diff = slice patch diff_start_usize (extra_start_usize - diff_start_usize),
           bh_extra = drop extra_start_usize patch \<rparr>))))))))))))))"

record BsState =
  bs_target :: bytes
  bs_old_pos :: int
  bs_new_pos :: u64
  bs_diff_pos :: u64
  bs_extra_pos :: u64

text \<open>One iteration of the loop over the bytes of a diff step.\<close>

definition diff_byte :: "bytes \<Rightarrow> bytes \<Rightarrow> int \<Rightarrow> nat \<Rightarrow> nat \<Rightarrow> nat \<Rightarrow> bytes \<Rightarrow> PatchError + bytes" where
  "diff_byte base diff_data old_pos diff_pos_usize new_pos_usize j target =
     bindR (ok_or (checked_add_usize diff_pos_usize j) PatchError.PatchFailed) (\<lambda>diff_idx.
     bindR (ok_or (checked_add_usize new_pos_usize j) PatchError.PatchFailed) (\<lambda>new_idx.
     bindR (ok_or (i64_of_usize j) PatchError.PatchFailed) (\<lambda>j_i64.
     bindR (ok_or (checked_add_i64 old_pos j_i64) PatchError.PatchFailed) (\<lambda>old_byte_pos.
     bindR (if old_byte_pos < 0 then Inl PatchError.PatchFailed
            else case usize_of_i64 old_byte_pos of
                   Some old_idx \<Rightarrow> Inr (if old_idx < length base then base ! old_idx else 0)
                 | None \<Rightarrow> Inr 0) (\<lambda>old_byte.
     Inr (target[new_idx := diff_data ! diff_idx + old_byte]))))))"

text \<open>The diff step and the extra step of one control triple, and the whole triple.\<close>

definition diff_step :: "bytes \<Rightarrow> BsHeader \<Rightarrow> int \<Rightarrow> u64 \<Rightarrow> BsState \<Rightarrow> PatchError + BsState" where
  "diff_step base h d_len_raw d_len s =
     bindR (ok_or (checked_add_word (bs_new_pos s) d_len) PatchError.PatchFailed) (\<lambda>new_after_diff.
     if new_after_diff > bh_new_size h then Inl PatchError.PatchFailed else
     bindR (ok_or (checked_add_word (bs_diff_pos s) d_len) PatchError.PatchFailed) (\<lambda>diff_end.
     if diff_end > bh_diff_len h then Inl PatchError.PatchFailed else
     bindR (ok_or (usize_of_word d_len) PatchError.PatchFailed) (\<lambda>d_len_usize.
     bindR (ok_or (usize_of_word (bs_diff_pos s)) PatchError.PatchFailed) (\<lambda>diff_pos_usize.
     bindR (ok_or (usize_of_word (bs_new_pos s)) PatchError.PatchFailed) (\<lambda>new_pos_usize.
     bindR (foldR (diff_byte base (bh_diff h) (bs_old_pos s) diff_pos_usize new_pos_usize) [0..<d_len_usize]
              (bs_target s)) (\<lambda>target.
     bindR (ok_or (checked_add_i64 (bs_old_pos s) d_len_raw) PatchError.PatchFailed) (\<lambda>old_pos.
     Inr (s\<lparr> bs_target := target, bs_old_pos := old_pos, bs_new_pos := new_after_diff,
             bs_diff_pos := diff_end \<rparr>))))))))"

definition extra_step :: "BsHeader \<Rightarrow> u64 \<Rightarrow> BsState \<Rightarrow> PatchError + BsState" where
  "extra_step h e_len s =
     bindR (ok_or (checked_add_word (bs_new_pos s) e_len) PatchError.PatchFailed) (\<lambda>new_after_extra.
     if new_after_extra > bh_new_size h then Inl PatchError.PatchFailed else
     bindR (ok_or (checked_add_word (bs_extra_pos s) e_len) PatchError.PatchFailed) (\<lambda>extra_end.
     if extra_end > bh_extra_len h then Inl PatchError.PatchFailed else
     bindR (ok_or (usize_of_word (bs_extra_pos s)) PatchError.PatchFailed) (\<lambda>extra_pos_usize.
     bindR (ok_or (usize_of_word extra_end) PatchError.PatchFailed) (\<lambda>extra_end_usize.
     bindR (ok_or (usize_of_word (bs_new_pos s)) PatchError.PatchFailed) (\<lambda>new_pos_usize.
     bindR (ok_or (usize_of_word new_after_extra) PatchError.PatchFailed) (\<lambda>_.
     Inr (s\<lparr> bs_target := copy_into (bs_target s) new_pos_usize
               (slice (bh_extra h) extra_pos_usize (extra_end_usize - extra_pos_usize)),
             bs_new_pos := new_after_extra, bs_extra_pos := extra_end \<rparr>)))))))"

definition control_triple :: "bytes \<Rightarrow> BsHeader \<Rightarrow> nat \<Rightarrow> BsState \<Rightarrow> PatchError + BsState" where
  "control_triple base h triple_idx s =
     bindR (ok_or (checked_mul_usize triple_idx BSDIFF_SINGLE_TRIPLE_CONTROL_BYTES_USIZE) PatchError.PatchFailed)
       (\<lambda>triple_offset.
     bindR (ok_or (checked_add_usize triple_offset BSDIFF_SINGLE_TRIPLE_CONTROL_BYTES_USIZE) PatchError.PatchFailed)
       (\<lambda>triple_end.
     if triple_end > length (bh_ctrl h) then Inl PatchError.PatchFailed else
     let triple = slice (bh_ctrl h) triple_offset (triple_end - triple_offset) in
     bindR (decode_bsdiff_int (slice triple 0 8)) (\<lambda>d_len_raw.
     bindR (decode_bsdiff_int (slice triple 8 8)) (\<lambda>e_len_raw.
     bindR (decode_bsdiff_int (slice triple 16 8)) (\<lambda>seek_adj.
     if d_len_raw < 0 then Inl PatchError.PatchFailed else
     if e_len_raw < 0 then Inl PatchError.PatchFailed else
     bindR (ok_or (u64_of_i64 d_len_raw) PatchError.PatchFailed) (\<lambda>d_len.
     bindR (ok_or (u64_of_i64 e_len_raw) PatchError.PatchFailed) (\<lambda>e_len.
     bindR (diff_step base h d_len_raw d_len s) (\<lambda>s.
     bindR (extra_step h e_len s) (\<lambda>s.
     bindR (ok_or (checked_add_i64 (bs_old_pos s) seek_adj) PatchError.PatchFailed) (\<lambda>old_pos.
     if old_pos < 0 then Inl PatchError.PatchFailed else
     Inr (s\<lparr> bs_old_pos := old_pos \<rparr>)))))))))))"

definition apply_bsdiff :: "bytes \<Rightarrow> bytes \<Rightarrow> u64 \<Rightarrow> BsdiffLimits \<Rightarrow> PatchError + bytes" where
  "apply_bsdiff base patch expected_target_size limits =
     bindR (bsdiff_header patch expected_target_size limits) (\<lambda>h.
     bindR (ok_or (usize_of_word (bh_new_size h)) PatchError.LimitExceeded) (\<lambda>target_len.
     let s = \<lparr> bs_target = replicate target_len 0, bs_old_pos = 0, bs_new_pos = 0, bs_diff_pos = 0,
               bs_extra_pos = 0 \<rparr> in
     bindR (foldR (control_triple base h) [0..<bh_triples h] s) (\<lambda>s.
     if bs_new_pos s \<noteq> bh_new_size h then Inl PatchError.PatchFailed else
     if bs_diff_pos s \<noteq> bh_diff_len h then Inl PatchError.PatchFailed else
     if bs_extra_pos s \<noteq> bh_extra_len h then Inl PatchError.PatchFailed else
     Inr (bs_target s))))"

section \<open>Generating a patch\<close>

definition generate_bsdiff_patch :: "bytes \<Rightarrow> bytes \<Rightarrow> BsdiffLimits \<Rightarrow> PatchError + bytes" where
  "generate_bsdiff_patch base target limits =
     bindR (ok_or (word_of_usize (length target)) PatchError.LimitExceeded) (\<lambda>(target_size :: u64).
     if target_size > bl_max_target_size limits then Inl PatchError.LimitExceeded else
     let diff_step = min (length base) (length target) in
     bindR (ok_or (checked_sub_usize (length target) diff_step) PatchError.LimitExceeded) (\<lambda>extra_step.
     bindR (ok_or (word_of_usize diff_step) PatchError.LimitExceeded) (\<lambda>(diff_step_u64 :: u64).
     bindR (ok_or (word_of_usize extra_step) PatchError.LimitExceeded) (\<lambda>(extra_step_u64 :: u64).
     if diff_step_u64 > bl_max_diff_bytes limits then Inl PatchError.LimitExceeded else
     if extra_step_u64 > bl_max_extra_bytes limits then Inl PatchError.LimitExceeded else
     if bl_max_control_triples limits < BSDIFF_CONTROL_TRIPLE_COUNT then Inl PatchError.LimitExceeded else
     if bl_max_control_bytes limits < BSDIFF_SINGLE_TRIPLE_CONTROL_BYTES then Inl PatchError.LimitExceeded else
     bindR (ok_or (checked_add_usize BSDIFF_HEADER_SIZE BSDIFF_SINGLE_TRIPLE_CONTROL_BYTES_USIZE)
              PatchError.LimitExceeded) (\<lambda>n.
     bindR (ok_or (checked_add_usize n diff_step) PatchError.LimitExceeded) (\<lambda>n.
     bindR (ok_or (checked_add_usize n extra_step) PatchError.LimitExceeded) (\<lambda>patch_size.
     bindR (ok_or (word_of_usize patch_size) PatchError.LimitExceeded) (\<lambda>(patch_size_u64 :: u64).
     if patch_size_u64 > bl_max_patch_size limits then Inl PatchError.LimitExceeded else
     bindR (ok_or (i64_of_usize diff_step) PatchError.LimitExceeded) (\<lambda>diff_step_i64.
     bindR (ok_or (i64_of_usize extra_step) PatchError.LimitExceeded) (\<lambda>extra_step_i64.
     bindR (ok_or (i64_of_usize (length target)) PatchError.LimitExceeded) (\<lambda>target_i64.
     Inr (SAR_BSDIFF_MAGIC @ encode_bsdiff_int (uint BSDIFF_SINGLE_TRIPLE_CONTROL_BYTES) @
          encode_bsdiff_int diff_step_i64 @ encode_bsdiff_int target_i64 @
          encode_bsdiff_int diff_step_i64 @ encode_bsdiff_int extra_step_i64 @ encode_bsdiff_int 0 @
          map (\<lambda>i. target ! i - base ! i) [0..<diff_step] @ drop diff_step target))))))))))))"

section \<open>Integers are read back\<close>

lemma nth_le_bytes: "i < n \<Longrightarrow> le_bytes n w ! i = ucast (drop_bit (8 * i) w)"
  by (induction n arbitrary: i w) (auto simp: nth_Cons' less_Suc_eq_0_disj add.commute)

lemma bit_0x7F: "bit (0x7F :: u8) n \<longleftrightarrow> n < 7"
proof -
  have "(0x7F :: u8) = mask 7"
    by (simp add: mask_eq_exp_minus_1)
  then show ?thesis
    by (simp only: bit_mask_iff) auto
qed

lemma bit_0x80: "bit (0x80 :: u8) n \<longleftrightarrow> n = 7"
proof -
  have "(0x80 :: u8) = 2 ^ 7"
    by simp
  then show ?thesis
    by (simp only: bit_exp_iff) auto
qed

lemma sign_bits:
  fixes b :: u8
  shows "(((b AND 0x7F) OR 0x80) AND 0x7F) = b AND 0x7F" "((b AND 0x7F) OR 0x80) AND 0x80 \<noteq> 0"
    "(b AND 0x7F) AND 0x7F = b AND 0x7F" "(b AND 0x7F) AND 0x80 = 0"
proof -
  show "(((b AND 0x7F) OR 0x80) AND 0x7F) = b AND 0x7F"
    by (rule bit_word_eqI) (auto simp: bit_and_iff bit_or_iff bit_0x7F bit_0x80 simp del: bit_numeral_word_iff)
  show "(b AND 0x7F) AND 0x7F = b AND 0x7F"
    by (rule bit_word_eqI) (auto simp: bit_and_iff)
  show "(b AND 0x7F) AND 0x80 = 0"
    by (rule bit_word_eqI) (auto simp: bit_and_iff bit_0x7F bit_0x80 simp del: bit_numeral_word_iff)
  have "bit (((b AND 0x7F) OR 0x80) AND 0x80) 7"
    by (simp only: bit_and_iff bit_or_iff bit_0x7F bit_0x80) simp
  then show "((b AND 0x7F) OR 0x80) AND 0x80 \<noteq> 0"
    by (metis bit_0_eq bot_apply bot_bool_def)
qed

lemma decode_encode_int:
  assumes "\<bar>v\<bar> \<le> i64_max"
  shows "decode_bsdiff_int (encode_bsdiff_int v) = Inr v"
proof -
  define m where "m = (of_int \<bar>v\<bar> :: u64)"
  let ?bs = "le_bytes 8 m"
  have m: "uint m = \<bar>v\<bar>"
    using assms by (simp add: m_def i64_max_def uint_word_of_int_eq take_bit_int_eq_self)
  have hi: "(?bs ! 7) AND 0x7F = ?bs ! 7"
  proof -
    have "uint m < 2 ^ 63"
      using m assms by (simp add: i64_max_def)
    then have "\<not> bit (uint m) 63"
      using m by (simp add: bit_iff_odd)
    then have "\<not> bit m 63"
      by (simp add: bit_uint_iff)
    then have "\<not> bit (?bs ! 7) 7"
      by (simp add: nth_le_bytes bit_simps)
    moreover have "n < 8 \<longleftrightarrow> n < 7 \<or> n = 7" for n :: nat
      by auto
    ultimately show ?thesis
      by (intro bit_word_eqI) (auto simp: bit_and_iff bit_0x7F simp del: bit_numeral_word_iff)
  qed
  have len: "take 7 ?bs @ [?bs ! 7] = ?bs"
    by (simp add: take_Suc_conv_app_nth [of 7 ?bs, symmetric])
  have e: "encode_bsdiff_int v = ?bs[7 := ((?bs ! 7) AND 0x7F) OR (if v < 0 then 0x80 else 0)]"
    by (simp add: encode_bsdiff_int_def Let_def m_def)
  have mag: "(from_le ?bs :: u64) = m"
    by (simp add: from_le_le_bytes)
  have b7: "(encode_bsdiff_int v ! 7) AND 0x7F = ?bs ! 7" "(encode_bsdiff_int v ! 7) AND 0x80 \<noteq> 0 \<longleftrightarrow> v < 0"
    using sign_bits [of "?bs ! 7", unfolded hi] by (simp_all add: e hi)
  have "take 7 (encode_bsdiff_int v) = take 7 ?bs" "length (encode_bsdiff_int v) = 8"
    by (simp_all add: e)
  then show ?thesis
    unfolding decode_bsdiff_int_def Let_def b7 using m assms by (simp add: len mag)
qed

lemma length_encode_int [simp]: "length (encode_bsdiff_int v) = 8"
  by (simp add: encode_bsdiff_int_def Let_def)

lemma decode_range:
  "decode_bsdiff_int bs = Inr v \<Longrightarrow> - i64_max \<le> v \<and> v \<le> i64_max"
  by (auto simp: decode_bsdiff_int_def Let_def i64_max_def split: if_splits intro: order_trans [of _ 0])

section \<open>What a patch means\<close>

text \<open>
  The byte of the base at a position, zero behind its end; the bytes of a diff step; and the
  output of a list of control triples \<^verbatim>\<open>(diff_len, extra_len, seek_adjust)\<close>.
\<close>

definition base_at :: "bytes \<Rightarrow> int \<Rightarrow> u8" where
  "base_at base p = (if nat p < length base then base ! nat p else 0)"

definition add_base :: "bytes \<Rightarrow> int \<Rightarrow> bytes \<Rightarrow> bytes" where
  "add_base base p ds = map (\<lambda>j. ds ! j + base_at base (p + int j)) [0..<length ds]"

fun bs_run :: "bytes \<Rightarrow> (nat \<times> nat \<times> int) list \<Rightarrow> int \<Rightarrow> bytes \<Rightarrow> bytes \<Rightarrow> bytes" where
  "bs_run base [] p diff extra = []"
| "bs_run base ((d, e, s) # ts) p diff extra =
     add_base base p (take d diff) @ take e extra @ bs_run base ts (p + int d + s) (drop d diff) (drop e extra)"

lemma length_add_base [simp]: "length (add_base base p ds) = length ds"
  by (simp add: add_base_def)

lemma add_base_snoc: "add_base base p (ds @ [x]) = add_base base p ds @ [x + base_at base (p + int (length ds))]"
  by (simp add: add_base_def nth_append)

lemma slice_Suc: "i + n < length xs \<Longrightarrow> slice xs i (Suc n) = slice xs i n @ [xs ! (i + n)]"
  by (simp add: slice_def take_Suc_conv_app_nth)

lemma copy_into_snoc:
  "i + length ys < length xs \<Longrightarrow> (copy_into xs i ys)[i + length ys := y] = copy_into xs i (ys @ [y])"
  by (rule nth_equalityI) (auto simp: nth_list_update nth_copy_into nth_append)

lemma diff_loop:
  assumes "0 \<le> p" "p + int d \<le> i64_max + 1" "np + d \<le> length target" "dp + d \<le> length diff"
    "length target \<le> usize_max" "length diff \<le> usize_max"
  shows "foldR (diff_byte base diff p dp np) [0..<d] target = Inr (copy_into target np (add_base base p (slice diff dp d)))"
  using assms(2-)
proof (induction d)
  case 0
  then show ?case
    by (simp add: slice_def add_base_def copy_into_def)
next
  case (Suc d)
  have "diff_byte base diff p dp np d t = Inr (t[np + d := diff ! (dp + d) + base_at base (p + int d)])" for t
    using Suc.prems assms(1)
    by (auto simp: diff_byte_def checked_add_usize_fits i64_of_usize_def checked_add_i64_def i64_min_def
        usize_of_i64_def base_at_def)
  moreover have "(copy_into target np (add_base base p (slice diff dp d)))[np + d := diff ! (dp + d) + base_at base (p + int d)] =
      copy_into target np (add_base base p (slice diff dp (Suc d)))"
    using Suc.prems copy_into_snoc [of np "add_base base p (slice diff dp d)" target]
    by (simp add: slice_Suc add_base_snoc)
  ultimately show ?case
    using Suc by (simp add: foldR_append)
qed

text \<open>The state of the loop agrees with the header, and the position in the base is not negative.\<close>

definition bs_ok :: "BsHeader \<Rightarrow> BsState \<Rightarrow> bool" where
  "bs_ok h s \<longleftrightarrow> length (bs_target s) = unat (bh_new_size h) \<and> length (bh_diff h) = unat (bh_diff_len h) \<and>
     length (bh_extra h) = unat (bh_extra_len h) \<and> 0 \<le> bs_old_pos s \<and> bs_old_pos s \<le> i64_max \<and>
     bs_new_pos s \<le> bh_new_size h \<and> bs_diff_pos s \<le> bh_diff_len h \<and> bs_extra_pos s \<le> bh_extra_len h"

lemma u64_below: "unat (x :: u64) \<le> usize_max"
  using unat_lt2p [of x] by (simp add: usize_max_def del: unat_u64_less)

lemma unat_add_within: "unat (a :: u64) + d \<le> unat (L :: u64) \<Longrightarrow> unat (a + of_nat d) = unat a + d"
  using unat_lt2p [of L] by (simp add: unat_word_ariths unat_of_nat del: unat_u64_less)

lemma add_within:
  assumes "d < 2 ^ 64"
  shows "bindR (ok_or (checked_add_word a (of_nat d)) er) (\<lambda>v. if v > (L :: u64) then Inl er' else k v) = Inr r \<longleftrightarrow>
    unat a + d \<le> unat L \<and> k (a + of_nat d) = Inr r"
proof (cases "unat a + d < 2 ^ 64")
  case True
  then have "checked_add_word a (of_nat d) = Some (a + of_nat d)" "unat (a + of_nat d) = unat a + d"
    using assms by (simp_all add: checked_add_word_def unat_word_ariths)
  then show ?thesis
    by (auto simp: word_less_nat_alt not_less)
next
  case False
  then show ?thesis
    using assms unat_lt2p [of L] by (simp add: checked_add_word_def del: unat_u64_less)
qed

lemma diff_step_Inr:
  assumes "bs_ok h s" "int d \<le> i64_max"
  shows "diff_step base h (int d) (of_nat d) s = Inr s' \<longleftrightarrow>
    unat (bs_new_pos s) + d \<le> unat (bh_new_size h) \<and> unat (bs_diff_pos s) + d \<le> unat (bh_diff_len h) \<and>
    bs_old_pos s + int d \<le> i64_max \<and>
    s' = s\<lparr> bs_target := copy_into (bs_target s) (unat (bs_new_pos s))
              (add_base base (bs_old_pos s) (slice (bh_diff h) (unat (bs_diff_pos s)) d)),
            bs_old_pos := bs_old_pos s + int d, bs_new_pos := bs_new_pos s + of_nat d,
            bs_diff_pos := bs_diff_pos s + of_nat d \<rparr>"
proof -
  have d: "d < 2 ^ 64"
    using assms(2) by (simp add: i64_max_def)
  note ok = assms(1) [unfolded bs_ok_def]
  have loop: "foldR (diff_byte base (bh_diff h) (bs_old_pos s) (unat (bs_diff_pos s)) (unat (bs_new_pos s))) [0..<d] (bs_target s) =
      Inr (copy_into (bs_target s) (unat (bs_new_pos s)) (add_base base (bs_old_pos s) (slice (bh_diff h) (unat (bs_diff_pos s)) d)))"
    if "unat (bs_new_pos s) + d \<le> unat (bh_new_size h)" "unat (bs_diff_pos s) + d \<le> unat (bh_diff_len h)"
      "bs_old_pos s + int d \<le> i64_max"
    using that ok u64_below by (intro diff_loop) auto
  have old: "checked_add_i64 (bs_old_pos s) (int d) = Some p \<longleftrightarrow> bs_old_pos s + int d \<le> i64_max \<and> p = bs_old_pos s + int d" for p
    using ok by (auto simp: checked_add_i64_def i64_min_def)
  have "unat (of_nat d :: u64) = d"
    using d by simp
  then show ?thesis
    unfolding diff_step_def add_within [OF d] using loop old
    by (auto simp: bindR_eq_Inr)
qed

lemma extra_step_Inr:
  assumes "int e \<le> i64_max"
  shows "extra_step h (of_nat e) s = Inr s' \<longleftrightarrow>
    unat (bs_new_pos s) + e \<le> unat (bh_new_size h) \<and> unat (bs_extra_pos s) + e \<le> unat (bh_extra_len h) \<and>
    s' = s\<lparr> bs_target := copy_into (bs_target s) (unat (bs_new_pos s)) (slice (bh_extra h) (unat (bs_extra_pos s)) e),
            bs_new_pos := bs_new_pos s + of_nat e, bs_extra_pos := bs_extra_pos s + of_nat e \<rparr>"
proof -
  have e: "e < 2 ^ 64"
    using assms by (simp add: i64_max_def)
  show ?thesis
    unfolding extra_step_def add_within [OF e] using unat_add_within [of "bs_extra_pos s" e "bh_extra_len h"]
    by auto
qed

text \<open>The three integers of the control triple at an index.\<close>

definition triple_at :: "bytes \<Rightarrow> nat \<Rightarrow> nat \<times> nat \<times> int \<Rightarrow> bool" where
  "triple_at ctrl i t \<longleftrightarrow> (case t of (d, e, a) \<Rightarrow> i * 24 + 24 \<le> length ctrl \<and>
     decode_bsdiff_int (slice ctrl (i * 24) 8) = Inr (int d) \<and>
     decode_bsdiff_int (slice ctrl (i * 24 + 8) 8) = Inr (int e) \<and>
     decode_bsdiff_int (slice ctrl (i * 24 + 16) 8) = Inr a)"

lemma control_triple_Inr:
  assumes "bs_ok h s" "length (bh_ctrl h) \<le> usize_max"
  shows "control_triple base h i s = Inr s' \<longleftrightarrow> (\<exists>d e a s1 s2. triple_at (bh_ctrl h) i (d, e, a) \<and>
    diff_step base h (int d) (of_nat d) s = Inr s1 \<and> extra_step h (of_nat e) s1 = Inr s2 \<and>
    0 \<le> bs_old_pos s2 + a \<and> bs_old_pos s2 + a \<le> i64_max \<and> s' = s2\<lparr> bs_old_pos := bs_old_pos s2 + a \<rparr>)"
proof -
  have sl: "slice (slice xs p 24) q 8 = slice xs (p + q) 8" if "q + 8 \<le> 24" for p q and xs :: bytes
    using that by (simp add: slice_def drop_take add.commute min_def)
  have off: "checked_mul_usize i 24 = Some (i * 24)" "checked_add_usize (i * 24) 24 = Some (i * 24 + 24)"
    if "i * 24 + 24 \<le> length (bh_ctrl h)"
    using that assms(2) by (simp_all add: checked_mul_usize_def)
  show ?thesis
  proof (cases "i * 24 + 24 \<le> length (bh_ctrl h)")
    case True
    show ?thesis (is "?l \<longleftrightarrow> ?r")
    proof
      assume ?l
      then obtain v w a s1 s2 where "decode_bsdiff_int (slice (bh_ctrl h) (i * 24) 8) = Inr v"
        "decode_bsdiff_int (slice (bh_ctrl h) (i * 24 + 8) 8) = Inr w"
        "decode_bsdiff_int (slice (bh_ctrl h) (i * 24 + 16) 8) = Inr a" "0 \<le> v" "0 \<le> w"
        "diff_step base h v (of_int v) s = Inr s1" "extra_step h (of_int w) s1 = Inr s2"
        "0 \<le> bs_old_pos s2 + a \<and> bs_old_pos s2 + a \<le> i64_max \<and> s' = s2\<lparr> bs_old_pos := bs_old_pos s2 + a \<rparr>"
        using True off
        by (auto simp: control_triple_def bsdiff_consts bindR_eq_Inr u64_of_i64_def sl not_less checked_add_i64_def
            i64_min_def split: if_splits)
      moreover from this obtain d e where "v = int d" "w = int e"
        by (metis nonneg_int_cases)
      ultimately show ?r
        using True by (auto simp: triple_at_def)
    next
      assume ?r
      then show ?l
        using True by (auto simp: off [OF True] control_triple_def bsdiff_consts triple_at_def u64_of_i64_def sl checked_add_i64_def i64_min_def)
    qed
  next
    case False
    then show ?thesis
      by (auto simp: control_triple_def bsdiff_consts bindR_eq_Inr triple_at_def split: if_splits)
  qed
qed

lemma take_copy_into:
  "p + length ys \<le> length xs \<Longrightarrow> take (p + length ys) (copy_into xs p ys) = take p xs @ ys"
  by (simp add: copy_into_def)

text \<open>One triple appends its bytes to the output and keeps the state consistent.\<close>

lemma control_triple_output:
  assumes ok: "bs_ok h s" and len: "length (bh_ctrl h) \<le> usize_max" and run: "control_triple base h i s = Inr s'"
  obtains d e a where "triple_at (bh_ctrl h) i (d, e, a)" "bs_ok h s'"
    "unat (bs_new_pos s') = unat (bs_new_pos s) + d + e" "unat (bs_diff_pos s') = unat (bs_diff_pos s) + d"
    "unat (bs_extra_pos s') = unat (bs_extra_pos s) + e" "bs_old_pos s' = bs_old_pos s + int d + a"
    "take (unat (bs_new_pos s')) (bs_target s') = take (unat (bs_new_pos s)) (bs_target s) @
       add_base base (bs_old_pos s) (take d (drop (unat (bs_diff_pos s)) (bh_diff h))) @
       take e (drop (unat (bs_extra_pos s)) (bh_extra h))"
proof -
  let ?np = "unat (bs_new_pos s)" and ?dp = "unat (bs_diff_pos s)" and ?ep = "unat (bs_extra_pos s)"
  obtain d e a s1 s2 where t: "triple_at (bh_ctrl h) i (d, e, a)" and
    1: "diff_step base h (int d) (of_nat d) s = Inr s1" and 2: "extra_step h (of_nat e) s1 = Inr s2" and
    3: "0 \<le> bs_old_pos s2 + a" "bs_old_pos s2 + a \<le> i64_max" "s' = s2\<lparr> bs_old_pos := bs_old_pos s2 + a \<rparr>"
    using run unfolding control_triple_Inr [OF ok len] by blast
  have de: "int d \<le> i64_max" "int e \<le> i64_max"
    using t decode_range by (auto simp: triple_at_def)
  let ?a = "add_base base (bs_old_pos s) (slice (bh_diff h) ?dp d)" and ?e = "slice (bh_extra h) ?ep e"
  from 1 [unfolded diff_step_Inr [OF ok de(1)]] have b1: "?np + d \<le> unat (bh_new_size h)" "?dp + d \<le> unat (bh_diff_len h)"
    and s1: "s1 = s\<lparr> bs_target := copy_into (bs_target s) ?np ?a, bs_old_pos := bs_old_pos s + int d,
      bs_new_pos := bs_new_pos s + of_nat d, bs_diff_pos := bs_diff_pos s + of_nat d \<rparr>"
    by blast+
  note u1 = unat_add_within [OF b1(1)] unat_add_within [OF b1(2)]
  from 2 [unfolded extra_step_Inr [OF de(2)]] have b2: "?np + d + e \<le> unat (bh_new_size h)" "?ep + e \<le> unat (bh_extra_len h)"
    and s2: "s2 = s1\<lparr> bs_target := copy_into (bs_target s1) (?np + d) ?e,
      bs_new_pos := bs_new_pos s + of_nat d + of_nat e, bs_extra_pos := bs_extra_pos s + of_nat e \<rparr>"
    by (simp_all add: s1 u1)
  have u2: "unat (bs_new_pos s + of_nat d + of_nat e) = ?np + d + e" "unat (bs_extra_pos s + of_nat e) = ?ep + e"
    using unat_add_within [of "bs_new_pos s + of_nat d" e "bh_new_size h"] b2 u1 unat_add_within [OF b2(2)] by simp_all
  note ok' = ok [unfolded bs_ok_def]
  have la: "length ?a = d" "length ?e = e"
    using b1(2) b2(2) ok' by simp_all
  have l1: "length (copy_into (bs_target s) ?np ?a) = unat (bh_new_size h)"
    using b1 ok' la by simp
  have tgt: "take (?np + d + e) (copy_into (copy_into (bs_target s) ?np ?a) (?np + d) ?e) = take ?np (bs_target s) @ ?a @ ?e"
    using take_copy_into [of "?np + d" ?e "copy_into (bs_target s) ?np ?a"] take_copy_into [of ?np ?a "bs_target s"]
      b1 b2 l1 la ok' by simp
  show thesis
  proof (rule that [OF t])
    show "bs_ok h s'"
      using ok' 3(1,2) b1 b2 u1 u2 l1 la by (simp add: bs_ok_def 3(3) s2 s1 word_le_nat_alt)
    show "take (unat (bs_new_pos s')) (bs_target s') = take ?np (bs_target s) @
       add_base base (bs_old_pos s) (take d (drop ?dp (bh_diff h))) @ take e (drop ?ep (bh_extra h))"
      using tgt u2 by (simp add: 3(3) s2 s1 slice_def)
  qed (use u1 u2 3(3) s1 s2 in simp_all)
qed

lemma control_loop_output:
  assumes "length (bh_ctrl h) \<le> usize_max" "foldR (control_triple base h) xs s = Inr s'" "bs_ok h s"
  shows "\<exists>ts. length ts = length xs \<and> (\<forall>k < length ts. triple_at (bh_ctrl h) (xs ! k) (ts ! k)) \<and> bs_ok h s' \<and>
    unat (bs_diff_pos s') = unat (bs_diff_pos s) + sum_list (map fst ts) \<and>
    unat (bs_extra_pos s') = unat (bs_extra_pos s) + sum_list (map (\<lambda>t. fst (snd t)) ts) \<and>
    take (unat (bs_new_pos s')) (bs_target s') = take (unat (bs_new_pos s)) (bs_target s) @
      bs_run base ts (bs_old_pos s) (drop (unat (bs_diff_pos s)) (bh_diff h)) (drop (unat (bs_extra_pos s)) (bh_extra h))"
  using assms(2-)
proof (induction xs arbitrary: s)
  case (Cons i xs)
  then obtain s1 where 1: "control_triple base h i s = Inr s1" and 2: "foldR (control_triple base h) xs s1 = Inr s'"
    by (auto simp: bindR_eq_Inr)
  obtain d e a where t: "triple_at (bh_ctrl h) i (d, e, a)" and ok: "bs_ok h s1" and
    pos: "unat (bs_diff_pos s1) = unat (bs_diff_pos s) + d"
      "unat (bs_extra_pos s1) = unat (bs_extra_pos s) + e" "bs_old_pos s1 = bs_old_pos s + int d + a" and
    out: "take (unat (bs_new_pos s1)) (bs_target s1) = take (unat (bs_new_pos s)) (bs_target s) @
       add_base base (bs_old_pos s) (take d (drop (unat (bs_diff_pos s)) (bh_diff h))) @
       take e (drop (unat (bs_extra_pos s)) (bh_extra h))"
    using control_triple_output [OF Cons.prems(2) assms(1) 1] by blast
  from Cons.IH [OF 2 ok] obtain ts where ts: "length ts = length xs" "\<forall>k < length ts. triple_at (bh_ctrl h) (xs ! k) (ts ! k)"
    "bs_ok h s'" "unat (bs_diff_pos s') = unat (bs_diff_pos s1) + sum_list (map fst ts)"
    "unat (bs_extra_pos s') = unat (bs_extra_pos s1) + sum_list (map (\<lambda>t. fst (snd t)) ts)"
    "take (unat (bs_new_pos s')) (bs_target s') = take (unat (bs_new_pos s1)) (bs_target s1) @
      bs_run base ts (bs_old_pos s1) (drop (unat (bs_diff_pos s1)) (bh_diff h)) (drop (unat (bs_extra_pos s1)) (bh_extra h))"
    by blast
  show ?case
    using ts t out pos by (intro exI [of _ "(d, e, a) # ts"]) (auto simp: less_Suc_eq_0_disj drop_drop add.commute)
qed simp

section \<open>The header\<close>

lemma u64_of_i64_nat: "u64_of_i64 (int n) = Some (of_nat n)"
  by (simp add: u64_of_i64_def)

lemma bsdiff_header_Inr:
  assumes "length patch < 2 ^ 64"
    and "decode_bsdiff_int (slice patch 8 8) = Inr (int c)" "decode_bsdiff_int (slice patch 16 8) = Inr (int d)"
    and "decode_bsdiff_int (slice patch 24 8) = Inr (int n)"
  shows "bsdiff_header patch sz limits = Inr h \<longleftrightarrow>
    length patch \<le> unat (bl_max_patch_size limits) \<and> 32 \<le> length patch \<and> take 8 patch = SAR_BSDIFF_MAGIC \<and>
    of_nat n = sz \<and> n \<le> unat (bl_max_target_size limits) \<and> c \<le> unat (bl_max_control_bytes limits) \<and>
    d \<le> unat (bl_max_diff_bytes limits) \<and> 32 + c + d \<le> length patch \<and>
    length patch - (32 + c + d) \<le> unat (bl_max_extra_bytes limits) \<and> c mod 24 = 0 \<and>
    c div 24 \<le> bl_max_control_triples limits \<and>
    h = \<lparr> bh_diff_len = of_nat d, bh_extra_len = of_nat (length patch - (32 + c + d)), bh_new_size = sz,
          bh_triples = c div 24, bh_ctrl = slice patch 32 c, bh_diff = slice patch (32 + c) d,
          bh_extra = drop (32 + c + d) patch \<rparr>"
proof -
  have "int c \<le> i64_max" "int d \<le> i64_max" "int n \<le> i64_max"
    using assms(2-) decode_range by blast+
  then have r: "c < 2 ^ 63" "d < 2 ^ 63" "n < 2 ^ 63"
    by (simp_all add: i64_max_def)
  have u: "unat (of_nat c :: u64) = c" "unat (of_nat d :: u64) = d" "unat (of_nat n :: u64) = n"
    using r by simp_all
  have p: "word_of_usize (length patch) = Some (of_nat (length patch) :: u64)"
    "unat (of_nat (length patch) :: u64) = length patch"
    using assms(1) by simp_all
  have c: "unat (32 + of_nat c :: u64) = 32 + c" "checked_add_word 32 (of_nat c :: u64) = Some (32 + of_nat c)"
    using r by (simp_all add: checked_add_word_def unat_word_ariths)
  have m: "of_nat c mod BSDIFF_SINGLE_TRIPLE_CONTROL_BYTES = 0 \<longleftrightarrow> c mod 24 = 0"
    "unat (of_nat c div BSDIFF_SINGLE_TRIPLE_CONTROL_BYTES) = c div 24"
    using u(1) by (simp_all add: bsdiff_consts unat_div unat_mod flip: unat_eq_zero)
  show ?thesis
  proof (cases "32 + c + d \<le> length patch")
    case True
    have d: "unat (32 + of_nat c + of_nat d :: u64) = 32 + c + d"
      "checked_add_word (32 + of_nat c) (of_nat d :: u64) = Some (32 + of_nat c + of_nat d)"
      using True assms(1) r c(1) by (simp_all add: checked_add_word_def unat_word_ariths)
    have x: "unat (of_nat (length patch - (32 + c + d)) :: u64) = length patch - (32 + c + d)"
      using assms(1) by (intro unat_of_nat_u64) simp
    have y: "checked_sub_word (of_nat (length patch)) (32 + of_nat c + of_nat d :: u64) =
        Some (of_nat (length patch - (32 + c + d)))"
      using True assms(1) d(1) p by (simp add: checked_sub_word_def word_le_nat_alt of_nat_diff)
    show ?thesis
      using True
      by (auto simp: bsdiff_header_def p c d x y u m word_less_nat_alt not_less assms(2-) u64_of_i64_nat
          BSDIFF_HEADER_SIZE_def Let_def simp del: of_nat_add of_nat_diff split: if_splits)
  next
    case False
    then have "checked_add_word (32 + of_nat c) (of_nat d :: u64) = Some e \<Longrightarrow> unat e > length patch" for e
      using c u by (auto simp: checked_add_word_Some)
    with False show ?thesis
      by (auto simp: bsdiff_header_def p c u word_less_nat_alt assms(2-) u64_of_i64_nat bindR_eq_Inr Let_def
          simp del: of_nat_add split: if_splits)
  qed
qed

section \<open>Generated patches\<close>

lemma generate_bsdiff_Inr:
  assumes "generate_bsdiff_patch base target limits = Inr patch"
  defines "d \<equiv> min (length base) (length target)"
  defines "e \<equiv> length target - d"
  shows "patch = SAR_BSDIFF_MAGIC @ encode_bsdiff_int 24 @ encode_bsdiff_int (int d) @ encode_bsdiff_int (int (d + e)) @
      (encode_bsdiff_int (int d) @ encode_bsdiff_int (int e) @ encode_bsdiff_int 0) @
      map (\<lambda>i. target ! i - base ! i) [0..<d] @ drop d target"
    and "length target = d + e" "int (d + e) \<le> i64_max" "d + e \<le> unat (bl_max_target_size limits)"
    "d \<le> unat (bl_max_diff_bytes limits)" "e \<le> unat (bl_max_extra_bytes limits)"
    "1 \<le> bl_max_control_triples limits" "24 \<le> unat (bl_max_control_bytes limits)"
    "56 + d + e \<le> unat (bl_max_patch_size limits)" "56 + d + e < 2 ^ 64"
proof -
  have de: "length target = d + e" "d \<le> length target"
    by (simp_all add: e_def d_def)
  have g: "patch = SAR_BSDIFF_MAGIC @ encode_bsdiff_int 24 @ encode_bsdiff_int (int d) @ encode_bsdiff_int (int (length target)) @
      (encode_bsdiff_int (int d) @ encode_bsdiff_int (int e) @ encode_bsdiff_int 0) @
      map (\<lambda>i. target ! i - base ! i) [0..<d] @ drop d target \<and>
    int (length target) \<le> i64_max \<and> of_nat (length target) \<le> bl_max_target_size limits \<and>
    of_nat d \<le> bl_max_diff_bytes limits \<and> of_nat e \<le> bl_max_extra_bytes limits \<and>
    1 \<le> bl_max_control_triples limits \<and> 24 \<le> bl_max_control_bytes limits \<and>
    of_nat (56 + d + e) \<le> bl_max_patch_size limits \<and> 56 + d + e \<le> usize_max"
  proof -
    have sub: "checked_sub_usize (length target) d = Some e"
      using de(2) by (simp add: checked_sub_usize_def e_def)
    show ?thesis
      using assms(1) [unfolded generate_bsdiff_patch_def Let_def, folded d_def]
      by (auto simp: sub bindR_eq_Inr i64_of_usize_def bsdiff_consts not_less word_of_usize_def
          simp del: of_nat_add split: if_splits)
  qed
  then have r: "d + e < 2 ^ 63" "56 + d + e < 2 ^ 64"
    using de by (simp_all add: i64_max_def)
  then have u: "unat (of_nat (d + e) :: u64) = d + e" "unat (of_nat d :: u64) = d" "unat (of_nat e :: u64) = e"
    "unat (of_nat (56 + d + e) :: u64) = 56 + d + e"
    by (simp_all del: of_nat_add)
  show "patch = SAR_BSDIFF_MAGIC @ encode_bsdiff_int 24 @ encode_bsdiff_int (int d) @ encode_bsdiff_int (int (d + e)) @
      (encode_bsdiff_int (int d) @ encode_bsdiff_int (int e) @ encode_bsdiff_int 0) @
      map (\<lambda>i. target ! i - base ! i) [0..<d] @ drop d target"
    using g de(1) by simp
  show "length target = d + e" "int (d + e) \<le> i64_max" "d + e \<le> unat (bl_max_target_size limits)"
    "d \<le> unat (bl_max_diff_bytes limits)" "e \<le> unat (bl_max_extra_bytes limits)"
    "1 \<le> bl_max_control_triples limits" "24 \<le> unat (bl_max_control_bytes limits)"
    "56 + d + e \<le> unat (bl_max_patch_size limits)" "56 + d + e < 2 ^ 64"
    using g r u de(1) by (simp_all add: word_le_nat_alt del: of_nat_add)
qed

lemma diff_restores:
  "d \<le> length base \<Longrightarrow> d \<le> length target \<Longrightarrow>
   add_base base 0 (map (\<lambda>i. target ! i - base ! i) [0..<d]) = take d target"
  by (rule nth_equalityI) (simp_all add: add_base_def base_at_def)

lemma apply_generated:
  assumes "generate_bsdiff_patch base target limits = Inr patch"
  shows "apply_bsdiff base patch (of_nat (length target)) limits = Inr target"
proof -
  define d where "d = min (length base) (length target)"
  define e where "e = length target - d"
  note g = generate_bsdiff_Inr [OF assms, folded d_def, folded e_def]
  let ?ctrl = "encode_bsdiff_int (int d) @ encode_bsdiff_int (int e) @ encode_bsdiff_int 0"
  let ?diff = "map (\<lambda>i. target ! i - base ! i) [0..<d]"
  let ?h = "\<lparr> bh_diff_len = of_nat d, bh_extra_len = of_nat e, bh_new_size = of_nat (d + e), bh_triples = 1,
    bh_ctrl = ?ctrl, bh_diff = ?diff, bh_extra = drop d target \<rparr>"
  have len: "length patch = 56 + d + e" "length SAR_BSDIFF_MAGIC = 8"
    using g(1,2) by (simp_all add: SAR_BSDIFF_MAGIC_def)
  have r: "d + e < 2 ^ 63" "int d \<le> i64_max" "int e \<le> i64_max"
    using g(3) by (simp_all add: i64_max_def)
  have dec: "decode_bsdiff_int (slice patch 8 8) = Inr (int 24)" "decode_bsdiff_int (slice patch 16 8) = Inr (int d)"
    "decode_bsdiff_int (slice patch 24 8) = Inr (int (d + e))"
    using r decode_encode_int [of 24] decode_encode_int [of "int d"] decode_encode_int [of "int (d + e)"] len(2)
    by (simp_all add: g(1) slice_def i64_max_def)
  have p64: "length patch < 2 ^ 64"
    using g(10) len(1) by simp
  have sl: "take 8 patch = SAR_BSDIFF_MAGIC" "slice patch 32 24 = ?ctrl" "slice patch 56 d = ?diff"
    "drop (56 + d) patch = drop d target"
    using len(2) by (simp_all add: g(1) slice_def)
  have h: "bsdiff_header patch (of_nat (d + e)) limits = Inr ?h"
    unfolding bsdiff_header_Inr [OF p64 dec] using g(3-9) len(1) sl by simp
  let ?s = "\<lparr> bs_target = replicate (d + e) 0, bs_old_pos = 0, bs_new_pos = 0, bs_diff_pos = 0, bs_extra_pos = 0 \<rparr>"
  let ?s1 = "?s\<lparr> bs_target := copy_into (replicate (d + e) 0) 0 (take d target), bs_old_pos := int d,
    bs_new_pos := of_nat d, bs_diff_pos := of_nat d \<rparr>"
  let ?s2 = "?s1\<lparr> bs_target := target, bs_new_pos := of_nat d + of_nat e, bs_extra_pos := of_nat e \<rparr>"
  have u: "unat (of_nat d :: u64) = d" "unat (of_nat e :: u64) = e" "unat (of_nat d + of_nat e :: u64) = d + e"
    using r(1) unat_of_nat_u64 [of "d + e"] by simp_all
  have ok: "bs_ok ?h ?s"
    using g(2) u by (simp add: bs_ok_def i64_max_def)
  have "slice ?diff 0 d = ?diff"
    by (simp add: slice_def)
  moreover have "add_base base 0 ?diff = take d target"
    by (rule diff_restores) (simp_all add: d_def)
  ultimately have 1: "diff_step base ?h (int d) (of_nat d) ?s = Inr ?s1"
    unfolding diff_step_Inr [OF ok r(2)] using u r(2) by simp
  have "copy_into (copy_into (replicate (d + e) 0) 0 (take d target)) d (drop d target) = target"
    using g(2) by (simp add: copy_into_def)
  moreover have "slice (drop d target) 0 e = drop d target"
    using g(2) by (simp add: slice_def)
  ultimately have 2: "extra_step ?h (of_nat e) ?s1 = Inr ?s2"
    unfolding extra_step_Inr [OF r(3)] using u g(2) by simp
  have t: "triple_at ?ctrl 0 (d, e, 0)"
    using r decode_encode_int [of "int d"] decode_encode_int [of "int e"] decode_encode_int [of 0]
    by (simp add: triple_at_def slice_def i64_max_def)
  have "control_triple base ?h 0 ?s = Inr ?s2"
  proof (subst control_triple_Inr [OF ok])
    show "length (bh_ctrl ?h) \<le> usize_max"
      by (simp add: usize_max_def)
    show "\<exists>d' e' a s1 s2. triple_at (bh_ctrl ?h) 0 (d', e', a) \<and> diff_step base ?h (int d') (of_nat d') ?s = Inr s1 \<and>
        extra_step ?h (of_nat e') s1 = Inr s2 \<and> 0 \<le> bs_old_pos s2 + a \<and> bs_old_pos s2 + a \<le> i64_max \<and>
        ?s2 = s2\<lparr> bs_old_pos := bs_old_pos s2 + a \<rparr>"
      using t 1 2 r(2)
      by (intro exI [of _ d] exI [of _ e] exI [of _ 0] exI [of _ ?s1] exI [of _ ?s2] conjI) simp_all
  qed
  then show ?thesis
    using h g(2) u by (simp add: apply_bsdiff_def)
qed

section \<open>Properties\<close>

text \<open>
  (C6) What applying a \<^verbatim>\<open>BSDIFF\<close> patch returns.  When \<^verbatim>\<open>apply_bsdiff\<close> succeeds, the patch is the magic, a
  header, a control block, a diff block and an extra block; the control block holds triples
  \<^verbatim>\<open>(diff_len, extra_len, seek_adjust)\<close> that use up both other blocks; the target is what these
  triples produce: \<^verbatim>\<open>diff_len\<close> bytes of the diff block added to the base at the current position,
  zero behind its end, then \<^verbatim>\<open>extra_len\<close> bytes of the extra block, and the move of the position;
  and the target has exactly the expected size, within the limit.
\<close>

lemma bsdiff_apply_meaning:
  assumes "apply_bsdiff base patch sz limits = Inr target" "length patch < 2 ^ 64"
  shows "\<exists>hdr ctrl diff extra ts. patch = SAR_BSDIFF_MAGIC @ hdr @ ctrl @ diff @ extra \<and> length hdr = 24 \<and>
    length ctrl = length ts * 24 \<and> (\<forall>k < length ts. triple_at ctrl k (ts ! k)) \<and>
    sum_list (map fst ts) = length diff \<and> sum_list (map (\<lambda>t. fst (snd t)) ts) = length extra \<and>
    target = bs_run base ts 0 diff extra \<and> length target = unat sz \<and> sz \<le> bl_max_target_size limits"
proof -
  obtain h s' where h: "bsdiff_header patch sz limits = Inr h" and
    run: "foldR (control_triple base h) [0..<bh_triples h] \<lparr> bs_target = replicate (unat (bh_new_size h)) 0,
      bs_old_pos = 0, bs_new_pos = 0, bs_diff_pos = 0, bs_extra_pos = 0 \<rparr> = Inr s'" (is "foldR _ _ ?s = _") and
    fin: "bs_new_pos s' = bh_new_size h" "bs_diff_pos s' = bh_diff_len h" "bs_extra_pos s' = bh_extra_len h"
      "target = bs_target s'"
    using assms(1) by (auto simp: apply_bsdiff_def bindR_eq_Inr Let_def split: if_splits)
  obtain c d n where dec: "decode_bsdiff_int (slice patch 8 8) = Inr (int c)"
    "decode_bsdiff_int (slice patch 16 8) = Inr (int d)" "decode_bsdiff_int (slice patch 24 8) = Inr (int n)"
    using h by (auto simp: bsdiff_header_def bindR_eq_Inr not_less split: if_splits elim!: nonneg_int_cases)
  note hi = h [unfolded bsdiff_header_Inr [OF assms(2) dec]]
  have "d < 2 ^ 64"
    using hi assms(2) by linarith
  then have len: "length (bh_ctrl h) = c" "length (bh_diff h) = unat (bh_diff_len h)"
    "length (bh_extra h) = unat (bh_extra_len h)"
    using hi assms(2) unat_of_nat_u64 [of "length patch - (32 + c + d)"] by (simp_all del: of_nat_diff)
  have ok: "bs_ok h ?s"
    using len by (simp add: bs_ok_def i64_max_def)
  have "length (bh_ctrl h) \<le> usize_max"
    using len(1) hi assms(2) by (simp add: usize_max_def)
  from control_loop_output [OF this run ok] obtain ts where ts: "length ts = bh_triples h"
    "\<forall>k < length ts. triple_at (bh_ctrl h) ([0..<bh_triples h] ! k) (ts ! k)" "bs_ok h s'"
    "unat (bs_diff_pos s') = sum_list (map fst ts)"
    "unat (bs_extra_pos s') = sum_list (map (\<lambda>t. fst (snd t)) ts)"
    "take (unat (bs_new_pos s')) (bs_target s') = bs_run base ts 0 (bh_diff h) (bh_extra h)"
    by auto
  let ?hdr = "slice patch 8 24"
  have "patch = SAR_BSDIFF_MAGIC @ ?hdr @ bh_ctrl h @ bh_diff h @ bh_extra h"
    using hi append_take_drop_id [of 8 patch] slice_drop [of 32 8 24 patch] slice_drop [of "32 + c" 32 c patch]
      slice_drop [of "32 + c + d" "32 + c" d patch] by simp
  moreover have "length ?hdr = 24"
    using hi by simp
  moreover have "length (bh_ctrl h) = length ts * 24"
    using len(1) ts(1) hi by auto
  moreover have "target = bs_run base ts 0 (bh_diff h) (bh_extra h)" "length target = unat sz"
    using ts(3,6) fin hi by (simp_all add: bs_ok_def)
  moreover have "sz \<le> bl_max_target_size limits"
  proof -
    have "int n \<le> i64_max"
      using decode_range [OF dec(3)] by simp
    then have "unat (of_nat n :: u64) = n"
      by (simp add: i64_max_def)
    with hi show ?thesis
      by (auto simp: word_le_nat_alt)
  qed
  ultimately show ?thesis
    using ts(1,2,4,5) fin len by (intro exI [of _ ?hdr] exI [of _ "bh_ctrl h"] exI [of _ "bh_diff h"]
        exI [of _ "bh_extra h"] exI [of _ ts]) simp
qed

definition sample_base :: bytes where
  "sample_base = [1, 2]"

lemma sample_generated:
  "\<exists>patch. generate_bsdiff_patch sample_base [5, 6, 7] BsdiffLimits_unlimited = Inr patch \<and> length patch = 59"
  by (simp add: generate_bsdiff_patch_def sample_base_def BsdiffLimits_unlimited_def Let_def bsdiff_consts
      i64_of_usize_def i64_max_def usize_max_def checked_add_usize_def checked_sub_usize_def SAR_BSDIFF_MAGIC_def)

lemma bsdiff_apply_meaning_witness:
  "\<exists>patch. apply_bsdiff sample_base patch 3 BsdiffLimits_unlimited = Inr [5, 6, 7] \<and>
     (\<exists>hdr rest. patch = SAR_BSDIFF_MAGIC @ hdr @ rest \<and> length hdr = 24)"
proof -
  obtain patch where p: "generate_bsdiff_patch sample_base [5, 6, 7] BsdiffLimits_unlimited = Inr patch"
    "length patch = 59"
    using sample_generated by blast
  have "apply_bsdiff sample_base patch 3 BsdiffLimits_unlimited = Inr [5, 6, 7]"
    using apply_generated [OF p(1)] by simp
  with bsdiff_apply_meaning [OF this] p(2) show ?thesis
    by fastforce
qed

text \<open>
  (C36) Generated patches restore their target.  A patch that \<^verbatim>\<open>generate_bsdiff_patch\<close> makes from a base
  and a target is accepted by \<^verbatim>\<open>apply_bsdiff\<close> with the same base, the length of the target and the
  same limits, and returns the target; and the signed integers of the format are read back for
  every value but the smallest.
\<close>

lemma bsdiff_roundtrip:
  "(generate_bsdiff_patch base target limits = Inr patch \<longrightarrow>
      apply_bsdiff base patch (of_nat (length target)) limits = Inr target) \<and>
   (i64_min < v \<and> v \<le> i64_max \<longrightarrow> decode_bsdiff_int (encode_bsdiff_int v) = Inr v)"
  using apply_generated [of base target limits patch] decode_encode_int [of v]
  by (auto simp: i64_min_def i64_max_def)

lemma bsdiff_roundtrip_witness:
  "\<exists>patch. apply_bsdiff sample_base patch 3 BsdiffLimits_unlimited = Inr [5, 6, 7] \<and>
     decode_bsdiff_int (encode_bsdiff_int (- 5)) = Inr (- 5)"
proof -
  obtain patch where p: "generate_bsdiff_patch sample_base [5, 6, 7] BsdiffLimits_unlimited = Inr patch"
    using sample_generated by blast
  with bsdiff_roundtrip [of sample_base "[5, 6, 7]" BsdiffLimits_unlimited patch "- 5"] show ?thesis
    by (auto simp: i64_min_def i64_max_def)
qed

text \<open>The smallest value has no encoding of its own: it is written like zero with a sign.\<close>

lemma encode_smallest: "decode_bsdiff_int (encode_bsdiff_int i64_min) = Inr 0"
  by (simp add: decode_bsdiff_int_def encode_bsdiff_int_def i64_min_def i64_max_def le_bytes_numeral Let_def)

end
