(* ===== verification/Sar_Vcdiff.thy ===== *)
theory Sar_Vcdiff
  imports Sar_Delta
begin

text \<open>
  \<^verbatim>\<open>VCDIFF\<close> patches (\<^verbatim>\<open>crates/sar-delta/src/vcdiff.rs\<close>): the reader, the varints, the code table, the
  address cache, the generator and the decoder of windows and instructions.  An addition that the
  source leaves unchecked wraps, as in a release build.  The loops over the windows and over the
  instructions end because every iteration reads a byte.
\<close>

section \<open>Constants and the code table\<close>

definition S_NEAR :: nat where "S_NEAR = 4"
definition S_SAME :: nat where "S_SAME = 3"
definition N_MODES :: nat where "N_MODES = 2 + S_NEAR + S_SAME"
definition VCDIFF_MAGIC :: bytes where "VCDIFF_MAGIC = [0xD6, 0xC3, 0xC4]"
definition VCDIFF_VERSION :: u8 where "VCDIFF_VERSION = 0x00"

definition VCDIFF_STREAM_HEADER :: bytes where
  "VCDIFF_STREAM_HEADER = [VCDIFF_MAGIC ! 0, VCDIFF_MAGIC ! 1, VCDIFF_MAGIC ! 2, VCDIFF_VERSION]"

definition VCD_DECOMPRESS :: u8 where "VCD_DECOMPRESS = 0x01"
definition VCD_CODETABLE :: u8 where "VCD_CODETABLE = 0x02"
definition VCD_SOURCE :: u8 where "VCD_SOURCE = 0x01"
definition VCD_TARGET :: u8 where "VCD_TARGET = 0x02"
definition VCDIFF_HEADER_INDICATOR_NONE :: u8 where "VCDIFF_HEADER_INDICATOR_NONE = 0x00"
definition VCDIFF_WINDOW_INDICATOR_NONE :: u8 where "VCDIFF_WINDOW_INDICATOR_NONE = 0x00"

definition VCDIFF_WINDOW_INDICATOR_KNOWN_MASK :: u8 where
  "VCDIFF_WINDOW_INDICATOR_KNOWN_MASK = VCD_SOURCE OR VCD_TARGET"

definition VCDIFF_DELTA_INDICATOR_NONE :: u8 where "VCDIFF_DELTA_INDICATOR_NONE = 0x00"
definition VCDIFF_DELTA_INDICATOR_SECONDARY_MASK :: u8 where "VCDIFF_DELTA_INDICATOR_SECONDARY_MASK = 0x07"
definition VCDIFF_ADD_VARINT_CODE :: u8 where "VCDIFF_ADD_VARINT_CODE = 0x01"
definition ADD_ONLY_WINDOW_COUNT :: nat where "ADD_ONLY_WINDOW_COUNT = 1"
definition ADD_ONLY_INSTRUCTION_COUNT :: nat where "ADD_ONLY_INSTRUCTION_COUNT = 1"

lemmas vcdiff_consts = S_NEAR_def S_SAME_def N_MODES_def VCDIFF_MAGIC_def VCDIFF_VERSION_def
  VCDIFF_STREAM_HEADER_def VCD_DECOMPRESS_def VCD_CODETABLE_def VCD_SOURCE_def VCD_TARGET_def
  VCDIFF_HEADER_INDICATOR_NONE_def VCDIFF_WINDOW_INDICATOR_NONE_def VCDIFF_WINDOW_INDICATOR_KNOWN_MASK_def
  VCDIFF_DELTA_INDICATOR_NONE_def VCDIFF_DELTA_INDICATOR_SECONDARY_MASK_def VCDIFF_ADD_VARINT_CODE_def
  ADD_ONLY_WINDOW_COUNT_def ADD_ONLY_INSTRUCTION_COUNT_def

datatype InstType = Noop | Add | Run | Copy

record InstDef =
  id_ty :: InstType
  id_size :: u8
  id_mode :: u8

definition InstDef_noop :: InstDef where
  "InstDef_noop = \<lparr> id_ty = Noop, id_size = 0, id_mode = 0 \<rparr>"

definition InstDef_add :: "u8 \<Rightarrow> InstDef" where
  "InstDef_add sz = \<lparr> id_ty = Add, id_size = sz, id_mode = 0 \<rparr>"

definition InstDef_run :: InstDef where
  "InstDef_run = \<lparr> id_ty = Run, id_size = 0, id_mode = 0 \<rparr>"

definition InstDef_copy :: "u8 \<Rightarrow> u8 \<Rightarrow> InstDef" where
  "InstDef_copy sz mode = \<lparr> id_ty = Copy, id_size = sz, id_mode = mode \<rparr>"

record CodeEntry =
  ce_inst1 :: InstDef
  ce_inst2 :: InstDef

definition CodeEntry_single :: "InstDef \<Rightarrow> CodeEntry" where
  "CodeEntry_single inst = \<lparr> ce_inst1 = inst, ce_inst2 = InstDef_noop \<rparr>"

definition CodeEntry_double :: "InstDef \<Rightarrow> InstDef \<Rightarrow> CodeEntry" where
  "CodeEntry_double i1 i2 = \<lparr> ce_inst1 = i1, ce_inst2 = i2 \<rparr>"

text \<open>
  The entries in the order of \<^verbatim>\<open>idx\<close>, which counts up by one with every entry that the source
  writes; the entries behind the last pair stay as initialised.
\<close>

definition single_entries :: "CodeEntry list" where
  "single_entries =
     [CodeEntry_single InstDef_noop, CodeEntry_single (InstDef_add 0), CodeEntry_single InstDef_run] @
     map (\<lambda>s. CodeEntry_single (InstDef_add (of_nat s))) [1..<17] @
     concat (map (\<lambda>mode. CodeEntry_single (InstDef_copy 0 (of_nat mode)) #
       map (\<lambda>s. CodeEntry_single (InstDef_copy (of_nat s) (of_nat mode))) [4..<19]) [0..<N_MODES])"

definition double_entries :: "CodeEntry list" where
  "double_entries =
     concat (map (\<lambda>add_size. concat (map (\<lambda>mode. map (\<lambda>copy_size.
       CodeEntry_double (InstDef_add (of_nat add_size)) (InstDef_copy (of_nat copy_size) (of_nat mode)))
       [4..<7]) [0..<N_MODES])) [1..<5])"

definition build_default_code_table :: "CodeEntry list" where
  "build_default_code_table =
     take 256 (single_entries @ double_entries @ replicate 256 (CodeEntry_single InstDef_noop))"

record VcdiffLimits =
  vl_max_patch_size :: u64
  vl_max_window_count :: nat
  vl_max_instruction_count :: nat
  vl_max_output_size :: u64

definition VcdiffLimits_default :: VcdiffLimits where
  "VcdiffLimits_default = \<lparr>
     vl_max_patch_size = 512 * 1024 * 1024,
     vl_max_window_count = 1000000,
     vl_max_instruction_count = 10000000,
     vl_max_output_size = 1024 * 1024 * 1024 \<rparr>"

definition VcdiffLimits_unlimited :: VcdiffLimits where
  "VcdiffLimits_unlimited = \<lparr>
     vl_max_patch_size = u64_max,
     vl_max_window_count = usize_max,
     vl_max_instruction_count = usize_max,
     vl_max_output_size = u64_max \<rparr>"

section \<open>Reader\<close>

record ByteReader =
  br_data :: bytes
  br_pos :: nat

definition br_new :: "bytes \<Rightarrow> ByteReader" where
  "br_new data = \<lparr> br_data = data, br_pos = 0 \<rparr>"

definition br_remaining :: "ByteReader \<Rightarrow> nat" where
  "br_remaining r = length (br_data r) - br_pos r"

definition br_is_empty :: "ByteReader \<Rightarrow> bool" where
  "br_is_empty r \<longleftrightarrow> br_pos r \<ge> length (br_data r)"

definition br_read_u8 :: "ByteReader \<Rightarrow> PatchError + (u8 \<times> ByteReader)" where
  "br_read_u8 r =
     (if br_pos r \<ge> length (br_data r) then Inl PatchError.PatchFailed else
      Inr (br_data r ! br_pos r, r\<lparr> br_pos := br_pos r + 1 \<rparr>))"

text \<open>The loop of \<^verbatim>\<open>read_varint\<close> over the bytes from \<^verbatim>\<open>pos\<close> on.\<close>

primrec varint_loop :: "bytes \<Rightarrow> u64 \<Rightarrow> nat \<Rightarrow> PatchError + (u64 \<times> nat)" where
  "varint_loop [] v p = Inl PatchError.PatchFailed"
| "varint_loop (b # bs) v p =
     (if v > drop_bit 7 u64_max then Inl PatchError.PatchFailed else
      let v = push_bit 7 v OR ucast (b AND 0x7F) in
      if b AND 0x80 = 0 then Inr (v, p + 1) else varint_loop bs v (p + 1))"

definition br_read_varint :: "ByteReader \<Rightarrow> PatchError + (u64 \<times> ByteReader)" where
  "br_read_varint r =
     bindR (varint_loop (drop (br_pos r) (br_data r)) 0 (br_pos r)) (\<lambda>(v, p). Inr (v, r\<lparr> br_pos := p \<rparr>))"

definition br_read_bytes :: "ByteReader \<Rightarrow> nat \<Rightarrow> PatchError + (bytes \<times> ByteReader)" where
  "br_read_bytes r n =
     bindR (ok_or (checked_add_usize (br_pos r) n) PatchError.PatchFailed) (\<lambda>end_pos.
     if end_pos > length (br_data r) then Inl PatchError.PatchFailed else
     Inr (slice (br_data r) (br_pos r) n, r\<lparr> br_pos := end_pos \<rparr>))"

definition br_expect_bytes :: "ByteReader \<Rightarrow> bytes \<Rightarrow> PatchError + ByteReader" where
  "br_expect_bytes r expected =
     bindR (br_read_bytes r (length expected)) (\<lambda>(got, r).
     if got \<noteq> expected then Inl PatchError.PatchFailed else Inr r)"

section \<open>Address cache\<close>

record AddrCache =
  ac_near :: "u64 list"
  ac_near_next :: nat
  ac_same :: "u64 list"

definition AddrCache_new :: AddrCache where
  "AddrCache_new = \<lparr> ac_near = replicate S_NEAR 0, ac_near_next = 0, ac_same = replicate (S_SAME * 256) 0 \<rparr>"

definition decode_address :: "AddrCache \<Rightarrow> u8 \<Rightarrow> u64 \<Rightarrow> ByteReader \<Rightarrow> PatchError + (u64 \<times> ByteReader)" where
  "decode_address c mode here r =
     (let m = unat mode in
      if m = 0 then br_read_varint r
      else if m = 1 then
        bindR (br_read_varint r) (\<lambda>(delta, r).
        bindR (ok_or (checked_sub_word here delta) PatchError.PatchFailed) (\<lambda>addr. Inr (addr, r)))
      else if 2 \<le> m \<and> m \<le> 1 + S_NEAR then
        let i = m - 2 in
        bindR (br_read_varint r) (\<lambda>(offset, r).
        bindR (ok_or (checked_add_word (ac_near c ! i) offset) PatchError.PatchFailed) (\<lambda>addr. Inr (addr, r)))
      else if 2 + S_NEAR \<le> m \<and> m \<le> 1 + S_NEAR + S_SAME then
        let s = m - (2 + S_NEAR) in
        bindR (br_read_u8 r) (\<lambda>(b, r). Inr (ac_same c ! (s * 256 + unat b), r))
      else Inl PatchError.PatchFailed)"

definition AddrCache_update :: "AddrCache \<Rightarrow> u64 \<Rightarrow> AddrCache" where
  "AddrCache_update c addr =
     (let slot = unat (addr mod (of_nat S_SAME * 256)) in
      c\<lparr> ac_near := (ac_near c)[ac_near_next c mod S_NEAR := addr], ac_near_next := ac_near_next c + 1,
         ac_same := (ac_same c)[slot := addr] \<rparr>)"

section \<open>Varint encoder and the generator\<close>

text \<open>The \<^verbatim>\<open>while\<close> loop that pushes the low seven bits.\<close>

function varint_digits :: "u64 \<Rightarrow> bytes" where
  "varint_digits n = (if n > 0 then ucast (n AND 0x7F) # varint_digits (drop_bit 7 n) else [])"
  by pat_completeness auto
termination
proof (relation "measure unat")
  fix n :: u64 assume "n > 0"
  then have "0 < unat n"
    by (simp add: word_less_nat_alt)
  then show "(drop_bit 7 n, n) \<in> measure unat"
    unfolding in_measure unsigned_drop_bit_eq by (simp add: drop_bit_eq_div take_bit_nat_eq_self)
qed simp

declare varint_digits.simps [simp del]

definition encode_varint :: "u64 \<Rightarrow> bytes" where
  "encode_varint v =
     (if v = 0 then [0x00] else
      let buf = rev (varint_digits v);
          last_idx = length buf - 1 in
      map (\<lambda>b. b OR 0x80) (take last_idx buf) @ drop last_idx buf)"

definition generate_vcdiff_patch :: "bytes \<Rightarrow> bytes \<Rightarrow> VcdiffLimits \<Rightarrow> PatchError + bytes" where
  "generate_vcdiff_patch base target limits =
     bindR (ok_or (word_of_usize (length target)) PatchError.LimitExceeded) (\<lambda>(target_len :: u64).
     if target_len > vl_max_output_size limits then Inl PatchError.LimitExceeded else
     if target = [] then
       (let patch = VCDIFF_STREAM_HEADER @ [VCDIFF_HEADER_INDICATOR_NONE] in
        bindR (ok_or (word_of_usize (length patch)) PatchError.LimitExceeded) (\<lambda>(patch_len :: u64).
        if patch_len > vl_max_patch_size limits then Inl PatchError.LimitExceeded else Inr patch))
     else
     if vl_max_window_count limits < ADD_ONLY_WINDOW_COUNT then Inl PatchError.LimitExceeded else
     if vl_max_instruction_count limits < ADD_ONLY_INSTRUCTION_COUNT then Inl PatchError.LimitExceeded else
     let inst = VCDIFF_ADD_VARINT_CODE # encode_varint target_len in
     bindR (ok_or (word_of_usize (length inst)) PatchError.LimitExceeded) (\<lambda>(inst_len :: u64).
     let twl_bytes = encode_varint target_len;
         lar_bytes = encode_varint target_len;
         li_bytes = encode_varint inst_len;
         la_bytes = encode_varint (ucast VCDIFF_WINDOW_INDICATOR_NONE) in
     bindR (ok_or (checked_add_usize (length twl_bytes) ADD_ONLY_INSTRUCTION_COUNT) PatchError.LimitExceeded) (\<lambda>n.
     bindR (ok_or (checked_add_usize n (length lar_bytes)) PatchError.LimitExceeded) (\<lambda>n.
     bindR (ok_or (checked_add_usize n (length li_bytes)) PatchError.LimitExceeded) (\<lambda>n.
     bindR (ok_or (checked_add_usize n (length la_bytes)) PatchError.LimitExceeded) (\<lambda>n.
     bindR (ok_or (checked_add_usize n (length target)) PatchError.LimitExceeded) (\<lambda>n.
     bindR (ok_or (checked_add_usize n (length inst)) PatchError.LimitExceeded) (\<lambda>delta_enc_len.
     bindR (ok_or (word_of_usize delta_enc_len) PatchError.LimitExceeded) (\<lambda>(del_enc_len_u64 :: u64).
     let del_enc_len_bytes = encode_varint del_enc_len_u64 in
     bindR (ok_or (checked_add_usize (length VCDIFF_STREAM_HEADER) ADD_ONLY_WINDOW_COUNT) PatchError.LimitExceeded) (\<lambda>n.
     bindR (ok_or (checked_add_usize n ADD_ONLY_INSTRUCTION_COUNT) PatchError.LimitExceeded) (\<lambda>n.
     bindR (ok_or (checked_add_usize n (length del_enc_len_bytes)) PatchError.LimitExceeded) (\<lambda>n.
     bindR (ok_or (checked_add_usize n delta_enc_len) PatchError.LimitExceeded) (\<lambda>patch_size.
     bindR (ok_or (word_of_usize patch_size) PatchError.LimitExceeded) (\<lambda>(patch_size_u64 :: u64).
     if patch_size_u64 > vl_max_patch_size limits then Inl PatchError.LimitExceeded else
     Inr (VCDIFF_STREAM_HEADER @ [VCDIFF_HEADER_INDICATOR_NONE] @ [VCDIFF_WINDOW_INDICATOR_NONE] @
          del_enc_len_bytes @ twl_bytes @ [VCDIFF_DELTA_INDICATOR_NONE] @ lar_bytes @ li_bytes @ la_bytes @
          target @ inst)))))))))))))))"

section \<open>Instructions\<close>

text \<open>What the loop of \<^verbatim>\<open>apply_instructions\<close> changes.\<close>

record VState =
  vs_output :: bytes
  vs_target_pos :: nat
  vs_data :: ByteReader
  vs_inst :: ByteReader
  vs_addr :: ByteReader
  vs_cache :: AddrCache
  vs_inst_count :: nat

text \<open>One iteration of the byte-by-byte copy.  The sum \<^verbatim>\<open>target_start + tgt_off\<close> is not checked.\<close>

definition copy_byte :: "bytes \<Rightarrow> nat \<Rightarrow> nat \<Rightarrow> nat \<Rightarrow> nat \<Rightarrow> bytes \<Rightarrow> PatchError + bytes" where
  "copy_byte source target_start target_pos addr_usize i output =
     (let src_addr = addr_usize + i in
      bindR (if src_addr < length source then Inr (source ! src_addr) else
             let tgt_off = src_addr - length source;
                 tgt_abs = (target_start + tgt_off) mod 2 ^ 64 in
             if tgt_abs \<ge> target_pos then Inl PatchError.PatchFailed else Inr (output ! tgt_abs)) (\<lambda>b.
      Inr (output[target_pos + i := b])))"

definition exec_add :: "nat \<Rightarrow> nat \<Rightarrow> VState \<Rightarrow> PatchError + VState" where
  "exec_add target_end sz s =
     bindR (br_read_bytes (vs_data s) sz) (\<lambda>(data_slice, data_reader).
     bindR (ok_or (checked_add_usize (vs_target_pos s) sz) PatchError.PatchFailed) (\<lambda>out_end.
     if out_end > target_end then Inl PatchError.PatchFailed else
     Inr (s\<lparr> vs_data := data_reader, vs_output := copy_into (vs_output s) (vs_target_pos s) data_slice,
             vs_target_pos := out_end \<rparr>)))"

definition exec_run :: "nat \<Rightarrow> nat \<Rightarrow> VState \<Rightarrow> PatchError + VState" where
  "exec_run target_end sz s =
     bindR (br_read_u8 (vs_data s)) (\<lambda>(run_byte, data_reader).
     bindR (ok_or (checked_add_usize (vs_target_pos s) sz) PatchError.PatchFailed) (\<lambda>out_end.
     if out_end > target_end then Inl PatchError.PatchFailed else
     Inr (s\<lparr> vs_data := data_reader,
             vs_output := copy_into (vs_output s) (vs_target_pos s) (replicate sz run_byte),
             vs_target_pos := out_end \<rparr>)))"

definition exec_copy :: "bytes \<Rightarrow> nat \<Rightarrow> nat \<Rightarrow> u8 \<Rightarrow> nat \<Rightarrow> VState \<Rightarrow> PatchError + VState" where
  "exec_copy source target_start target_end mode sz s =
     (let here = (of_nat (length source + (vs_target_pos s - target_start)) :: u64) in
      bindR (decode_address (vs_cache s) mode here (vs_addr s)) (\<lambda>(addr_val, addr_reader).
      let cache = AddrCache_update (vs_cache s) addr_val in
      bindR (ok_or (usize_of_word addr_val) PatchError.PatchFailed) (\<lambda>addr_usize.
      bindR (ok_or (checked_add_usize (vs_target_pos s) sz) PatchError.PatchFailed) (\<lambda>out_end.
      if out_end > target_end then Inl PatchError.PatchFailed else
      bindR (ok_or (checked_add_usize addr_usize sz) PatchError.PatchFailed) (\<lambda>copy_end.
      bindR (foldR (copy_byte source target_start (vs_target_pos s) addr_usize) [0..<sz] (vs_output s)) (\<lambda>output.
      Inr (s\<lparr> vs_addr := addr_reader, vs_cache := cache, vs_output := output, vs_target_pos := out_end \<rparr>)))))))"

text \<open>One pass over an instruction of a code table entry.\<close>

definition exec_inst :: "bytes \<Rightarrow> nat \<Rightarrow> nat \<Rightarrow> InstDef \<Rightarrow> VState \<Rightarrow> PatchError + VState" where
  "exec_inst source target_start target_end idef s =
     (if id_ty idef = Noop then Inr s else
      bindR (if id_size idef = 0 then
               bindR (br_read_varint (vs_inst s)) (\<lambda>(v, inst_reader).
               bindR (ok_or (usize_of_word v) PatchError.PatchFailed) (\<lambda>sz. Inr (sz, inst_reader)))
             else Inr (unat (id_size idef), vs_inst s)) (\<lambda>(sz, inst_reader).
      let s = s\<lparr> vs_inst := inst_reader \<rparr> in
      case id_ty idef of
        Noop \<Rightarrow> Inr s
      | Add \<Rightarrow> exec_add target_end sz s
      | Run \<Rightarrow> exec_run target_end sz s
      | Copy \<Rightarrow> exec_copy source target_start target_end (id_mode idef) sz s))"

text \<open>Every read moves forward, and the instructions are only ever read.\<close>

lemma varint_loop_progress: "varint_loop bs v p = Inr (w, q) \<Longrightarrow> p < q"
  by (induction bs arbitrary: v p) (fastforce simp: Let_def split: if_splits)+

lemma br_read_varint_progress:
  "br_read_varint r = Inr (v, r') \<Longrightarrow> br_data r' = br_data r \<and> br_pos r < br_pos r'"
  by (auto simp: br_read_varint_def bindR_eq_Inr dest: varint_loop_progress)

lemma exec_add_inst: "exec_add te sz s = Inr s' \<Longrightarrow> vs_inst s' = vs_inst s"
  by (auto simp: exec_add_def bindR_eq_Inr split: if_splits)

lemma exec_run_inst: "exec_run te sz s = Inr s' \<Longrightarrow> vs_inst s' = vs_inst s"
  by (auto simp: exec_run_def bindR_eq_Inr split: if_splits)

lemma exec_copy_inst: "exec_copy src ts te m sz s = Inr s' \<Longrightarrow> vs_inst s' = vs_inst s"
  by (auto simp: exec_copy_def bindR_eq_Inr Let_def split: if_splits)

lemma exec_inst_progress:
  assumes "exec_inst src ts te i s = Inr s'"
  shows "br_data (vs_inst s') = br_data (vs_inst s) \<and> br_pos (vs_inst s) \<le> br_pos (vs_inst s')"
proof (cases "id_ty i = Noop")
  case False
  then obtain sz r where r: "if id_size i = 0 then \<exists>v. br_read_varint (vs_inst s) = Inr (v, r)
      else r = vs_inst s" and run: "(case id_ty i of Noop \<Rightarrow> Inr (s\<lparr> vs_inst := r \<rparr>)
      | Add \<Rightarrow> exec_add te sz (s\<lparr> vs_inst := r \<rparr>) | Run \<Rightarrow> exec_run te sz (s\<lparr> vs_inst := r \<rparr>)
      | Copy \<Rightarrow> exec_copy src ts te (id_mode i) sz (s\<lparr> vs_inst := r \<rparr>)) = Inr s'"
    using assms by (auto simp: exec_inst_def bindR_eq_Inr Let_def split: if_splits)
  have "vs_inst s' = r"
    using run False by (cases "id_ty i") (auto dest: exec_add_inst exec_run_inst exec_copy_inst)
  with r show ?thesis
    by (auto split: if_splits dest: br_read_varint_progress)
qed (use assms in \<open>simp add: exec_inst_def\<close>)

function inst_loop ::
  "bytes \<Rightarrow> nat \<Rightarrow> nat \<Rightarrow> CodeEntry list \<Rightarrow> VcdiffLimits \<Rightarrow> VState \<Rightarrow> PatchError + VState" where
  "inst_loop source target_start target_end code_table limits s =
     (if \<not> (vs_target_pos s < target_end \<or> \<not> br_is_empty (vs_inst s)) then Inr s else
      if vs_target_pos s \<ge> target_end \<and> \<not> br_is_empty (vs_inst s) then Inl PatchError.PatchFailed else
      if br_is_empty (vs_inst s) then Inr s else
      let s = s\<lparr> vs_inst_count := vs_inst_count s + 1 \<rparr> in
      if vs_inst_count s > vl_max_instruction_count limits then Inl PatchError.LimitExceeded else
      (case br_read_u8 (vs_inst s) of
         Inl e \<Rightarrow> Inl e
       | Inr (code, inst_reader) \<Rightarrow>
           let entry = code_table ! unat code;
               s = s\<lparr> vs_inst := inst_reader \<rparr> in
           (case exec_inst source target_start target_end (ce_inst1 entry) s of
              Inl e \<Rightarrow> Inl e
            | Inr s \<Rightarrow>
                (case exec_inst source target_start target_end (ce_inst2 entry) s of
                   Inl e \<Rightarrow> Inl e
                 | Inr s \<Rightarrow> inst_loop source target_start target_end code_table limits s))))"
  by pat_completeness auto
termination
proof (relation "measure (\<lambda>(_, _, _, _, _, s). length (br_data (vs_inst s)) - br_pos (vs_inst s))")
qed (auto simp: br_read_u8_def split: if_splits dest!: exec_inst_progress)

declare inst_loop.simps [simp del]

definition apply_instructions ::
  "bytes \<Rightarrow> bytes \<Rightarrow> bytes \<Rightarrow> bytes \<Rightarrow> nat \<Rightarrow> CodeEntry list \<Rightarrow> VcdiffLimits \<Rightarrow> bytes \<Rightarrow> PatchError + bytes" where
  "apply_instructions source add_run inst addr target_len code_table limits output =
     (let target_start = length output in
      bindR (ok_or (checked_add_usize target_start target_len) PatchError.PatchFailed) (\<lambda>target_end.
      let s = \<lparr> vs_output = output @ replicate target_len 0, vs_target_pos = target_start, vs_data = br_new add_run,
                vs_inst = br_new inst, vs_addr = br_new addr, vs_cache = AddrCache_new, vs_inst_count = 0 \<rparr> in
      bindR (inst_loop source target_start target_end code_table limits s) (\<lambda>s.
      if vs_target_pos s \<noteq> target_end then Inl PatchError.PatchFailed else
      if \<not> br_is_empty (vs_data s) then Inl PatchError.PatchFailed else
      if \<not> br_is_empty (vs_addr s) then Inl PatchError.PatchFailed else
      Inr (vs_output s))))"

section \<open>Windows\<close>

definition read_usize :: "ByteReader \<Rightarrow> PatchError + (nat \<times> ByteReader)" where
  "read_usize r = bindR (br_read_varint r) (\<lambda>(v, r).
     bindR (ok_or (usize_of_word v) PatchError.PatchFailed) (\<lambda>n. Inr (n, r)))"

definition decode_window ::
  "bytes \<Rightarrow> bytes \<Rightarrow> ByteReader \<Rightarrow> CodeEntry list \<Rightarrow> VcdiffLimits \<Rightarrow> bytes \<Rightarrow> PatchError + (ByteReader \<times> bytes)" where
  "decode_window base previous_output reader code_table limits output =
     bindR (br_read_u8 reader) (\<lambda>(win_indicator, reader).
     if win_indicator AND VCD_SOURCE \<noteq> 0 \<and> win_indicator AND VCD_TARGET \<noteq> 0 then Inl PatchError.PatchFailed else
     if win_indicator AND NOT VCDIFF_WINDOW_INDICATOR_KNOWN_MASK \<noteq> 0 then Inl PatchError.PatchFailed else
     bindR (if win_indicator AND (VCD_SOURCE OR VCD_TARGET) \<noteq> 0 then
              bindR (read_usize reader) (\<lambda>(sz, reader).
              bindR (read_usize reader) (\<lambda>(p, reader). Inr (sz, p, reader)))
            else Inr (0, 0, reader)) (\<lambda>(ss_size, ss_pos, reader).
     bindR (if win_indicator AND VCD_SOURCE \<noteq> 0 then
              bindR (ok_or (checked_add_usize ss_pos ss_size) PatchError.PatchFailed) (\<lambda>end_pos.
              if end_pos > length base then Inl PatchError.PatchFailed else Inr ())
            else if win_indicator AND VCD_TARGET \<noteq> 0 then
              bindR (ok_or (checked_add_usize ss_pos ss_size) PatchError.PatchFailed) (\<lambda>end_pos.
              if end_pos > length previous_output then Inl PatchError.PatchFailed else Inr ())
            else Inr ()) (\<lambda>_.
     bindR (read_usize reader) (\<lambda>(delta_encoding_length, reader).
     if delta_encoding_length > br_remaining reader then Inl PatchError.PatchFailed else
     let delta_start = br_pos reader in
     bindR (read_usize reader) (\<lambda>(target_window_length, reader).
     bindR (ok_or (checked_add_usize (length output) target_window_length) PatchError.PatchFailed) (\<lambda>new_total.
     if of_nat new_total > vl_max_output_size limits then Inl PatchError.LimitExceeded else
     bindR (br_read_u8 reader) (\<lambda>(delta_indicator, reader).
     if delta_indicator AND VCDIFF_DELTA_INDICATOR_SECONDARY_MASK \<noteq> 0 then Inl PatchError.Unsupported else
     bindR (read_usize reader) (\<lambda>(len_add_run, reader).
     bindR (read_usize reader) (\<lambda>(len_inst, reader).
     bindR (read_usize reader) (\<lambda>(len_addr, reader).
     bindR (br_read_bytes reader len_add_run) (\<lambda>(add_run_data, reader).
     bindR (br_read_bytes reader len_inst) (\<lambda>(inst_bytes, reader).
     bindR (br_read_bytes reader len_addr) (\<lambda>(addr_bytes, reader).
     let delta_consumed = br_pos reader - delta_start in
     if delta_consumed \<noteq> delta_encoding_length then Inl PatchError.PatchFailed else
     let source_bytes = (if win_indicator AND VCD_SOURCE \<noteq> 0 then slice base ss_pos ss_size
                         else if win_indicator AND VCD_TARGET \<noteq> 0 then slice previous_output ss_pos ss_size
                         else []) in
     bindR (apply_instructions source_bytes add_run_data inst_bytes addr_bytes target_window_length code_table
              limits output) (\<lambda>output.
     Inr (reader, output)))))))))))))))"

lemma read_usize_progress: "read_usize r = Inr (n, r') \<Longrightarrow> br_data r' = br_data r \<and> br_pos r < br_pos r'"
  by (auto simp: read_usize_def bindR_eq_Inr dest: br_read_varint_progress)

lemma br_read_bytes_progress: "br_read_bytes r n = Inr (x, r') \<Longrightarrow> br_data r' = br_data r \<and> br_pos r' = br_pos r + n"
  by (auto simp: br_read_bytes_def bindR_eq_Inr split: if_splits)

lemma br_read_u8_progress:
  "br_read_u8 r = Inr (b, r') \<Longrightarrow> br_data r' = br_data r \<and> br_pos r' = br_pos r + 1 \<and> br_pos r < length (br_data r)"
  by (auto simp: br_read_u8_def split: if_splits)

lemma decode_window_progress:
  assumes "decode_window base prev r ct limits out = Inr (r', out')"
  shows "br_data r' = br_data r \<and> br_pos r < br_pos r' \<and> br_pos r < length (br_data r)"
proof -
  from assms obtain w r1 where 1: "br_read_u8 r = Inr (w, r1)"
    by (auto simp: decode_window_def bindR_eq_Inr)
  from assms 1 obtain a r2 n1 r3 n2 r4 x r5 n3 r6 n4 r7 n5 r8 b1 r9 b2 r10 b3 where
    2: "(if w AND (VCD_SOURCE OR VCD_TARGET) \<noteq> 0 then
              bindR (read_usize r1) (\<lambda>(sz, reader).
              bindR (read_usize reader) (\<lambda>(p, reader). Inr (sz, p, reader)))
            else Inr (0, 0, r1)) = Inr (fst a, snd a, r2)" and
    3: "read_usize r2 = Inr (n1, r3)" "read_usize r3 = Inr (n2, r4)" "br_read_u8 r4 = Inr (x, r5)"
      "read_usize r5 = Inr (n3, r6)" "read_usize r6 = Inr (n4, r7)" "read_usize r7 = Inr (n5, r8)"
      "br_read_bytes r8 n3 = Inr (b1, r9)" "br_read_bytes r9 n4 = Inr (b2, r10)" "br_read_bytes r10 n5 = Inr (b3, r')"
    unfolding decode_window_def Let_def
    by (elim bindR_InrE) (auto split: if_splits prod.splits elim!: bindR_InrE)
  have "br_data r2 = br_data r1 \<and> br_pos r1 \<le> br_pos r2"
    using 2 by (fastforce simp: bindR_eq_Inr split: if_splits prod.splits dest!: read_usize_progress)
  with 1 3 show ?thesis
    by (fastforce dest!: read_usize_progress br_read_u8_progress br_read_bytes_progress)
qed

function window_loop ::
  "bytes \<Rightarrow> CodeEntry list \<Rightarrow> VcdiffLimits \<Rightarrow> ByteReader \<Rightarrow> bytes \<Rightarrow> nat \<Rightarrow> PatchError + bytes" where
  "window_loop base code_table limits reader output window_count =
     (if br_is_empty reader then Inr output else
      if window_count \<ge> vl_max_window_count limits then Inl PatchError.LimitExceeded else
      let window_count = window_count + 1 in
      (case decode_window base output reader code_table limits output of
         Inl e \<Rightarrow> Inl e
       | Inr (reader, output) \<Rightarrow>
           if of_nat (length output) > vl_max_output_size limits then Inl PatchError.LimitExceeded else
           window_loop base code_table limits reader output window_count))"
  by pat_completeness auto
termination
proof (relation "measure (\<lambda>(_, _, _, r, _, _). length (br_data r) - br_pos r)")
qed (auto dest!: decode_window_progress)

declare window_loop.simps [simp del]

definition apply_vcdiff :: "bytes \<Rightarrow> bytes \<Rightarrow> u64 \<Rightarrow> VcdiffLimits \<Rightarrow> PatchError + bytes" where
  "apply_vcdiff base patch expected_target_size limits =
     (if of_nat (length patch) > vl_max_patch_size limits then Inl PatchError.LimitExceeded else
      let reader = br_new patch in
      bindR (br_expect_bytes reader VCDIFF_STREAM_HEADER) (\<lambda>reader.
      bindR (br_read_u8 reader) (\<lambda>(hdr_indicator, reader).
      bindR (if hdr_indicator AND VCD_DECOMPRESS \<noteq> 0 then
               bindR (br_read_u8 reader) (\<lambda>(compressor_id, reader).
               if compressor_id \<noteq> 0 then Inl PatchError.Unsupported else Inr reader)
             else Inr reader) (\<lambda>reader.
      if hdr_indicator AND VCD_CODETABLE \<noteq> 0 then Inl PatchError.PatchFailed else
      let code_table = build_default_code_table in
      bindR (window_loop base code_table limits reader [] 0) (\<lambda>output.
      if of_nat (length output) \<noteq> expected_target_size then Inl PatchError.PatchFailed else
      Inr output)))))"

section \<open>Varints are read back\<close>

lemma low_bits:
  fixes n :: u64
  defines "l \<equiv> ucast (n AND 0x7F) :: u8"
  shows "(l OR 0x80) AND 0x7F = l" "(l OR 0x80) AND 0x80 \<noteq> 0" "l AND 0x7F = l" "l AND 0x80 = 0"
    "push_bit 7 (drop_bit 7 n) OR ucast l = n"
proof -
  have m: "(0x7F :: u64) = mask 7"
    by (simp add: mask_eq_exp_minus_1)
  have l: "bit l i \<longleftrightarrow> bit n i \<and> i < 7" for i
    unfolding l_def m by (auto simp: bit_simps)
  have l7: "l AND 0x7F = l"
    by (rule bit_word_eqI) (auto simp: bit_and_iff bit_0x7F l simp del: bit_numeral_word_iff)
  show "l AND 0x7F = l" by (rule l7)
  show "(l OR 0x80) AND 0x7F = l" "(l OR 0x80) AND 0x80 \<noteq> 0" "l AND 0x80 = 0"
    using sign_bits [of l] by (simp_all add: l7)
  show "push_bit 7 (drop_bit 7 n) OR ucast l = n"
    by (rule bit_word_eqI) (auto simp: bit_simps l)
qed

lemma drop_bit_7_le: "drop_bit 7 (n :: u64) \<le> drop_bit 7 u64_max"
proof -
  have "unat n \<le> unat u64_max"
    by (simp add: word_le_nat_alt [symmetric])
  then have "drop_bit 7 (unat n) \<le> drop_bit 7 (unat u64_max)"
    unfolding drop_bit_eq_div by (rule div_le_mono)
  then show ?thesis
    unfolding word_le_nat_alt unsigned_drop_bit_eq by (simp add: take_bit_nat_eq_self)
qed

lemma varint_digits_0 [simp]: "varint_digits 0 = []"
  by (simp add: varint_digits.simps)

lemma varint_digits_pos:
  "n \<noteq> 0 \<Longrightarrow> varint_digits n = ucast (n AND 0x7F) # varint_digits (drop_bit 7 n)"
  by (subst varint_digits.simps) (simp add: word_gt_0)

lemma varint_loop_digits:
  "varint_loop (map (\<lambda>b. b OR 0x80) (rev (varint_digits n)) @ bs) 0 p = varint_loop bs n (p + length (varint_digits n))"
proof (induction n arbitrary: bs rule: varint_digits.induct)
  case (1 n)
  show ?case
  proof (cases "n = 0")
    case False
    then have "0 < n"
      by (simp add: word_gt_0)
    note ih = "1.IH" [OF this]
    show ?thesis
      using drop_bit_7_le [of n] by (simp add: varint_digits_pos [OF False] ih low_bits not_less [symmetric])
  qed simp
qed

lemma encode_varint_pos:
  assumes "v \<noteq> 0"
  shows "encode_varint v = map (\<lambda>b. b OR 0x80) (rev (varint_digits (drop_bit 7 v))) @ [ucast (v AND 0x7F)]"
  using assms by (simp add: encode_varint_def varint_digits_pos)

lemma varint_loop_encode:
  "varint_loop (encode_varint v @ bs) 0 p = Inr (v, p + length (encode_varint v))"
proof (cases "v = 0")
  case True
  then show ?thesis
    by (simp add: encode_varint_def)
next
  case False
  then show ?thesis
    using drop_bit_7_le [of v] by (simp add: encode_varint_pos varint_loop_digits low_bits)
qed

section \<open>Reading what was written\<close>

text \<open>A reader that has read \<open>pre\<close> and has \<open>xs\<close> before it.\<close>

definition rd :: "bytes \<Rightarrow> bytes \<Rightarrow> ByteReader" where
  "rd pre xs = \<lparr> br_data = pre @ xs, br_pos = length pre \<rparr>"

lemma rd_new: "br_new xs = rd [] xs"
  by (simp add: br_new_def rd_def)

lemma rd_pos [simp]: "br_pos (rd pre xs) = length pre"
  by (simp add: rd_def)

lemma rd_remaining [simp]: "br_remaining (rd pre xs) = length xs"
  by (simp add: br_remaining_def rd_def)

lemma rd_is_empty [simp]: "br_is_empty (rd pre xs) \<longleftrightarrow> xs = []"
  by (simp add: br_is_empty_def rd_def)

lemma rd_u8 [simp]: "br_read_u8 (rd pre (b # xs)) = Inr (b, rd (pre @ [b]) xs)"
  by (simp add: br_read_u8_def rd_def)

lemma rd_varint [simp]: "br_read_varint (rd pre (encode_varint v @ xs)) = Inr (v, rd (pre @ encode_varint v) xs)"
  by (simp add: br_read_varint_def rd_def varint_loop_encode)

lemma rd_usize [simp]: "read_usize (rd pre (encode_varint v @ xs)) = Inr (unat v, rd (pre @ encode_varint v) xs)"
  by (simp add: read_usize_def)

lemma rd_bytes:
  "length (pre @ ys @ xs) \<le> usize_max \<Longrightarrow> n = length ys \<Longrightarrow> br_read_bytes (rd pre (ys @ xs)) n = Inr (ys, rd (pre @ ys) xs)"
  by (simp add: br_read_bytes_def rd_def slice_def checked_add_usize_fits)

lemma rd_expect:
  "length (pre @ ys @ xs) \<le> usize_max \<Longrightarrow> br_expect_bytes (rd pre (ys @ xs)) ys = Inr (rd (pre @ ys) xs)"
  by (simp add: br_expect_bytes_def rd_bytes)

lemma code_table_add: "build_default_code_table ! 1 = CodeEntry_single (InstDef_add 0)"
  by (simp add: build_default_code_table_def single_entries_def)

lemma apply_add_only:
  assumes "target \<noteq> []" "length target \<le> usize_max" "1 \<le> vl_max_instruction_count limits"
  shows "apply_instructions [] target (0x01 # encode_varint (of_nat (length target))) [] (length target)
    build_default_code_table limits [] = Inr target"
proof -
  have n: "unat (of_nat (length target) :: u64) = length target"
    using assms(2) by (simp add: usize_max_def)
  have v: "br_read_varint (rd [0x01] (encode_varint (of_nat (length target)))) =
      Inr (of_nat (length target), rd (0x01 # encode_varint (of_nat (length target))) [])"
    using rd_varint [of "[0x01]" "of_nat (length target)" "[]"] by simp
  have b: "br_read_bytes (rd [] target) (length target) = Inr (target, rd target [])"
    using rd_bytes [of "[]" target "[]" "length target"] assms(2) by simp
  show ?thesis
    using assms n
    by (simp add: apply_instructions_def rd_new checked_add_usize_fits inst_loop.simps exec_inst_def exec_add_def
        CodeEntry_single_def InstDef_add_def InstDef_noop_def v b code_table_add [unfolded One_nat_def] Let_def copy_into_def)
qed

text \<open>The window that the generator writes.\<close>

definition add_body :: "u64 \<Rightarrow> u64 \<Rightarrow> bytes \<Rightarrow> bytes \<Rightarrow> bytes" where
  "add_body T I target inst =
     encode_varint T @ [0] @ encode_varint T @ encode_varint I @ encode_varint 0 @ target @ inst"

lemma decode_add_window:
  fixes T I B :: u64 and target inst :: bytes
  defines "body \<equiv> add_body T I target inst"
  assumes T: "unat T = length target" and I: "unat I = length inst" and B: "unat B = length body"
    and ai: "apply_instructions [] target inst [] (length target) ct limits [] = Inr target"
    and lim: "T \<le> vl_max_output_size limits"
    and len: "length (pre @ 0 # encode_varint B @ body) \<le> usize_max"
  shows "decode_window base [] (rd pre (0 # encode_varint B @ body)) ct limits [] =
    Inr (rd (pre @ 0 # encode_varint B @ body) [], target)"
proof -
  let ?p = "pre @ 0 # encode_varint B @ encode_varint T @ 0 # encode_varint T @ encode_varint I @ encode_varint 0"
  have l: "length (?p @ target @ inst) \<le> usize_max"
    using len by (simp add: body_def add_body_def)
  have r1: "br_read_bytes (rd ?p (target @ inst)) (length target) = Inr (target, rd (?p @ target) inst)"
    using l by (intro rd_bytes) simp_all
  have r2: "br_read_bytes (rd (?p @ target) inst) (length inst) = Inr (inst, rd (?p @ target @ inst) [])"
    using rd_bytes [of "?p @ target" inst "[]" "length inst"] l by simp
  have r3: "br_read_bytes (rd (?p @ target @ inst) []) 0 = Inr ([], rd (?p @ target @ inst) [])"
    using rd_bytes [of "?p @ target @ inst" "[]" "[]" 0] l by simp
  have z: "read_usize (rd xs (encode_varint 0 @ ys)) = Inr (0, rd (xs @ encode_varint 0) ys)" for xs ys
    by simp
  have new: "checked_add_usize 0 (length target) = Some (length target)"
    "\<not> vl_max_output_size limits < of_nat (length target)"
    using l lim by (simp_all add: T [symmetric])
  have lb: "length body = length (encode_varint T) + Suc (length (encode_varint T) + (length (encode_varint I) +
      (length (encode_varint 0) + (length target + length inst))))"
    by (simp add: body_def add_body_def)
  show ?thesis
    unfolding decode_window_def
    using r1 r2 r3 ai new lb T I B z
    by (simp add: vcdiff_consts body_def add_body_def checked_add_usize_fits Let_def)
qed

lemma apply_generated_vcdiff:
  assumes "generate_vcdiff_patch base target limits = Inr patch"
  shows "apply_vcdiff base patch (of_nat (length target)) limits = Inr target"
proof (cases "target = []")
  case True
  have e: "br_expect_bytes (rd [] (VCDIFF_STREAM_HEADER @ [0])) VCDIFF_STREAM_HEADER = Inr (rd VCDIFF_STREAM_HEADER [0])"
    using rd_expect [of "[]" VCDIFF_STREAM_HEADER "[0]"] by (simp add: usize_max_def vcdiff_consts)
  have "patch = VCDIFF_STREAM_HEADER @ [0]" "\<not> of_nat (length patch) > vl_max_patch_size limits"
    using assms True
    by (auto simp: generate_vcdiff_patch_def VCDIFF_HEADER_INDICATOR_NONE_def bindR_eq_Inr word_of_usize_def Let_def split: if_splits)
  moreover have "window_loop base build_default_code_table limits (rd xs []) [] 0 = Inr []" for xs
    by (simp add: window_loop.simps)
  ultimately show ?thesis
    using True e by (simp add: apply_vcdiff_def rd_new VCD_CODETABLE_def VCD_DECOMPRESS_def)
next
  case False
  define T where "T = (of_nat (length target) :: u64)"
  define inst where "inst = 0x01 # encode_varint T"
  define I where "I = (of_nat (length inst) :: u64)"
  define body where "body = add_body T I target inst"
  define B where "B = (of_nat (length body) :: u64)"
  have w: "word_of_usize n = Some v \<longleftrightarrow> n < 2 ^ 64 \<and> v = (of_nat n :: u64)" for n v
    by (auto simp: word_of_usize_def)
  have lb: "length body = length (encode_varint T) + 1 + length (encode_varint T) + length (encode_varint I) +
      length (encode_varint 0) + length target + length inst"
    by (simp add: body_def add_body_def)
  have i: "VCDIFF_ADD_VARINT_CODE # encode_varint T = inst"
    by (simp add: inst_def VCDIFF_ADD_VARINT_CODE_def)
  have g: "length target < 2 ^ 64 \<and> T \<le> vl_max_output_size limits \<and> 1 \<le> vl_max_window_count limits \<and>
    1 \<le> vl_max_instruction_count limits \<and> length inst < 2 ^ 64 \<and> length body < 2 ^ 64 \<and>
    6 + length (encode_varint B) + length body \<le> usize_max \<and>
    of_nat (6 + length (encode_varint B) + length body) \<le> vl_max_patch_size limits \<and>
    patch = VCDIFF_STREAM_HEADER @ 0 # 0 # encode_varint B @ body"
  proof -
    have b: "encode_varint T @ 0 # encode_varint T @ encode_varint I @ encode_varint 0 @ target @ inst = body"
      by (simp add: body_def add_body_def)
    have sz: "6 + length (encode_varint B) + length body = 2 * length (encode_varint T) + (7 + (length (encode_varint B) +
        (length (encode_varint I) + (length (encode_varint 0) + (length target + length inst)))))"
      by (simp add: lb)
    have h: "length VCDIFF_STREAM_HEADER = 4"
      by (simp add: VCDIFF_STREAM_HEADER_def)
    show ?thesis
      using assms False
      by (auto simp: generate_vcdiff_patch_def bindR_eq_Inr w i b h Let_def ADD_ONLY_INSTRUCTION_COUNT_def
          ADD_ONLY_WINDOW_COUNT_def VCDIFF_HEADER_INDICATOR_NONE_def VCDIFF_WINDOW_INDICATOR_NONE_def
          VCDIFF_DELTA_INDICATOR_NONE_def not_less simp flip: T_def I_def lb B_def simp del: of_nat_add One_nat_def
          split: if_splits)
        (simp_all add: sz lb usize_max_def del: of_nat_add One_nat_def)
  qed
  have u: "unat T = length target" "unat I = length inst" "unat B = length body"
    using g by (simp_all add: T_def I_def B_def)
  have lp: "length patch = 6 + length (encode_varint B) + length body" "length patch \<le> usize_max"
    using g by (simp_all add: vcdiff_consts)
  have ai: "apply_instructions [] target inst [] (length target) build_default_code_table limits [] = Inr target"
    using apply_add_only [OF False, of limits] g by (simp add: inst_def T_def usize_max_def)
  let ?pre = "VCDIFF_STREAM_HEADER @ [0]"
  have dw: "decode_window base [] (rd ?pre (0 # encode_varint B @ body)) build_default_code_table limits [] =
      Inr (rd (?pre @ 0 # encode_varint B @ body) [], target)"
    using decode_add_window [OF u(1,2) u(3) [unfolded body_def] ai, of ?pre base] g lp(2) by (simp add: body_def)
  have wl: "window_loop base build_default_code_table limits (rd ?pre (0 # encode_varint B @ body)) [] 0 = Inr target"
    using g u(1) by (subst window_loop.simps) (auto simp: dw window_loop.simps T_def not_less)
  have ex: "br_expect_bytes (rd [] patch) VCDIFF_STREAM_HEADER = Inr (rd VCDIFF_STREAM_HEADER (0 # 0 # encode_varint B @ body))"
    using rd_expect [of "[]" VCDIFF_STREAM_HEADER "0 # 0 # encode_varint B @ body"] g lp(2) by simp
  have "\<not> of_nat (length patch) > vl_max_patch_size limits"
    unfolding lp(1) not_less using g by blast
  then show ?thesis
    using wl ex by (simp add: apply_vcdiff_def rd_new VCD_DECOMPRESS_def VCD_CODETABLE_def)
qed

section \<open>The copy instruction\<close>








section \<open>Properties\<close>

text \<open>
  (C37) Generated \<^verbatim>\<open>VCDIFF\<close> patches restore their target.  A patch that \<^verbatim>\<open>generate_vcdiff_patch\<close> makes is accepted
  by \<^verbatim>\<open>apply_vcdiff\<close> with the length of the target and the same limits, whatever the base, and returns
  the target; in particular the decoder ends on it.
\<close>

lemma vcdiff_roundtrip:
  assumes "generate_vcdiff_patch base target limits = Inr patch"
  shows "apply_vcdiff base' patch (of_nat (length target)) limits = Inr target"
proof -
  have "generate_vcdiff_patch base' target limits = Inr patch"
    using assms by (simp add: generate_vcdiff_patch_def)
  then show ?thesis
    by (rule apply_generated_vcdiff)
qed

lemma vcdiff_roundtrip_witness:
  "\<exists>patch. generate_vcdiff_patch [] [7, 8] VcdiffLimits_default = Inr patch \<and>
     apply_vcdiff [1, 2] patch 2 VcdiffLimits_default = Inr [7, 8]"
proof -
  have v: "encode_varint 0 = [0]" "encode_varint 2 = [2]" "encode_varint 9 = [9]"
    by (simp_all add: encode_varint_def varint_digits.simps)
  have g: "\<exists>patch. generate_vcdiff_patch [] [7, 8] VcdiffLimits_default = Inr patch"
    by (simp add: generate_vcdiff_patch_def VcdiffLimits_default_def vcdiff_consts v Let_def checked_add_usize_def
        usize_max_def ADD_ONLY_INSTRUCTION_COUNT_def ADD_ONLY_WINDOW_COUNT_def)
  then obtain patch where "generate_vcdiff_patch [] [7, 8] VcdiffLimits_default = Inr patch"
    by blast
  with vcdiff_roundtrip [OF this, of "[1, 2]"] show ?thesis
    by auto
qed



end
