(* ===== verification/Sar_Flags.thy ===== *)
theory Sar_Flags
  imports Sar_Error
begin

text \<open>
  Global flags and entry mode bits of \<^verbatim>\<open>sar-core/src/flags.rs\<close>.  The \<^verbatim>\<open>bitflags!\<close> struct
  \<^verbatim>\<open>GlobalFlags\<close> is its \<^verbatim>\<open>u32\<close> of bits; \<^verbatim>\<open>contains\<close>, \<^verbatim>\<open>intersects\<close> and \<^verbatim>\<open>from_bits_truncate\<close>
  are the operations that macro documents, written as the bit operations they stand for.
\<close>

section \<open>Global flags\<close>

type_synonym GlobalFlags = u32

named_theorems flag_defs "the bit of each flag"

definition SIZE_64BIT :: GlobalFlags where [flag_defs]:
  "SIZE_64BIT = push_bit 0 1"

definition NO_INDEX :: GlobalFlags where [flag_defs]:
  "NO_INDEX = push_bit 1 1"

definition OPT_PRESENT :: GlobalFlags where [flag_defs]:
  "OPT_PRESENT = push_bit 2 1"

definition PARTITIONED_ARCHIVE :: GlobalFlags where [flag_defs]:
  "PARTITIONED_ARCHIVE = push_bit 3 1"

definition FILE_FRAGMENTATION :: GlobalFlags where [flag_defs]:
  "FILE_FRAGMENTATION = push_bit 4 1"

definition CDC_SUPPORT :: GlobalFlags where [flag_defs]:
  "CDC_SUPPORT = push_bit 5 1"

definition COMPRESSED :: GlobalFlags where [flag_defs]:
  "COMPRESSED = push_bit 8 1"

definition HAS_DELTA :: GlobalFlags where [flag_defs]:
  "HAS_DELTA = push_bit 9 1"

definition ENCRYPTED :: GlobalFlags where [flag_defs]:
  "ENCRYPTED = push_bit 10 1"

definition HAS_GLOBAL_CRC32 :: GlobalFlags where [flag_defs]:
  "HAS_GLOBAL_CRC32 = push_bit 16 1"

definition PER_FILE_CRC :: GlobalFlags where [flag_defs]:
  "PER_FILE_CRC = push_bit 17 1"

definition SIGNED :: GlobalFlags where [flag_defs]:
  "SIGNED = push_bit 18 1"

definition HAS_GLOBAL_EC :: GlobalFlags where [flag_defs]:
  "HAS_GLOBAL_EC = push_bit 19 1"

definition SELECTIVE_FEC :: GlobalFlags where [flag_defs]:
  "SELECTIVE_FEC = push_bit 20 1"

definition HAS_PATH :: GlobalFlags where [flag_defs]:
  "HAS_PATH = push_bit 24 1"

definition HAS_PERMS :: GlobalFlags where [flag_defs]:
  "HAS_PERMS = push_bit 25 1"

definition HAS_SYMLINKS :: GlobalFlags where [flag_defs]:
  "HAS_SYMLINKS = push_bit 26 1"

definition EXT_UID_GID :: GlobalFlags where [flag_defs]:
  "EXT_UID_GID = push_bit 27 1"

definition EXT_TIME :: GlobalFlags where [flag_defs]:
  "EXT_TIME = push_bit 28 1"

definition DEDUPLICATION :: GlobalFlags where [flag_defs]:
  "DEDUPLICATION = push_bit 29 1"

definition SPARSE_FILES :: GlobalFlags where [flag_defs]:
  "SPARSE_FILES = push_bit 30 1"

definition all_flags :: GlobalFlags where [flag_defs]:
  "all_flags = SIZE_64BIT OR NO_INDEX OR OPT_PRESENT OR PARTITIONED_ARCHIVE OR FILE_FRAGMENTATION OR CDC_SUPPORT OR COMPRESSED
     OR HAS_DELTA OR ENCRYPTED OR HAS_GLOBAL_CRC32 OR PER_FILE_CRC OR SIGNED OR HAS_GLOBAL_EC
     OR SELECTIVE_FEC OR HAS_PATH OR HAS_PERMS OR HAS_SYMLINKS OR EXT_UID_GID OR EXT_TIME
     OR DEDUPLICATION OR SPARSE_FILES"

definition contains :: "GlobalFlags \<Rightarrow> GlobalFlags \<Rightarrow> bool" where
  "contains flags m \<longleftrightarrow> flags AND m = m"

definition intersects :: "GlobalFlags \<Rightarrow> GlobalFlags \<Rightarrow> bool" where
  "intersects flags m \<longleftrightarrow> flags AND m \<noteq> 0"

definition from_bits_truncate :: "u32 \<Rightarrow> GlobalFlags" where
  "from_bits_truncate bits = bits AND all_flags"

section \<open>Entry mode\<close>

datatype EntryMode = EntryMode (mode_bits: u16)

definition IS_SYMLINK :: u16 where [flag_defs]:
  "IS_SYMLINK = push_bit 0 1"

definition IS_DIRECTORY :: u16 where [flag_defs]:
  "IS_DIRECTORY = push_bit 1 1"

definition MODE_ENCRYPTED :: u16 where [flag_defs]:
  "MODE_ENCRYPTED = push_bit 2 1"

definition MODE_COMPRESSED :: u16 where [flag_defs]:
  "MODE_COMPRESSED = push_bit 3 1"

definition HIDDEN_ATTR :: u16 where [flag_defs]:
  "HIDDEN_ATTR = push_bit 4 1"

definition FRAGMENT :: u16 where [flag_defs]:
  "FRAGMENT = push_bit 5 1"

definition LAST_FRAGMENT :: u16 where [flag_defs]:
  "LAST_FRAGMENT = push_bit 6 1"

definition LOSS_TOLERANT :: u16 where [flag_defs]:
  "LOSS_TOLERANT = push_bit 7 1"

definition SESSION_CONTROL :: u16 where [flag_defs]:
  "SESSION_CONTROL = push_bit 13 1"

definition ATOMIC_WRITE :: u16 where [flag_defs]:
  "ATOMIC_WRITE = push_bit 14 1"

definition FORCE_SYNC :: u16 where [flag_defs]:
  "FORCE_SYNC = push_bit 15 1"

definition MODE_RESERVED :: u16 where [flag_defs]:
  "MODE_RESERVED = push_bit 12 1"

definition is_encrypted :: "EntryMode \<Rightarrow> bool" where
  "is_encrypted m \<longleftrightarrow> mode_bits m AND MODE_ENCRYPTED \<noteq> 0"

definition is_compressed :: "EntryMode \<Rightarrow> bool" where
  "is_compressed m \<longleftrightarrow> mode_bits m AND MODE_COMPRESSED \<noteq> 0"

definition is_directory :: "EntryMode \<Rightarrow> bool" where
  "is_directory m \<longleftrightarrow> mode_bits m AND IS_DIRECTORY \<noteq> 0"

definition is_symlink :: "EntryMode \<Rightarrow> bool" where
  "is_symlink m \<longleftrightarrow> mode_bits m AND IS_SYMLINK \<noteq> 0"

definition is_fragment :: "EntryMode \<Rightarrow> bool" where
  "is_fragment m \<longleftrightarrow> mode_bits m AND FRAGMENT \<noteq> 0"

definition is_last_fragment :: "EntryMode \<Rightarrow> bool" where
  "is_last_fragment m \<longleftrightarrow> mode_bits m AND LAST_FRAGMENT \<noteq> 0"

definition is_loss_tolerant :: "EntryMode \<Rightarrow> bool" where
  "is_loss_tolerant m \<longleftrightarrow> mode_bits m AND LOSS_TOLERANT \<noteq> 0"

definition is_session_control :: "EntryMode \<Rightarrow> bool" where
  "is_session_control m \<longleftrightarrow> mode_bits m AND SESSION_CONTROL \<noteq> 0"

definition is_hidden_attr :: "EntryMode \<Rightarrow> bool" where
  "is_hidden_attr m \<longleftrightarrow> mode_bits m AND HIDDEN_ATTR \<noteq> 0"

definition is_atomic_write :: "EntryMode \<Rightarrow> bool" where
  "is_atomic_write m \<longleftrightarrow> mode_bits m AND ATOMIC_WRITE \<noteq> 0"

definition is_force_sync :: "EntryMode \<Rightarrow> bool" where
  "is_force_sync m \<longleftrightarrow> mode_bits m AND FORCE_SYNC \<noteq> 0"

definition op_code :: "EntryMode \<Rightarrow> u8" where
  "op_code m = ucast (drop_bit 8 (mode_bits m) AND 0x0f)"

section \<open>Validation\<close>

definition validate_global_flags :: "GlobalFlags \<Rightarrow> SarError + unit" where
  "validate_global_flags flags =
     (if contains flags HAS_GLOBAL_EC \<and> \<not> contains flags OPT_PRESENT
      then Inl SarError.FlagConflict
      else if contains flags SIGNED \<and> \<not> contains flags OPT_PRESENT
      then Inl SarError.FlagConflict
      else if contains flags NO_INDEX \<and>
        intersects flags (OPT_PRESENT OR HAS_GLOBAL_CRC32 OR HAS_GLOBAL_EC OR SIGNED)
      then Inl SarError.FlagConflict
      else Inr ())"

definition validate_entry_mode_against_global :: "GlobalFlags \<Rightarrow> EntryMode \<Rightarrow> SarError + unit" where
  "validate_entry_mode_against_global global_flags entry_mode =
     (if mode_bits entry_mode AND MODE_RESERVED \<noteq> 0 then Inl SarError.ReservedValue
      else if is_symlink entry_mode \<and> \<not> contains global_flags HAS_SYMLINKS
      then Inl SarError.FlagConflict
      else if is_compressed entry_mode \<and> \<not> contains global_flags COMPRESSED
      then Inl SarError.FlagConflict
      else if is_encrypted entry_mode \<and> \<not> contains global_flags ENCRYPTED
      then Inl SarError.FlagConflict
      else if is_fragment entry_mode \<and> \<not> contains global_flags FILE_FRAGMENTATION
      then Inl SarError.FlagConflict
      else if is_last_fragment entry_mode \<and> \<not> is_fragment entry_mode
      then Inl SarError.FlagConflict
      else if is_loss_tolerant entry_mode \<and> \<not> is_fragment entry_mode
      then Inl SarError.FlagConflict
      else Inr ())"

section \<open>Flags as sets of bits\<close>

lemma and_exp_word:
  "(x :: 'a::len word) AND 2 ^ n = (if bit x n then 2 ^ n else 0)"
  by (rule bit_word_eqI) (auto simp: bit_and_iff bit_exp_iff)

lemma contains_bit: "n < 32 \<Longrightarrow> contains flags (push_bit n 1) \<longleftrightarrow> bit flags n"
  by (simp add: contains_def and_exp_word)

lemma all_flags_bits:
  "all_flags = 0x7F1F073F"
  by (simp add: flag_defs)

lemma from_bits_truncate_idem [simp]:
  "from_bits_truncate (from_bits_truncate b) = from_bits_truncate b"
  by (simp add: from_bits_truncate_def and.assoc)

end
