(* ===== verification/Sar_Format.thy ===== *)
theory Sar_Format
  imports Sar_Flags Sar_Tlv
begin

text \<open>
  The archive structures of \<^verbatim>\<open>crates/sar-core/src/format.rs\<close>: global header, local file header (LFH),
  Central Dictionary and footer, and the size fields they share, whose width the flag
  \<^verbatim>\<open>SIZE_64BIT\<close> selects.  Fixed-size arrays are byte lists; that they have their length is
  part of the well-formedness predicates of the parsers and writers (theories \<open>Sar_Global\<close>,
  \<open>Sar_Lfh\<close>, \<open>Sar_Central\<close>).
\<close>

section \<open>Structures\<close>

definition MAGIC :: bytes where
  "MAGIC = [0x53, 0x41, 0x52, 0x21]"

definition SUPPORTED_GLOBAL_VERSION :: u8 where
  "SUPPORTED_GLOBAL_VERSION = 0x01"

definition SUPPORTED_CD_VERSION :: u8 where
  "SUPPORTED_CD_VERSION = 0x01"

record KmsData =
  kms_mode_id :: u8
  kms_payload :: bytes

record PartitionDescriptor =
  pd_partition_set_uuid :: bytes
  pd_partition_index :: u32
  pd_total_partitions :: u32
  pd_previous_partition_hash :: bytes
  pd_partition_hash :: bytes

record GlobalHeader =
  gh_version :: u8
  gh_flags_bytes :: bytes
  gh_flags :: GlobalFlags
  gh_partition_descriptor :: "PartitionDescriptor option"
  gh_kms :: "KmsData option"

record LfhFragmentDescriptor =
  fd_absolute_offset :: u64
  fd_fragment_size :: u32

record LocalFileHeader =
  lfh_header_size :: u32
  lfh_entry_mode :: EntryMode
  lfh_stream_id :: u16
  lfh_sequence_no :: u16
  lfh_uncompressed_size :: u64
  lfh_payload_size :: u64
  lfh_comp_algo_id :: "u8 option"
  lfh_patch_algo_id :: "u8 option"
  lfh_encr_algo_id :: "u8 option"
  lfh_cdc_algo_id :: "u8 option"
  lfh_fec_algo_id :: "u8 option"
  lfh_fragment_id :: "u32 option"
  lfh_fragment_index :: "u32 option"
  lfh_fragment_descriptor :: "LfhFragmentDescriptor option"
  lfh_iv_nonce :: "bytes option"
  lfh_delta_base_hash :: "bytes option"
  lfh_file_crc32 :: "u32 option"
  lfh_content_hash :: "bytes option"
  lfh_uid_gid :: "u32 option"
  lfh_timestamps :: "(u64 \<times> u64 \<times> u64) option"
  lfh_permissions :: "u16 option"
  lfh_name :: bytes
  lfh_path :: bytes
  lfh_sparse_map :: bytes
  lfh_fec_value :: bytes

definition minimal_store :: "bytes \<Rightarrow> u64 \<Rightarrow> LocalFileHeader" where
  "minimal_store name payload_size = \<lparr>
     lfh_header_size = 0,
     lfh_entry_mode = EntryMode 0,
     lfh_stream_id = 0,
     lfh_sequence_no = 0,
     lfh_uncompressed_size = payload_size,
     lfh_payload_size = payload_size,
     lfh_comp_algo_id = None,
     lfh_patch_algo_id = None,
     lfh_encr_algo_id = None,
     lfh_cdc_algo_id = None,
     lfh_fec_algo_id = None,
     lfh_fragment_id = None,
     lfh_fragment_index = None,
     lfh_fragment_descriptor = None,
     lfh_iv_nonce = None,
     lfh_delta_base_hash = None,
     lfh_file_crc32 = None,
     lfh_content_hash = None,
     lfh_uid_gid = None,
     lfh_timestamps = None,
     lfh_permissions = None,
     lfh_name = name,
     lfh_path = [],
     lfh_sparse_map = [],
     lfh_fec_value = [] \<rparr>"

record CentralDictionary =
  cd_version :: u8
  cd_file_count :: u64
  cd_partition_info :: "(u16 \<times> u16) option"
  cd_global_crc32 :: "u32 option"
  cd_metadata :: "Tlv list"
  cd_offsets :: "u64 list"

record Footer =
  footer_cd_offset :: u64

section \<open>Size fields\<close>

definition size_field_len :: "GlobalFlags \<Rightarrow> nat" where
  "size_field_len flags = (if contains flags SIZE_64BIT then 8 else 4)"

definition read_size :: "GlobalFlags \<Rightarrow> ParseCursor \<Rightarrow> SarError + (u64 \<times> ParseCursor)" where
  "read_size flags cursor =
     (if contains flags SIZE_64BIT then read_u64_le cursor
      else bindR (read_u32_le cursor) (\<lambda>(v, cursor). Inr (ucast v, cursor)))"

definition write_size :: "BinaryWriter \<Rightarrow> GlobalFlags \<Rightarrow> u64 \<Rightarrow> SarError + BinaryWriter" where
  "write_size writer flags value =
     (if contains flags SIZE_64BIT then Inr (write_u64_le writer value)
      else bindR (ok_or (narrow_word value) SarError.Overflow) (\<lambda>(v :: u32).
        Inr (write_u32_le writer v)))"

text \<open>Size fields are field readers; a 32-bit field holds the values below \<open>2\<^sup>3\<^sup>2\<close>.\<close>

definition size_enc :: "GlobalFlags \<Rightarrow> u64 \<Rightarrow> bytes" where
  "size_enc flags v = (if contains flags SIZE_64BIT then le_bytes 8 v else le_bytes 4 (ucast v :: u32))"

definition size_adm :: "GlobalFlags \<Rightarrow> u64 \<Rightarrow> bool" where
  "size_adm flags v \<longleftrightarrow> contains flags SIZE_64BIT \<or> unat v < 2 ^ 32"

lemma length_size_enc [simp]: "length (size_enc flags v) = size_field_len flags"
  by (simp add: size_enc_def size_field_len_def)

lemma ucast_ucast_u32: "unat v < 2 ^ 32 \<Longrightarrow> ucast (ucast (v :: u64) :: u32) = v"
  by (rule unat_eqI) (simp add: unsigned_ucast_eq unsigned_take_bit_eq take_bit_nat_eq_self)

lemma write_size_Inr:
  "write_size w flags v = Inr w' \<longleftrightarrow> size_adm flags v \<and> w' = write_bytes w (size_enc flags v)"
proof (cases "contains flags SIZE_64BIT")
  case False
  have "narrow_word v = Some x \<longleftrightarrow> unat v < 2 ^ 32 \<and> x = (ucast v :: u32)" for x :: u32
    by (auto simp: narrow_word_def)
  with False show ?thesis
    by (auto simp: write_size_def size_adm_def size_enc_def bindR_eq_Inr write_u32_le_def
        write_bytes_def)
qed (auto simp: write_size_def size_adm_def size_enc_def write_u64_le_def write_bytes_def)

interpretation size_field: field_codec "read_size flags" "size_enc flags" "size_adm flags" for flags
proof
  show "read_size flags c = Inr (v, advance (length (size_enc flags v)) c)"
    if "size_adm flags v" "cursor_ok c" "rest_of c = size_enc flags v @ r" for v c r
  proof (cases "contains flags SIZE_64BIT")
    case True
    with that u64.rd_enc [of c v r] show ?thesis
      by (simp add: read_size_def size_enc_def)
  next
    case False
    with that u32.rd_enc [of c "ucast v" r] show ?thesis
      by (simp add: read_size_def size_enc_def size_adm_def ucast_ucast_u32)
  qed
  show "size_adm flags v \<and> rest_of c = size_enc flags v @ rest_of c' \<and>
      c' = advance (length (size_enc flags v)) c \<and> in_range c'"
    if "read_size flags c = Inr (v, c')" "in_range c" for v c c'
  proof (cases "contains flags SIZE_64BIT")
    case True
    with that u64.rd_sound [of c v c'] show ?thesis
      by (clarsimp simp: read_size_def size_enc_def size_adm_def)
  next
    case False
    with that(1) obtain x :: u32 where x: "read_u32_le c = Inr (x, c')" "v = ucast x"
      by (auto simp: read_size_def bindR_eq_Inr)
    have "(ucast (ucast x :: u64) :: u32) = x"
      by (intro bit_word_eqI) (auto simp: bit_ucast_iff)
    moreover have "unat (ucast x :: u64) < 2 ^ 32"
      by (simp add: unat_ucast_up)
    ultimately show ?thesis
      using False u32.rd_sound [OF x(1) that(2)] x(2)
      by (clarsimp simp: size_enc_def size_adm_def)
  qed
qed

end
