(* ===== verification/Sar_Lfh.thy ===== *)
theory Sar_Lfh
  imports Sar_Format
begin

text \<open>
  The local file header of \<^verbatim>\<open>sar-core/src/format.rs\<close>: size computation, parser, writer and the
  bytes that enter the AEAD associated data.  The presence of every optional field is decided
  by the global flags.
\<close>

section \<open>Model\<close>

text \<open>
  \<^verbatim>\<open>compute_lfh_size\<close> is a sequence of conditional checked additions; it is the fold over that
  sequence, each element being the condition and the (possibly failing) amount.
\<close>

definition add_size :: "bool \<times> (SarError + u64) \<Rightarrow> u64 \<Rightarrow> SarError + u64" where
  "add_size step acc =
     (if fst step then
        bindR (snd step) (\<lambda>v. ok_or (checked_add_word acc v) SarError.Overflow)
      else Inr acc)"

definition len_u64 :: "bytes \<Rightarrow> SarError + u64" where
  "len_u64 bs = ok_or (word_of_usize (length bs)) SarError.Overflow"

definition lfh_size_steps :: "GlobalFlags \<Rightarrow> LocalFileHeader \<Rightarrow> u64 \<Rightarrow> (bool \<times> (SarError + u64)) list" where
  "lfh_size_steps flags lfh size_len =
     [(True, Inr 4), (True, Inr 2), (True, Inr 2), (True, Inr 2),
      (True, Inr size_len), (True, Inr size_len),
      (contains flags COMPRESSED, Inr 1),
      (contains flags HAS_DELTA, Inr 1),
      (contains flags ENCRYPTED, Inr 1),
      (contains flags CDC_SUPPORT, Inr 1),
      (contains flags SELECTIVE_FEC, Inr 1),
      (contains flags FILE_FRAGMENTATION, Inr (4 + 4 + 12)),
      (contains flags ENCRYPTED, Inr 24),
      (contains flags HAS_DELTA, Inr 32),
      (contains flags PER_FILE_CRC, Inr 4),
      (contains flags DEDUPLICATION, Inr 32),
      (contains flags EXT_UID_GID, Inr 4),
      (contains flags EXT_TIME, Inr 24),
      (contains flags HAS_PERMS, Inr 2),
      (True, Inr 2),
      (contains flags HAS_PATH, Inr 2),
      (contains flags SPARSE_FILES, Inr 4),
      (contains flags SELECTIVE_FEC, Inr 3),
      (True, len_u64 (lfh_name lfh)),
      (contains flags HAS_PATH, len_u64 (lfh_path lfh)),
      (contains flags SPARSE_FILES, len_u64 (lfh_sparse_map lfh)),
      (contains flags SELECTIVE_FEC, len_u64 (lfh_fec_value lfh))]"

definition compute_lfh_size :: "GlobalFlags \<Rightarrow> LocalFileHeader \<Rightarrow> SarError + u64" where
  "compute_lfh_size flags lfh =
     bindR (ok_or (word_of_usize (size_field_len flags)) SarError.Overflow) (\<lambda>size_len.
     foldR add_size (lfh_size_steps flags lfh size_len) 0)"

definition read_fragment_descriptor ::
  "ParseCursor \<Rightarrow> SarError + (LfhFragmentDescriptor \<times> ParseCursor)" where
  "read_fragment_descriptor c =
     bindR (read_u64_le c) (\<lambda>(absolute_offset, c).
     bindR (read_u32_le c) (\<lambda>(fragment_size, c).
     Inr (\<lparr> fd_absolute_offset = absolute_offset, fd_fragment_size = fragment_size \<rparr>, c)))"

definition read_timestamps :: "ParseCursor \<Rightarrow> SarError + ((u64 \<times> u64 \<times> u64) \<times> ParseCursor)" where
  "read_timestamps c =
     bindR (read_u64_le c) (\<lambda>(mtime, c).
     bindR (read_u64_le c) (\<lambda>(atime, c).
     bindR (read_u64_le c) (\<lambda>(ctime, c).
     Inr ((mtime, atime, ctime), c))))"

text \<open>Everything that is read from the slice of the declared header size.\<close>

definition parse_lfh_fields ::
  "GlobalFlags \<Rightarrow> ResourceLimits \<Rightarrow> u32 \<Rightarrow> nat \<Rightarrow> ParseCursor \<Rightarrow> SarError + (LocalFileHeader \<times> nat)" where
  "parse_lfh_fields flags limits header_size_u32 header_size hdr =
     bindR (read_u32_le hdr) (\<lambda>(declared_header_size, hdr).
     if declared_header_size \<noteq> header_size_u32 then Inl SarError.InvalidLength else
     bindR (read_u16_le hdr) (\<lambda>(mode, hdr).
     bindR (validate_entry_mode_against_global flags (EntryMode mode)) (\<lambda>_.
     bindR (read_u16_le hdr) (\<lambda>(stream_id, hdr).
     bindR (read_u16_le hdr) (\<lambda>(sequence_no, hdr).
     bindR (read_size flags hdr) (\<lambda>(uncompressed_size, hdr).
     bindR (read_size flags hdr) (\<lambda>(payload_size, hdr).
     bindR (opt_field (contains flags COMPRESSED) read_u8 hdr) (\<lambda>(comp_algo_id, hdr).
     bindR (opt_field (contains flags HAS_DELTA) read_u8 hdr) (\<lambda>(patch_algo_id, hdr).
     bindR (opt_field (contains flags ENCRYPTED) read_u8 hdr) (\<lambda>(encr_algo_id, hdr).
     bindR (opt_field (contains flags CDC_SUPPORT) read_u8 hdr) (\<lambda>(cdc_algo_id, hdr).
     bindR (opt_field (contains flags SELECTIVE_FEC) read_u8 hdr) (\<lambda>(fec_algo_id, hdr).
     bindR (opt_field (contains flags FILE_FRAGMENTATION) read_u32_le hdr) (\<lambda>(fragment_id, hdr).
     bindR (opt_field (contains flags FILE_FRAGMENTATION) read_u32_le hdr) (\<lambda>(fragment_index, hdr).
     bindR (opt_field (contains flags FILE_FRAGMENTATION) read_fragment_descriptor hdr)
       (\<lambda>(fragment_descriptor, hdr).
     bindR (opt_field (contains flags ENCRYPTED) (\<lambda>c. read_bytes c 24) hdr) (\<lambda>(iv_nonce, hdr).
     bindR (opt_field (contains flags HAS_DELTA) (\<lambda>c. read_bytes c 32) hdr) (\<lambda>(delta_base_hash, hdr).
     bindR (opt_field (contains flags PER_FILE_CRC) read_u32_le hdr) (\<lambda>(file_crc32, hdr).
     bindR (opt_field (contains flags DEDUPLICATION) (\<lambda>c. read_bytes c 32) hdr) (\<lambda>(content_hash, hdr).
     bindR (opt_field (contains flags EXT_UID_GID) read_u32_le hdr) (\<lambda>(uid_gid, hdr).
     bindR (opt_field (contains flags EXT_TIME) read_timestamps hdr) (\<lambda>(timestamps, hdr).
     bindR (opt_field (contains flags HAS_PERMS) read_u16_le hdr) (\<lambda>(permissions, hdr).
     bindR (opt_len True read_u16_le hdr) (\<lambda>(name_len, hdr).
     bindR (opt_len (contains flags HAS_PATH) read_u16_le hdr) (\<lambda>(path_len, hdr).
     bindR (opt_len (contains flags SPARSE_FILES) read_u32_le hdr) (\<lambda>(sparse_len, hdr).
     bindR (opt_len (contains flags SELECTIVE_FEC) read_u24_le hdr) (\<lambda>(fec_len, hdr).
     bindR (ok_or (checked_add_usize name_len path_len) SarError.Overflow) (\<lambda>total_path_bytes.
     bindR (check_path_bytes limits total_path_bytes) (\<lambda>_.
     bindR (check_sparse_map_bytes limits sparse_len) (\<lambda>_.
     bindR (check_fec_value_bytes limits fec_len) (\<lambda>_.
     bindR (ok_or (Option.bind (checked_add_usize total_path_bytes sparse_len)
             (\<lambda>value. checked_add_usize value fec_len)) SarError.Overflow) (\<lambda>trailing_bytes.
     bindR (ok_or (checked_add_usize (position hdr) trailing_bytes) SarError.Overflow) (\<lambda>trailing_end.
     if trailing_end \<noteq> header_size then Inl SarError.InvalidLength else
     bindR (read_var True name_len hdr) (\<lambda>(name, hdr).
     bindR (read_var (contains flags HAS_PATH) path_len hdr) (\<lambda>(path, hdr).
     bindR (read_var (contains flags SPARSE_FILES) sparse_len hdr) (\<lambda>(sparse_map, hdr).
     bindR (read_var (contains flags SELECTIVE_FEC) fec_len hdr) (\<lambda>(fec_value, hdr).
     if position hdr \<noteq> header_size then Inl SarError.InvalidLength else
     let lfh = \<lparr>
       lfh_header_size = header_size_u32,
       lfh_entry_mode = EntryMode mode,
       lfh_stream_id = stream_id,
       lfh_sequence_no = sequence_no,
       lfh_uncompressed_size = uncompressed_size,
       lfh_payload_size = payload_size,
       lfh_comp_algo_id = comp_algo_id,
       lfh_patch_algo_id = patch_algo_id,
       lfh_encr_algo_id = encr_algo_id,
       lfh_cdc_algo_id = cdc_algo_id,
       lfh_fec_algo_id = fec_algo_id,
       lfh_fragment_id = fragment_id,
       lfh_fragment_index = fragment_index,
       lfh_fragment_descriptor = fragment_descriptor,
       lfh_iv_nonce = iv_nonce,
       lfh_delta_base_hash = delta_base_hash,
       lfh_file_crc32 = file_crc32,
       lfh_content_hash = content_hash,
       lfh_uid_gid = uid_gid,
       lfh_timestamps = timestamps,
       lfh_permissions = permissions,
       lfh_name = name,
       lfh_path = path,
       lfh_sparse_map = sparse_map,
       lfh_fec_value = fec_value \<rparr> in
     bindR (compute_lfh_size flags lfh) (\<lambda>computed.
     if computed \<noteq> ucast header_size_u32 then Inl SarError.InvalidLength
     else Inr (lfh, header_size))))))))))))))))))))))))))))))))))))))"

definition parse_lfh ::
  "bytes \<Rightarrow> GlobalFlags \<Rightarrow> ResourceLimits \<Rightarrow> SarError + (LocalFileHeader \<times> nat)" where
  "parse_lfh inp flags limits =
     bindR (read_u32_le (cursor_new inp)) (\<lambda>(header_size_u32, cursor).
     bindR (ok_or (usize_of_word header_size_u32) SarError.Overflow) (\<lambda>header_size.
     bindR (check_lfh_header_bytes limits header_size) (\<lambda>_.
     if header_size > length inp then Inl SarError.Truncated else
     parse_lfh_fields flags limits header_size_u32 header_size
       (cursor_new (take header_size inp)))))"

definition unwrap_or :: "'a option \<Rightarrow> 'a \<Rightarrow> 'a" where
  "unwrap_or m d = (case m of None \<Rightarrow> d | Some v \<Rightarrow> v)"

definition write_if :: "bool \<Rightarrow> (BinaryWriter \<Rightarrow> BinaryWriter) \<Rightarrow> BinaryWriter \<Rightarrow> BinaryWriter" where
  "write_if b f w = (if b then f w else w)"

definition write_fragment_fields :: "BinaryWriter \<Rightarrow> LocalFileHeader \<Rightarrow> BinaryWriter" where
  "write_fragment_fields w lfh =
     (let w = write_u32_le w (unwrap_or (lfh_fragment_id lfh) 0);
          w = write_u32_le w (unwrap_or (lfh_fragment_index lfh) 0);
          (a, sz) = (case lfh_fragment_descriptor lfh of None \<Rightarrow> (0, 0)
            | Some fd \<Rightarrow> (fd_absolute_offset fd, fd_fragment_size fd));
          w = write_u64_le w a
      in write_u32_le w sz)"

definition write_timestamps :: "BinaryWriter \<Rightarrow> LocalFileHeader \<Rightarrow> BinaryWriter" where
  "write_timestamps w lfh =
     (let (t0, t1, t2) = unwrap_or (lfh_timestamps lfh) (0, 0, 0);
          w = write_u64_le w t0;
          w = write_u64_le w t1
      in write_u64_le w t2)"

definition write_lfh :: "GlobalFlags \<Rightarrow> LocalFileHeader \<Rightarrow> SarError + bytes" where
  "write_lfh flags lfh =
     bindR (validate_entry_mode_against_global flags (lfh_entry_mode lfh)) (\<lambda>_.
     bindR (compute_lfh_size flags lfh) (\<lambda>computed_size.
     bindR (ok_or (narrow_word computed_size) SarError.Overflow) (\<lambda>(header_size :: u32).
     bindR (ok_or (word_of_usize (length (lfh_name lfh))) SarError.Overflow) (\<lambda>(name_len :: u16).
     bindR (ok_or (word_of_usize (length (lfh_path lfh))) SarError.Overflow) (\<lambda>(path_len :: u16).
     bindR (ok_or (word_of_usize (length (lfh_sparse_map lfh))) SarError.Overflow) (\<lambda>(sparse_len :: u32).
     bindR (ok_or (word_of_usize (length (lfh_fec_value lfh))) SarError.Overflow) (\<lambda>(fec_len :: u32).
     let w = write_u32_le writer_new header_size;
         w = write_u16_le w (mode_bits (lfh_entry_mode lfh));
         w = write_u16_le w (lfh_stream_id lfh);
         w = write_u16_le w (lfh_sequence_no lfh) in
     bindR (write_size w flags (lfh_uncompressed_size lfh)) (\<lambda>w.
     bindR (write_size w flags (lfh_payload_size lfh)) (\<lambda>w.
     let w = write_if (contains flags COMPRESSED) (\<lambda>w. write_u8 w (unwrap_or (lfh_comp_algo_id lfh) 0)) w;
         w = write_if (contains flags HAS_DELTA) (\<lambda>w. write_u8 w (unwrap_or (lfh_patch_algo_id lfh) 0)) w;
         w = write_if (contains flags ENCRYPTED) (\<lambda>w. write_u8 w (unwrap_or (lfh_encr_algo_id lfh) 0)) w;
         w = write_if (contains flags CDC_SUPPORT) (\<lambda>w. write_u8 w (unwrap_or (lfh_cdc_algo_id lfh) 0)) w;
         w = write_if (contains flags SELECTIVE_FEC) (\<lambda>w. write_u8 w (unwrap_or (lfh_fec_algo_id lfh) 0)) w;
         w = write_if (contains flags FILE_FRAGMENTATION) (\<lambda>w. write_fragment_fields w lfh) w;
         w = write_if (contains flags ENCRYPTED) (\<lambda>w.
           write_bytes w (unwrap_or (lfh_iv_nonce lfh) (replicate 24 0))) w;
         w = write_if (contains flags HAS_DELTA) (\<lambda>w.
           write_bytes w (unwrap_or (lfh_delta_base_hash lfh) (replicate 32 0))) w;
         w = write_if (contains flags PER_FILE_CRC) (\<lambda>w. write_u32_le w (unwrap_or (lfh_file_crc32 lfh) 0)) w;
         w = write_if (contains flags DEDUPLICATION) (\<lambda>w.
           write_bytes w (unwrap_or (lfh_content_hash lfh) (replicate 32 0))) w;
         w = write_if (contains flags EXT_UID_GID) (\<lambda>w. write_u32_le w (unwrap_or (lfh_uid_gid lfh) 0)) w;
         w = write_if (contains flags EXT_TIME) (\<lambda>w. write_timestamps w lfh) w;
         w = write_if (contains flags HAS_PERMS) (\<lambda>w. write_u16_le w (unwrap_or (lfh_permissions lfh) 0)) w;
         w = write_u16_le w name_len;
         w = write_if (contains flags HAS_PATH) (\<lambda>w. write_u16_le w path_len) w;
         w = write_if (contains flags SPARSE_FILES) (\<lambda>w. write_u32_le w sparse_len) w in
     bindR (if contains flags SELECTIVE_FEC then write_u24_le w fec_len else Inr w) (\<lambda>w.
     let w = write_bytes w (lfh_name lfh);
         w = write_if (contains flags HAS_PATH) (\<lambda>w. write_bytes w (lfh_path lfh)) w;
         w = write_if (contains flags SPARSE_FILES) (\<lambda>w. write_bytes w (lfh_sparse_map lfh)) w;
         w = write_if (contains flags SELECTIVE_FEC) (\<lambda>w. write_bytes w (lfh_fec_value lfh)) w in
     Inr (into_inner w)))))))))))"

definition add_when :: "bool \<Rightarrow> nat \<Rightarrow> nat \<Rightarrow> nat" where
  "add_when b k off = (if b then off + k else off)"

definition fec_size_field_offset :: "GlobalFlags \<Rightarrow> nat" where
  "fec_size_field_offset flags =
     (let size_len = size_field_len flags;
          off = 4 + 2 + 2 + 2 + size_len + size_len;
          off = add_when (contains flags COMPRESSED) 1 off;
          off = add_when (contains flags HAS_DELTA) 1 off;
          off = add_when (contains flags ENCRYPTED) 1 off;
          off = add_when (contains flags CDC_SUPPORT) 1 off;
          off = add_when (contains flags SELECTIVE_FEC) 1 off;
          off = add_when (contains flags FILE_FRAGMENTATION) (4 + 4 + 12) off;
          off = add_when (contains flags ENCRYPTED) 24 off;
          off = add_when (contains flags HAS_DELTA) 32 off;
          off = add_when (contains flags PER_FILE_CRC) 4 off;
          off = add_when (contains flags DEDUPLICATION) 32 off;
          off = add_when (contains flags EXT_UID_GID) 4 off;
          off = add_when (contains flags EXT_TIME) 24 off;
          off = add_when (contains flags HAS_PERMS) 2 off;
          off = off + 2;
          off = add_when (contains flags HAS_PATH) 2 off;
          off = add_when (contains flags SPARSE_FILES) 4 off
      in off)"

definition lfh_bytes_for_aad :: "GlobalFlags \<Rightarrow> bytes \<Rightarrow> u8 \<Rightarrow> nat \<Rightarrow> SarError + bytes" where
  "lfh_bytes_for_aad flags lfh_bytes fec_algo_id fec_value_len =
     (if \<not> contains flags SELECTIVE_FEC \<or> fec_algo_id = 0 then Inr lfh_bytes else
      let fec_size_off = fec_size_field_offset flags in
      bindR (ok_or (checked_add_usize fec_size_off 3) SarError.Overflow) (\<lambda>fec_size_end.
      bindR (ok_or (checked_sub_usize (length lfh_bytes) fec_value_len) SarError.InvalidLength)
        (\<lambda>fec_value_start.
      if fec_size_end > fec_value_start \<or> fec_value_start > length lfh_bytes
      then Inl SarError.InvalidLength else
      bindR (ok_or (checked_add_usize 3 fec_value_len) SarError.Overflow) (\<lambda>excluded.
      bindR (ok_or (checked_sub_usize (length lfh_bytes) excluded) SarError.InvalidLength) (\<lambda>out_len.
      Inr (take fec_size_off lfh_bytes @ slice lfh_bytes fec_size_end (fec_value_start - fec_size_end)))))))"

section \<open>The wire form of a header\<close>

definition fd_enc :: "LfhFragmentDescriptor \<Rightarrow> bytes" where
  "fd_enc fd = le_bytes 8 (fd_absolute_offset fd) @ le_bytes 4 (fd_fragment_size fd)"

definition ts_enc :: "u64 \<times> u64 \<times> u64 \<Rightarrow> bytes" where
  "ts_enc t = le_bytes 8 (fst t) @ le_bytes 8 (fst (snd t)) @ le_bytes 8 (snd (snd t))"

definition var_enc :: "bool \<Rightarrow> bytes \<Rightarrow> bytes" where
  "var_enc present bs = (if present then bs else [])"

text \<open>The fields of the fixed part, in wire order, then the variable part.\<close>

definition lfh_fixed_wire :: "GlobalFlags \<Rightarrow> LocalFileHeader \<Rightarrow> bytes" where
  "lfh_fixed_wire flags l =
     le_bytes 4 (lfh_header_size l) @
     le_bytes 2 (mode_bits (lfh_entry_mode l)) @
     le_bytes 2 (lfh_stream_id l) @
     le_bytes 2 (lfh_sequence_no l) @
     size_enc flags (lfh_uncompressed_size l) @
     size_enc flags (lfh_payload_size l) @
     opt_enc (contains flags COMPRESSED) byte (lfh_comp_algo_id l) @
     opt_enc (contains flags HAS_DELTA) byte (lfh_patch_algo_id l) @
     opt_enc (contains flags ENCRYPTED) byte (lfh_encr_algo_id l) @
     opt_enc (contains flags CDC_SUPPORT) byte (lfh_cdc_algo_id l) @
     opt_enc (contains flags SELECTIVE_FEC) byte (lfh_fec_algo_id l) @
     opt_enc (contains flags FILE_FRAGMENTATION) (le_bytes 4) (lfh_fragment_id l) @
     opt_enc (contains flags FILE_FRAGMENTATION) (le_bytes 4) (lfh_fragment_index l) @
     opt_enc (contains flags FILE_FRAGMENTATION) fd_enc (lfh_fragment_descriptor l) @
     opt_enc (contains flags ENCRYPTED) (\<lambda>bs. bs) (lfh_iv_nonce l) @
     opt_enc (contains flags HAS_DELTA) (\<lambda>bs. bs) (lfh_delta_base_hash l) @
     opt_enc (contains flags PER_FILE_CRC) (le_bytes 4) (lfh_file_crc32 l) @
     opt_enc (contains flags DEDUPLICATION) (\<lambda>bs. bs) (lfh_content_hash l) @
     opt_enc (contains flags EXT_UID_GID) (le_bytes 4) (lfh_uid_gid l) @
     opt_enc (contains flags EXT_TIME) ts_enc (lfh_timestamps l) @
     opt_enc (contains flags HAS_PERMS) (le_bytes 2) (lfh_permissions l) @
     len_enc True (le_bytes 2 :: u16 \<Rightarrow> bytes) (length (lfh_name l)) @
     len_enc (contains flags HAS_PATH) (le_bytes 2 :: u16 \<Rightarrow> bytes) (length (lfh_path l)) @
     len_enc (contains flags SPARSE_FILES) (le_bytes 4 :: u32 \<Rightarrow> bytes) (length (lfh_sparse_map l))"

definition lfh_wire :: "GlobalFlags \<Rightarrow> LocalFileHeader \<Rightarrow> bytes" where
  "lfh_wire flags l =
     lfh_fixed_wire flags l @
     len_enc (contains flags SELECTIVE_FEC) (le_bytes 3 :: u32 \<Rightarrow> bytes) (length (lfh_fec_value l)) @
     lfh_name l @ lfh_path l @ lfh_sparse_map l @ lfh_fec_value l"

text \<open>
  What every header that the parser returns satisfies: each optional field is present exactly
  when its flag is set, the arrays have their length, the numbers fit their fields and the
  declared header size is the length of the wire form.
\<close>

definition lfh_fields_ok :: "GlobalFlags \<Rightarrow> LocalFileHeader \<Rightarrow> bool" where
  "lfh_fields_ok flags l \<longleftrightarrow>
     size_adm flags (lfh_uncompressed_size l) \<and>
     size_adm flags (lfh_payload_size l) \<and>
     opt_adm (contains flags COMPRESSED) (\<lambda>_. True) (lfh_comp_algo_id l) \<and>
     opt_adm (contains flags HAS_DELTA) (\<lambda>_. True) (lfh_patch_algo_id l) \<and>
     opt_adm (contains flags ENCRYPTED) (\<lambda>_. True) (lfh_encr_algo_id l) \<and>
     opt_adm (contains flags CDC_SUPPORT) (\<lambda>_. True) (lfh_cdc_algo_id l) \<and>
     opt_adm (contains flags SELECTIVE_FEC) (\<lambda>_. True) (lfh_fec_algo_id l) \<and>
     opt_adm (contains flags FILE_FRAGMENTATION) (\<lambda>_. True) (lfh_fragment_id l) \<and>
     opt_adm (contains flags FILE_FRAGMENTATION) (\<lambda>_. True) (lfh_fragment_index l) \<and>
     opt_adm (contains flags FILE_FRAGMENTATION) (\<lambda>_. True) (lfh_fragment_descriptor l) \<and>
     opt_adm (contains flags ENCRYPTED) (\<lambda>bs. length bs = 24) (lfh_iv_nonce l) \<and>
     opt_adm (contains flags HAS_DELTA) (\<lambda>bs. length bs = 32) (lfh_delta_base_hash l) \<and>
     opt_adm (contains flags PER_FILE_CRC) (\<lambda>_. True) (lfh_file_crc32 l) \<and>
     opt_adm (contains flags DEDUPLICATION) (\<lambda>bs. length bs = 32) (lfh_content_hash l) \<and>
     opt_adm (contains flags EXT_UID_GID) (\<lambda>_. True) (lfh_uid_gid l) \<and>
     opt_adm (contains flags EXT_TIME) (\<lambda>_. True) (lfh_timestamps l) \<and>
     opt_adm (contains flags HAS_PERMS) (\<lambda>_. True) (lfh_permissions l)"

definition lfh_lengths_ok :: "GlobalFlags \<Rightarrow> LocalFileHeader \<Rightarrow> bool" where
  "lfh_lengths_ok flags l \<longleftrightarrow>
     length (lfh_name l) < 2 ^ 16 \<and>
     length (lfh_path l) < (if contains flags HAS_PATH then 2 ^ 16 else 1) \<and>
     length (lfh_sparse_map l) < (if contains flags SPARSE_FILES then 2 ^ 32 else 1) \<and>
     length (lfh_fec_value l) < (if contains flags SELECTIVE_FEC then 2 ^ 24 else 1)"

definition lfh_canonical :: "GlobalFlags \<Rightarrow> LocalFileHeader \<Rightarrow> bool" where
  "lfh_canonical flags l \<longleftrightarrow>
     validate_entry_mode_against_global flags (lfh_entry_mode l) = Inr () \<and>
     lfh_fields_ok flags l \<and> lfh_lengths_ok flags l \<and>
     unat (lfh_header_size l) = length (lfh_wire flags l)"

definition lfh_within :: "ResourceLimits \<Rightarrow> LocalFileHeader \<Rightarrow> bool" where
  "lfh_within limits l \<longleftrightarrow>
     unat (lfh_header_size l) \<le> max_lfh_header_bytes limits \<and>
     length (lfh_name l) + length (lfh_path l) \<le> max_path_bytes limits \<and>
     length (lfh_sparse_map l) \<le> max_sparse_map_bytes limits \<and>
     length (lfh_fec_value l) \<le> max_fec_value_bytes limits"

section \<open>Header fields as field readers\<close>

interpretation frag_desc: field_codec read_fragment_descriptor fd_enc "\<lambda>_. True"
proof
  show "read_fragment_descriptor c = Inr (v, advance (length (fd_enc v)) c)"
    if "cursor_ok c" "rest_of c = fd_enc v @ r" for v c r
    unfolding read_fragment_descriptor_def
    using that by (cases v) (auto simp: fd_enc_def u64.rd_enc u32.rd_enc rest_of_advance)
  show "True \<and> rest_of c = fd_enc v @ rest_of c' \<and> c' = advance (length (fd_enc v)) c \<and> in_range c'"
    if "read_fragment_descriptor c = Inr (v, c')" "in_range c" for v c c'
    using that unfolding read_fragment_descriptor_def
    by (auto simp: fd_enc_def bindR_eq_Inr dest!: u64.rd_sound u32.rd_sound)
qed

interpretation tstamps: field_codec read_timestamps ts_enc "\<lambda>_. True"
proof
  show "read_timestamps c = Inr (v, advance (length (ts_enc v)) c)"
    if "cursor_ok c" "rest_of c = ts_enc v @ r" for v c r
    unfolding read_timestamps_def
    using that by (cases v) (auto simp: ts_enc_def u64.rd_enc rest_of_advance)
  show "True \<and> rest_of c = ts_enc v @ rest_of c' \<and> c' = advance (length (ts_enc v)) c \<and> in_range c'"
    if "read_timestamps c = Inr (v, c')" "in_range c" for v c c'
    using that unfolding read_timestamps_def
    by (auto simp: ts_enc_def bindR_eq_Inr dest!: u64.rd_sound)
qed

interpretation opt_u8: field_codec "opt_field b read_u8" "opt_enc b byte" "opt_adm b (\<lambda>_. True)" for b
  by (rule u8.opt)

interpretation opt_u16: field_codec "opt_field b read_u16_le" "opt_enc b (le_bytes 2)" "opt_adm b (\<lambda>_. True)" for b
  by (rule u16.opt)

interpretation opt_u32: field_codec "opt_field b read_u32_le" "opt_enc b (le_bytes 4)" "opt_adm b (\<lambda>_. True)" for b
  by (rule u32.opt)

interpretation opt_raw: field_codec "opt_field b (\<lambda>c. read_bytes c n)" "opt_enc b (\<lambda>bs. bs)"
  "opt_adm b (\<lambda>bs. length bs = n)" for b n
  by (rule raw.opt)

interpretation opt_fd: field_codec "opt_field b read_fragment_descriptor" "opt_enc b fd_enc"
  "opt_adm b (\<lambda>_. True)" for b
  by (rule frag_desc.opt)

interpretation opt_ts: field_codec "opt_field b read_timestamps" "opt_enc b ts_enc"
  "opt_adm b (\<lambda>_. True)" for b
  by (rule tstamps.opt)

interpretation len_u16: field_codec "opt_len b read_u16_le" "len_enc b (le_bytes 2 :: u16 \<Rightarrow> bytes)"
  "\<lambda>n. if b then n < 2 ^ LENGTH(16) \<and> True else n = 0" for b
  by (rule opt_len_codec) (rule u16.field_codec_axioms, simp)

interpretation len_u32: field_codec "opt_len b read_u32_le" "len_enc b (le_bytes 4 :: u32 \<Rightarrow> bytes)"
  "\<lambda>n. if b then n < 2 ^ LENGTH(32) \<and> True else n = 0" for b
  by (rule opt_len_codec) (rule u32.field_codec_axioms, simp)

interpretation len_u24: field_codec "opt_len b read_u24_le" "len_enc b (le_bytes 3 :: u32 \<Rightarrow> bytes)"
  "\<lambda>n. if b then n < 2 ^ LENGTH(32) \<and> (of_nat n :: u32) \<le> 0x00FFFFFF else n = 0" for b
  by (rule opt_len_codec) (rule u24.field_codec_axioms, simp)

section \<open>Sizes\<close>

lemma add_when_eq: "add_when b k off = off + k * of_bool b"
  by (simp add: add_when_def)

definition step_amount :: "bool \<times> (SarError + u64) \<Rightarrow> nat" where
  "step_amount st = (if fst st then unat (projr (snd st)) else 0)"

lemma foldR_add_size:
  "foldR add_size steps s = Inr t \<longleftrightarrow>
     list_all (\<lambda>st. fst st \<longrightarrow> (\<exists>v. snd st = Inr v)) steps \<and>
     unat t = unat s + sum_list (map step_amount steps)"
proof (induction steps arbitrary: s)
  case Nil
  show ?case
    by (auto simp: word_unat_eq_iff)
next
  case (Cons st steps)
  obtain b m where st: "st = (b, m)"
    by (cases st)
  show ?case
  proof (cases "b \<and> (\<exists>v. m = Inr v)")
    case True
    then obtain v where v: "b" "m = Inr v"
      by blast
    have "checked_add_word s v = Some u \<longleftrightarrow> u = s + v \<and> unat s + unat v < 2 ^ 64" for u
      by (auto simp: checked_add_word_def)
    moreover have "unat (s + v) = unat s + unat v" if "unat s + unat v < 2 ^ 64"
      using that unat_add_lem [of s v] by simp
    moreover have "unat s + unat v < 2 ^ 64" if "unat t = unat s + unat v + n" for n
      using that unat_u64_less [of t] by simp
    ultimately have add: "add_size st s = Inr u \<longleftrightarrow> u = s + v \<and> unat s + unat v < 2 ^ 64"
      and sum: "unat s + unat v < 2 ^ 64 \<Longrightarrow> unat (s + v) = unat s + unat v"
      and bound: "unat t = unat s + unat v + n \<Longrightarrow> unat s + unat v < 2 ^ 64" for u n
      using v by (auto simp: st add_size_def)
    have amt: "step_amount st = unat v" "fst st" "snd st = Inr v"
      using v by (simp_all add: st step_amount_def)
    have "foldR add_size (st # steps) s = Inr t \<longleftrightarrow>
        unat s + unat v < 2 ^ 64 \<and> foldR add_size steps (s + v) = Inr t"
      by (auto simp: bindR_eq_Inr add)
    also have "\<dots> \<longleftrightarrow> list_all (\<lambda>st. fst st \<longrightarrow> (\<exists>v. snd st = Inr v)) steps \<and>
        unat t = unat s + unat v + sum_list (map step_amount steps)"
      unfolding Cons.IH using sum bound by auto
    finally show ?thesis
      using amt by (simp add: add.assoc)
  next
    case False
    then have "add_size st s = Inr u \<longleftrightarrow> \<not> b \<and> u = s" for u
      by (auto simp: st add_size_def bindR_eq_Inr)
    then have "foldR add_size (st # steps) s = Inr t \<longleftrightarrow> \<not> b \<and> foldR add_size steps s = Inr t"
      by (auto simp: bindR_eq_Inr)
    moreover have "step_amount st = 0" "\<not> fst st" if "\<not> b"
      using that by (simp_all add: st step_amount_def)
    ultimately show ?thesis
      unfolding Cons.IH using False by (auto simp: st)
  qed
qed

text \<open>The header size as a number, with one summand per field.\<close>

definition lfh_size_nat :: "GlobalFlags \<Rightarrow> LocalFileHeader \<Rightarrow> nat" where
  "lfh_size_nat flags l =
     fec_size_field_offset flags + 3 * of_bool (contains flags SELECTIVE_FEC) + length (lfh_name l)
     + length (lfh_path l) * of_bool (contains flags HAS_PATH)
     + length (lfh_sparse_map l) * of_bool (contains flags SPARSE_FILES)
     + length (lfh_fec_value l) * of_bool (contains flags SELECTIVE_FEC)"

definition lfh_lens_fit :: "GlobalFlags \<Rightarrow> LocalFileHeader \<Rightarrow> bool" where
  "lfh_lens_fit flags l \<longleftrightarrow>
     length (lfh_name l) < 2 ^ 64 \<and>
     (contains flags HAS_PATH \<longrightarrow> length (lfh_path l) < 2 ^ 64) \<and>
     (contains flags SPARSE_FILES \<longrightarrow> length (lfh_sparse_map l) < 2 ^ 64) \<and>
     (contains flags SELECTIVE_FEC \<longrightarrow> length (lfh_fec_value l) < 2 ^ 64)"

lemma sum_lfh_size_steps:
  assumes "lfh_lens_fit flags l" and n: "n < 2 ^ 64"
  shows "sum_list (map step_amount (lfh_size_steps flags l (of_nat n))) =
    lfh_size_nat flags l + 2 * n - 2 * size_field_len flags"
proof -
  have amt: "step_amount (b, len_u64 bs) = length bs * of_bool b" if "b \<longrightarrow> length bs < 2 ^ 64" for b bs
    using that by (simp add: step_amount_def len_u64_def)
  have const: "step_amount (b, Inr v) = unat v * of_bool b" for b v
    by (simp add: step_amount_def)
  have lens: "step_amount (True, len_u64 (lfh_name l)) = length (lfh_name l)"
    "step_amount (contains flags HAS_PATH, len_u64 (lfh_path l)) =
      length (lfh_path l) * of_bool (contains flags HAS_PATH)"
    "step_amount (contains flags SPARSE_FILES, len_u64 (lfh_sparse_map l)) =
      length (lfh_sparse_map l) * of_bool (contains flags SPARSE_FILES)"
    "step_amount (contains flags SELECTIVE_FEC, len_u64 (lfh_fec_value l)) =
      length (lfh_fec_value l) * of_bool (contains flags SELECTIVE_FEC)"
    using assms(1) by (simp_all add: amt lfh_lens_fit_def)
  show ?thesis
    unfolding lfh_size_steps_def list.map lens const lfh_size_nat_def fec_size_field_offset_def
      add_when_eq Let_def
    using n by simp
qed

lemma compute_lfh_size_Inr:
  "compute_lfh_size flags l = Inr t \<longleftrightarrow> unat t = lfh_size_nat flags l"
proof -
  have len: "(\<exists>v. len_u64 bs = Inr v) \<longleftrightarrow> length bs < 2 ^ 64" for bs
    by (auto simp: len_u64_def word_of_usize_def split: if_splits)
  have steps: "list_all (\<lambda>st. fst st \<longrightarrow> (\<exists>v. snd st = Inr v)) (lfh_size_steps flags l sz) \<longleftrightarrow>
      lfh_lens_fit flags l" for sz
    by (simp add: lfh_size_steps_def len lfh_lens_fit_def)
  have sz: "size_field_len flags < 2 ^ 64"
    by (simp add: size_field_len_def)
  then have "compute_lfh_size flags l =
      foldR add_size (lfh_size_steps flags l (of_nat (size_field_len flags))) 0"
    by (simp add: compute_lfh_size_def)
  then have "compute_lfh_size flags l = Inr t \<longleftrightarrow> lfh_lens_fit flags l \<and>
      unat t = sum_list (map step_amount (lfh_size_steps flags l (of_nat (size_field_len flags))))"
    by (simp only: foldR_add_size steps unat_0 add_0)
  also have "\<dots> \<longleftrightarrow> lfh_lens_fit flags l \<and> unat t = lfh_size_nat flags l"
    using sum_lfh_size_steps [of flags l, OF _ sz] by auto
  also have "\<dots> \<longleftrightarrow> unat t = lfh_size_nat flags l"
  proof -
    have "lfh_lens_fit flags l" if "unat t = lfh_size_nat flags l"
      unfolding lfh_lens_fit_def
      using that unat_u64_less [of t] by (auto simp: lfh_size_nat_def simp del: unat_u64_less)
    then show ?thesis
      by blast
  qed
  finally show ?thesis .
qed

lemma length_opt_enc_const:
  "(\<And>v. length (enc v) = n) \<Longrightarrow> length (opt_enc b enc v) = n * of_bool b"
  by (simp add: opt_enc_def)

lemma length_opt_enc_raw:
  "opt_adm b (\<lambda>bs. length bs = n) v \<Longrightarrow> length (opt_enc b (\<lambda>bs. bs) v) = n * of_bool b"
  by (simp add: opt_enc_def opt_adm_def split: if_splits)

lemma length_len_enc:
  "length (len_enc b (le_bytes k) n) = k * of_bool b"
  by (simp add: len_enc_def)

lemma length_fd_enc [simp]: "length (fd_enc v) = 12"
  by (simp add: fd_enc_def)

lemma length_ts_enc [simp]: "length (ts_enc v) = 24"
  by (simp add: ts_enc_def)

lemmas length_field_simps =
  length_opt_enc_const [where enc = byte and n = 1, OF length_byte]
  length_opt_enc_const [where enc = "le_bytes k" and n = k for k, OF length_le_bytes]
  length_opt_enc_const [where enc = fd_enc and n = 12, OF length_fd_enc]
  length_opt_enc_const [where enc = ts_enc and n = 24, OF length_ts_enc]
  length_len_enc

lemma length_lfh_fixed_wire:
  assumes "lfh_fields_ok flags l"
  shows "length (lfh_fixed_wire flags l) = fec_size_field_offset flags"
proof -
  have raw: "length (opt_enc (contains flags ENCRYPTED) (\<lambda>bs. bs) (lfh_iv_nonce l))
        = 24 * of_bool (contains flags ENCRYPTED)"
    "length (opt_enc (contains flags HAS_DELTA) (\<lambda>bs. bs) (lfh_delta_base_hash l))
        = 32 * of_bool (contains flags HAS_DELTA)"
    "length (opt_enc (contains flags DEDUPLICATION) (\<lambda>bs. bs) (lfh_content_hash l))
        = 32 * of_bool (contains flags DEDUPLICATION)"
    using assms by (simp_all add: lfh_fields_ok_def length_opt_enc_raw)
  show ?thesis
    unfolding lfh_fixed_wire_def fec_size_field_offset_def add_when_eq Let_def length_append
      length_field_simps raw length_le_bytes length_size_enc
    by simp
qed

lemma length_lfh_wire:
  assumes "lfh_fields_ok flags l" "lfh_lengths_ok flags l"
  shows "length (lfh_wire flags l) = lfh_size_nat flags l"
proof -
  have "\<not> contains flags HAS_PATH \<longrightarrow> lfh_path l = []"
    "\<not> contains flags SPARSE_FILES \<longrightarrow> lfh_sparse_map l = []"
    "\<not> contains flags SELECTIVE_FEC \<longrightarrow> lfh_fec_value l = []"
    using assms(2) by (auto simp: lfh_lengths_ok_def split: if_splits)
  then show ?thesis
    using length_lfh_fixed_wire [OF assms(1)]
    by (auto simp: lfh_wire_def lfh_size_nat_def length_len_enc)
qed

section \<open>Parsing\<close>

lemmas lfh_steps =
  opt_u8.step opt_u16.step opt_u32.step opt_raw.step opt_fd.step opt_ts.step
  len_u16.step len_u32.step len_u24.step size_field.step u16.step var.step

lemmas lfh_unsteps =
  opt_u8.unstep opt_u16.unstep opt_u32.unstep opt_raw.unstep opt_fd.unstep opt_ts.unstep
  len_u16.unstep len_u32.unstep len_u24.unstep size_field.unstep u16.unstep u32.unstep var.unstep

lemma len_enc_if [simp]: "len_enc b enc (if b then n else 0) = len_enc b enc n"
  by (simp add: len_enc_def)

lemma u24_bound: "n < 2 ^ 32 \<Longrightarrow> (of_nat n :: u32) \<le> 0x00FFFFFF \<longleftrightarrow> n < 2 ^ 24"
  by (auto simp: word_le_nat_alt)

lemma lfh_parsed_canonical:
  assumes "lfh_fields_ok flags l" "lfh_lengths_ok flags l"
    "validate_entry_mode_against_global flags (lfh_entry_mode l) = Inr ()"
    "compute_lfh_size flags l = Inr (ucast (lfh_header_size l))"
    "consumed bs (lfh_wire flags l) c" "length bs = unat (lfh_header_size l)"
  shows "lfh_canonical flags l" "bs = lfh_wire flags l"
proof -
  have len: "unat (lfh_header_size l) = length (lfh_wire flags l)"
    using assms(4) by (simp add: compute_lfh_size_Inr unat_ucast_up length_lfh_wire [OF assms(1,2)])
  with assms show "lfh_canonical flags l"
    by (simp add: lfh_canonical_def)
  from len assms(5,6) show "bs = lfh_wire flags l"
    by (auto simp: consumed_def)
qed

lemma parse_lfh_fields_sound:
  assumes "parse_lfh_fields flags limits hs n0 (cursor_new bs) = Inr (l, n)" "n0 = unat hs"
    "length bs = n0"
  shows "n = n0 \<and> lfh_header_size l = hs \<and> lfh_canonical flags l \<and> bs = lfh_wire flags l \<and>
    length (lfh_name l) + length (lfh_path l) \<le> max_path_bytes limits \<and>
    length (lfh_sparse_map l) \<le> max_sparse_map_bytes limits \<and>
    length (lfh_fec_value l) \<le> max_fec_value_bytes limits"
  using parsed_new [OF assms(1), of bs] unfolding parse_lfh_fields_def Let_def
  apply -
  apply (elim opt_u8.unstep opt_u16.unstep opt_u32.unstep opt_raw.unstep opt_fd.unstep opt_ts.unstep
    len_u16.unstep len_u32.unstep len_u24.unstep size_field.unstep u16.unstep u32.unstep var.unstep
    bind_unstep guard_unstep parsed_done)
  subgoal premises p
  proof -
    have fields: "lfh_fields_ok flags l"
      using p unfolding lfh_fields_ok_def by (elim Pair_inject) (hypsubst, simp)
    have lengths: "lfh_lengths_ok flags l"
      using p unfolding lfh_lengths_ok_def
      by (elim Pair_inject) (hypsubst, auto simp: u24_bound split: if_splits)
    have mode: "validate_entry_mode_against_global flags (lfh_entry_mode l) = Inr ()"
      using p by (elim Pair_inject) (hypsubst, simp)
    have size: "compute_lfh_size flags l = Inr (ucast (lfh_header_size l))"
      using p by (elim Pair_inject) (hypsubst, simp)
    have "\<exists>c. consumed bs (lfh_wire flags l) c"
      using p unfolding lfh_wire_def lfh_fixed_wire_def
      by (elim Pair_inject) (hypsubst, intro exI, simp)
    moreover have "n = n0 \<and> lfh_header_size l = hs"
      using p by auto
    moreover have "length (lfh_name l) + length (lfh_path l) \<le> max_path_bytes limits \<and>
        length (lfh_sparse_map l) \<le> max_sparse_map_bytes limits \<and>
        length (lfh_fec_value l) \<le> max_fec_value_bytes limits"
      using p by (elim Pair_inject) (hypsubst, auto simp: limit_defs split: if_splits)
    ultimately show ?thesis
      using lfh_parsed_canonical [OF fields lengths mode size] assms(2,3) by auto
  qed
  done

lemma parse_lfh_sound:
  assumes "parse_lfh inp flags limits = Inr (l, n)"
  shows "lfh_canonical flags l \<and> lfh_within limits l \<and> n = unat (lfh_header_size l) \<and>
    n \<le> length inp \<and> take n inp = lfh_wire flags l"
proof -
  from assms obtain hs where "unat hs \<le> length inp" "unat hs \<le> max_lfh_header_bytes limits"
    and "parse_lfh_fields flags limits hs (unat hs) (cursor_new (take (unat hs) inp)) = Inr (l, n)"
    by (auto simp: parse_lfh_def bindR_eq_Inr limit_defs not_less split: if_splits)
  with parse_lfh_fields_sound [of flags limits hs "unat hs" "take (unat hs) inp" l n] show ?thesis
    by (auto simp: lfh_within_def)
qed

lemma parse_lfh_fields_complete:
  assumes l: "lfh_canonical flags l" "lfh_within limits l"
    and bs: "bs = lfh_wire flags l" "length bs \<le> isize_max" "n0 = length bs"
  shows "parse_lfh_fields flags limits (lfh_header_size l) n0 (cursor_new bs) = Inr (l, n0)"
proof -
  have mode: "validate_entry_mode_against_global flags (EntryMode (mode_bits (lfh_entry_mode l))) = Inr ()"
    and f: "lfh_fields_ok flags l" and ln: "lfh_lengths_ok flags l"
    and hs: "unat (lfh_header_size l) = length (lfh_wire flags l)"
    using l by (simp_all add: lfh_canonical_def)
  note fs = f [unfolded lfh_fields_ok_def]
  have lens: "length (lfh_name l) < 2 ^ LENGTH(16)"
    "if contains flags HAS_PATH then length (lfh_path l) < 2 ^ LENGTH(16) \<and> True else length (lfh_path l) = 0"
    "if contains flags SPARSE_FILES then length (lfh_sparse_map l) < 2 ^ LENGTH(32) \<and> True
     else length (lfh_sparse_map l) = 0"
    "if contains flags SELECTIVE_FEC then length (lfh_fec_value l) < 2 ^ LENGTH(32) \<and>
       (of_nat (length (lfh_fec_value l)) :: u32) \<le> 0x00FFFFFF else length (lfh_fec_value l) = 0"
    using ln by (auto simp: lfh_lengths_ok_def u24_bound split: if_splits)
  have size: "compute_lfh_size flags l = Inr (ucast (lfh_header_size l))"
    using hs by (simp add: compute_lfh_size_Inr unat_ucast_up length_lfh_wire [OF f ln])
  have fits: "n0 \<le> usize_max"
    using bs(2,3) by auto
  let ?tp = "length (lfh_name l) + length (lfh_path l)"
  let ?tr = "?tp + length (lfh_sparse_map l) + length (lfh_fec_value l)"
  have tp: "ok_or (checked_add_usize (length (lfh_name l)) (length (lfh_path l))) SarError.Overflow = Inr ?tp"
    and tr: "ok_or (Option.bind (checked_add_usize ?tp (length (lfh_sparse_map l)))
      (\<lambda>value. checked_add_usize value (length (lfh_fec_value l)))) SarError.Overflow = Inr ?tr"
    using fits bs(1,3) by (auto simp: checked_add_usize_def lfh_wire_def)
  have lim: "check_path_bytes limits ?tp = Inr ()"
    "check_sparse_map_bytes limits (length (lfh_sparse_map l)) = Inr ()"
    "check_fec_value_bytes limits (length (lfh_fec_value l)) = Inr ()"
    using l(2) by (auto simp: lfh_within_def limit_defs)
  have end_pos: "ok_or (checked_add_usize (position c) ?tr) SarError.Overflow = Inr n0"
    if "ahead n0 (lfh_name l @ lfh_path l @ lfh_sparse_map l @ lfh_fec_value l) c" for c
    using ahead_position [OF that] fits by (simp add: checked_add_usize_def)
  have at_end: "position c = n0" if "ahead n0 [] c" for c
    using ahead_position [OF that] by simp
  have whole: "\<lparr> lfh_header_size = lfh_header_size l,
       lfh_entry_mode = EntryMode (mode_bits (lfh_entry_mode l)),
       lfh_stream_id = lfh_stream_id l, lfh_sequence_no = lfh_sequence_no l,
       lfh_uncompressed_size = lfh_uncompressed_size l, lfh_payload_size = lfh_payload_size l,
       lfh_comp_algo_id = lfh_comp_algo_id l, lfh_patch_algo_id = lfh_patch_algo_id l,
       lfh_encr_algo_id = lfh_encr_algo_id l, lfh_cdc_algo_id = lfh_cdc_algo_id l,
       lfh_fec_algo_id = lfh_fec_algo_id l, lfh_fragment_id = lfh_fragment_id l,
       lfh_fragment_index = lfh_fragment_index l,
       lfh_fragment_descriptor = lfh_fragment_descriptor l, lfh_iv_nonce = lfh_iv_nonce l,
       lfh_delta_base_hash = lfh_delta_base_hash l, lfh_file_crc32 = lfh_file_crc32 l,
       lfh_content_hash = lfh_content_hash l, lfh_uid_gid = lfh_uid_gid l,
       lfh_timestamps = lfh_timestamps l, lfh_permissions = lfh_permissions l,
       lfh_name = lfh_name l, lfh_path = lfh_path l, lfh_sparse_map = lfh_sparse_map l,
       lfh_fec_value = lfh_fec_value l \<rparr> = l"
    by simp
  have "ahead n0 (lfh_wire flags l @ []) (cursor_new bs)"
    using ahead_new [OF bs(2)] bs(1,3) by simp
  then show ?thesis
    unfolding parse_lfh_fields_def lfh_wire_def lfh_fixed_wire_def append_assoc Let_def
    apply -
    apply (erule u32.step, rule TrueI)
    apply (rule guard_step, simp)
    apply (erule u16.step, rule TrueI)
    apply (rule bind_step, rule mode)
    apply (erule u16.step, rule TrueI)+
    apply (erule size_field.step, simp add: fs)+
    apply (erule opt_u8.step, simp add: fs)+
    apply (erule opt_u32.step, simp add: fs)+
    apply (erule opt_fd.step, simp add: fs)
    apply (erule opt_raw.step, simp add: fs)+
    apply (erule opt_u32.step, simp add: fs)
    apply (erule opt_raw.step, simp add: fs)
    apply (erule opt_u32.step, simp add: fs)
    apply (erule opt_ts.step, simp add: fs)
    apply (erule opt_u16.step, simp add: fs)
    apply (erule len_u16.step, use lens in simp)
    apply (erule len_u16.step, use lens in simp)
    apply (erule len_u32.step, use lens in simp)
    apply (erule len_u24.step, use lens in simp)
    apply (rule bind_step, rule tp)
    apply (rule bind_step, rule lim(1), rule bind_step, rule lim(2), rule bind_step, rule lim(3))
    apply (rule bind_step, rule tr)
    apply (rule bind_step, rule end_pos, simp)
    apply (rule guard_step, simp)
    apply (erule var.step, use lens in simp)
    apply (erule var.step, use lens in \<open>simp split: if_splits\<close>)
    apply (erule var.step, use lens in \<open>simp split: if_splits\<close>)
    apply (erule var.step, use lens in \<open>simp split: if_splits\<close>)
    apply (rule guard_step, simp add: at_end)
    apply (simp only: whole size bindR_Inr)
    apply simp
    done
qed

lemma parse_lfh_complete:
  assumes "lfh_canonical flags l" "lfh_within limits l" "length (lfh_wire flags l @ rest) \<le> isize_max"
  shows "parse_lfh (lfh_wire flags l @ rest) flags limits = Inr (l, length (lfh_wire flags l))"
proof -
  let ?bs = "lfh_wire flags l"
  have hs: "unat (lfh_header_size l) = length ?bs"
    using assms(1) by (simp add: lfh_canonical_def)
  have "\<exists>c. read_u32_le (cursor_new (?bs @ rest)) = Inr (lfh_header_size l, c)"
    by (rule exI, rule u32.rd_enc) (use assms(3) in \<open>auto simp: lfh_wire_def lfh_fixed_wire_def\<close>)
  moreover have "parse_lfh_fields flags limits (lfh_header_size l) (length ?bs) (cursor_new ?bs)
      = Inr (l, length ?bs)"
    by (rule parse_lfh_fields_complete) (use assms in auto)
  ultimately show ?thesis
    using assms(2) hs by (auto simp: parse_lfh_def limit_defs lfh_within_def)
qed

section \<open>Writing\<close>

text \<open>
  The writer fills absent fields that the flags require with zeros, drops fields the flags do
  not announce and recomputes the header size: it writes the canonical form of its argument.
\<close>

definition opt_default :: "bool \<Rightarrow> 'a \<Rightarrow> 'a option \<Rightarrow> 'a option" where
  "opt_default b d v = (if b then Some (unwrap_or v d) else None)"

definition canonical_lfh :: "GlobalFlags \<Rightarrow> LocalFileHeader \<Rightarrow> LocalFileHeader" where
  "canonical_lfh flags l = \<lparr>
     lfh_header_size = of_nat (lfh_size_nat flags l),
     lfh_entry_mode = lfh_entry_mode l,
     lfh_stream_id = lfh_stream_id l,
     lfh_sequence_no = lfh_sequence_no l,
     lfh_uncompressed_size = lfh_uncompressed_size l,
     lfh_payload_size = lfh_payload_size l,
     lfh_comp_algo_id = opt_default (contains flags COMPRESSED) 0 (lfh_comp_algo_id l),
     lfh_patch_algo_id = opt_default (contains flags HAS_DELTA) 0 (lfh_patch_algo_id l),
     lfh_encr_algo_id = opt_default (contains flags ENCRYPTED) 0 (lfh_encr_algo_id l),
     lfh_cdc_algo_id = opt_default (contains flags CDC_SUPPORT) 0 (lfh_cdc_algo_id l),
     lfh_fec_algo_id = opt_default (contains flags SELECTIVE_FEC) 0 (lfh_fec_algo_id l),
     lfh_fragment_id = opt_default (contains flags FILE_FRAGMENTATION) 0 (lfh_fragment_id l),
     lfh_fragment_index = opt_default (contains flags FILE_FRAGMENTATION) 0 (lfh_fragment_index l),
     lfh_fragment_descriptor = opt_default (contains flags FILE_FRAGMENTATION)
       \<lparr> fd_absolute_offset = 0, fd_fragment_size = 0 \<rparr> (lfh_fragment_descriptor l),
     lfh_iv_nonce = opt_default (contains flags ENCRYPTED) (replicate 24 0) (lfh_iv_nonce l),
     lfh_delta_base_hash = opt_default (contains flags HAS_DELTA) (replicate 32 0) (lfh_delta_base_hash l),
     lfh_file_crc32 = opt_default (contains flags PER_FILE_CRC) 0 (lfh_file_crc32 l),
     lfh_content_hash = opt_default (contains flags DEDUPLICATION) (replicate 32 0) (lfh_content_hash l),
     lfh_uid_gid = opt_default (contains flags EXT_UID_GID) 0 (lfh_uid_gid l),
     lfh_timestamps = opt_default (contains flags EXT_TIME) (0, 0, 0) (lfh_timestamps l),
     lfh_permissions = opt_default (contains flags HAS_PERMS) 0 (lfh_permissions l),
     lfh_name = lfh_name l,
     lfh_path = var_enc (contains flags HAS_PATH) (lfh_path l),
     lfh_sparse_map = var_enc (contains flags SPARSE_FILES) (lfh_sparse_map l),
     lfh_fec_value = var_enc (contains flags SELECTIVE_FEC) (lfh_fec_value l) \<rparr>"

text \<open>The array fields have the length of their Rust type.\<close>

definition lfh_arrays :: "LocalFileHeader \<Rightarrow> bool" where
  "lfh_arrays l \<longleftrightarrow>
     (case lfh_iv_nonce l of None \<Rightarrow> True | Some v \<Rightarrow> length v = 24) \<and>
     (case lfh_delta_base_hash l of None \<Rightarrow> True | Some v \<Rightarrow> length v = 32) \<and>
     (case lfh_content_hash l of None \<Rightarrow> True | Some v \<Rightarrow> length v = 32)"

lemma canonical_lfh_idem:
  assumes "lfh_canonical flags l"
  shows "canonical_lfh flags l = l"
proof -
  have f: "lfh_fields_ok flags l" and ln: "lfh_lengths_ok flags l"
    and hs: "unat (lfh_header_size l) = lfh_size_nat flags l"
    using assms by (simp_all add: lfh_canonical_def length_lfh_wire)
  have opt: "opt_default b d v = v" if "opt_adm b P v" for b d P and v :: "'x option"
    using that by (auto simp: opt_default_def opt_adm_def unwrap_or_def split: if_splits)
  have "lfh_path l = var_enc (contains flags HAS_PATH) (lfh_path l)"
    "lfh_sparse_map l = var_enc (contains flags SPARSE_FILES) (lfh_sparse_map l)"
    "lfh_fec_value l = var_enc (contains flags SELECTIVE_FEC) (lfh_fec_value l)"
    using ln by (auto simp: var_enc_def lfh_lengths_ok_def split: if_splits)
  moreover have "lfh_header_size l = of_nat (lfh_size_nat flags l)"
    by (simp flip: hs)
  ultimately show ?thesis
    using f unfolding canonical_lfh_def lfh_fields_ok_def
    by (intro LocalFileHeader.equality) (auto intro: opt)
qed

lemma wr_buf_write_if:
  "(\<And>w. wr_buf (f w) = wr_buf w @ e) \<Longrightarrow> wr_buf (write_if b f w) = wr_buf w @ var_enc b e"
  by (simp add: write_if_def var_enc_def)

lemma buf_write_fragment_fields:
  "wr_buf (write_fragment_fields w l) = wr_buf w @
     le_bytes 4 (unwrap_or (lfh_fragment_id l) 0) @
     le_bytes 4 (unwrap_or (lfh_fragment_index l) 0) @
     fd_enc (unwrap_or (lfh_fragment_descriptor l) \<lparr> fd_absolute_offset = 0, fd_fragment_size = 0 \<rparr>)"
  by (simp add: write_fragment_fields_def writer_simps fd_enc_def unwrap_or_def split: option.split)

lemma buf_write_timestamps:
  "wr_buf (write_timestamps w l) = wr_buf w @ ts_enc (unwrap_or (lfh_timestamps l) (0, 0, 0))"
  by (simp add: write_timestamps_def writer_simps ts_enc_def split: prod.split)

lemmas write_if_simps =
  wr_buf_write_if [where f = "\<lambda>w. write_u8 w v" for v, OF buf_write_u8]
  wr_buf_write_if [where f = "\<lambda>w. write_u16_le w v" for v, OF buf_write_u16_le]
  wr_buf_write_if [where f = "\<lambda>w. write_u32_le w v" for v, OF buf_write_u32_le]
  wr_buf_write_if [where f = "\<lambda>w. write_bytes w v" for v, OF buf_write_bytes]
  wr_buf_write_if [where f = "\<lambda>w. write_fragment_fields w l" for l, OF buf_write_fragment_fields]
  wr_buf_write_if [where f = "\<lambda>w. write_timestamps w l" for l, OF buf_write_timestamps]

lemma opt_enc_default:
  "opt_enc b enc (opt_default b d v) = var_enc b (enc (unwrap_or v d))"
  by (simp add: opt_enc_def opt_default_def var_enc_def)

lemma var_enc_append: "var_enc b (x @ y) = var_enc b x @ var_enc b y"
  by (simp add: var_enc_def)

lemma len_enc_True: "len_enc True enc n = enc (of_nat n)"
  by (simp add: len_enc_def)

lemma len_enc_var: "len_enc b enc (length (var_enc b bs)) = var_enc b (enc (of_nat (length bs)))"
  by (simp add: len_enc_def var_enc_def)

lemma write_lfh_Inr:
  "write_lfh flags l = Inr bs \<longleftrightarrow>
     validate_entry_mode_against_global flags (lfh_entry_mode l) = Inr () \<and>
     lfh_size_nat flags l < 2 ^ 32 \<and>
     length (lfh_name l) < 2 ^ 16 \<and> length (lfh_path l) < 2 ^ 16 \<and>
     length (lfh_sparse_map l) < 2 ^ 32 \<and> length (lfh_fec_value l) < 2 ^ 32 \<and>
     (contains flags SELECTIVE_FEC \<longrightarrow> length (lfh_fec_value l) < 2 ^ 24) \<and>
     size_adm flags (lfh_uncompressed_size l) \<and> size_adm flags (lfh_payload_size l) \<and>
     bs = lfh_wire flags (canonical_lfh flags l)" (is "_ \<longleftrightarrow> ?A \<and> ?S \<and> ?N \<and> ?P \<and> ?M \<and> ?F \<and> ?F2 \<and> ?U \<and> ?Y \<and> _")
proof (cases "?A \<and> ?S \<and> ?N \<and> ?P \<and> ?M \<and> ?F")
  case True
  have "\<exists>sz. compute_lfh_size flags l = Inr sz \<and> narrow_word sz = Some (of_nat (lfh_size_nat flags l) :: u32)"
  proof -
    have "compute_lfh_size flags l = Inr (of_nat (lfh_size_nat flags l))"
      using True by (simp add: compute_lfh_size_Inr)
    moreover have "narrow_word (of_nat (lfh_size_nat flags l) :: u64) = Some (of_nat (lfh_size_nat flags l) :: u32)"
      using True by (simp add: narrow_word_Some)
    ultimately show ?thesis
      by blast
  qed
  then obtain sz where sz: "compute_lfh_size flags l = Inr sz"
    "narrow_word sz = Some (of_nat (lfh_size_nat flags l) :: u32)"
    by blast
  have fec: "(if contains flags SELECTIVE_FEC then write_u24_le w (of_nat (length (lfh_fec_value l))) else Inr w) = Inr w'
      \<longleftrightarrow> ?F2 \<and> w' = write_if (contains flags SELECTIVE_FEC)
        (\<lambda>w. write_bytes w (le_bytes 3 (of_nat (length (lfh_fec_value l)) :: u32))) w" for w w'
    using True by (auto simp: write_u24_le_eq write_if_def u24_bound)
  show ?thesis
    unfolding write_lfh_def Let_def
    using True sz
    by (auto simp: bindR_eq_Inr write_size_Inr fec writer_simps write_if_simps lfh_wire_def
        lfh_fixed_wire_def canonical_lfh_def opt_enc_default len_enc_var len_enc_True var_enc_append)
next
  case False
  have "?A \<and> ?S \<and> ?N \<and> ?P \<and> ?M \<and> ?F" if "write_lfh flags l = Inr bs"
  proof -
    from that obtain u sz hs nl pl ml fl where
      "validate_entry_mode_against_global flags (lfh_entry_mode l) = Inr u"
      "compute_lfh_size flags l = Inr sz"
      "ok_or (narrow_word sz) SarError.Overflow = Inr (hs :: u32)"
      "ok_or (word_of_usize (length (lfh_name l))) SarError.Overflow = Inr (nl :: u16)"
      "ok_or (word_of_usize (length (lfh_path l))) SarError.Overflow = Inr (pl :: u16)"
      "ok_or (word_of_usize (length (lfh_sparse_map l))) SarError.Overflow = Inr (ml :: u32)"
      "ok_or (word_of_usize (length (lfh_fec_value l))) SarError.Overflow = Inr (fl :: u32)"
      unfolding write_lfh_def by (elim bindR_InrE) (rule that; assumption)
    then show ?thesis
      using unat_u32_less [of hs]
      by (auto simp: compute_lfh_size_Inr narrow_word_Some word_of_usize_def split: if_splits)
  qed
  with False show ?thesis
    by auto
qed

lemma lfh_size_nat_canonical: "lfh_size_nat flags (canonical_lfh flags l) = lfh_size_nat flags l"
  by (simp add: lfh_size_nat_def canonical_lfh_def var_enc_def)

lemma opt_adm_default: "opt_adm b (\<lambda>_. True) (opt_default b d v)"
  by (simp add: opt_adm_def opt_default_def)

lemma opt_adm_default_array:
  "(case v of None \<Rightarrow> True | Some v \<Rightarrow> length v = n) \<Longrightarrow>
   opt_adm b (\<lambda>bs. length bs = n) (opt_default b (replicate n 0) v)"
  by (auto simp: opt_adm_def opt_default_def unwrap_or_def split: option.splits)

lemma lfh_fields_ok_canonical:
  assumes "lfh_arrays l" "size_adm flags (lfh_uncompressed_size l)" "size_adm flags (lfh_payload_size l)"
  shows "lfh_fields_ok flags (canonical_lfh flags l)"
  unfolding lfh_fields_ok_def canonical_lfh_def LocalFileHeader.simps
  by (intro conjI opt_adm_default opt_adm_default_array) (use assms in \<open>simp_all add: lfh_arrays_def\<close>)

lemma write_lfh_canonical:
  assumes "write_lfh flags l = Inr bs" "lfh_arrays l"
  shows "lfh_canonical flags (canonical_lfh flags l)" "bs = lfh_wire flags (canonical_lfh flags l)"
proof -
  have w: "validate_entry_mode_against_global flags (lfh_entry_mode l) = Inr ()"
    "lfh_size_nat flags l < 2 ^ 32" "length (lfh_name l) < 2 ^ 16" "length (lfh_path l) < 2 ^ 16"
    "length (lfh_sparse_map l) < 2 ^ 32"
    "contains flags SELECTIVE_FEC \<longrightarrow> length (lfh_fec_value l) < 2 ^ 24"
    "size_adm flags (lfh_uncompressed_size l)" "size_adm flags (lfh_payload_size l)"
    "bs = lfh_wire flags (canonical_lfh flags l)"
    using assms(1) by (auto simp: write_lfh_Inr)
  have f: "lfh_fields_ok flags (canonical_lfh flags l)"
    using assms(2) w by (simp add: lfh_fields_ok_canonical)
  have ln: "lfh_lengths_ok flags (canonical_lfh flags l)"
    using w by (auto simp: lfh_lengths_ok_def canonical_lfh_def var_enc_def)
  have hs: "unat (lfh_header_size (canonical_lfh flags l)) = lfh_size_nat flags l"
    using w(2) by (simp add: canonical_lfh_def)
  have "lfh_entry_mode (canonical_lfh flags l) = lfh_entry_mode l"
    by (simp add: canonical_lfh_def)
  with f ln hs w(1) show "lfh_canonical flags (canonical_lfh flags l)"
    by (simp add: lfh_canonical_def length_lfh_wire lfh_size_nat_canonical)
  show "bs = lfh_wire flags (canonical_lfh flags l)"
    by (fact w)
qed

lemma write_lfh_of_canonical:
  assumes "lfh_canonical flags l"
  shows "write_lfh flags l = Inr (lfh_wire flags l)"
proof -
  have f: "lfh_fields_ok flags l" and ln: "lfh_lengths_ok flags l"
    and hs: "unat (lfh_header_size l) = lfh_size_nat flags l"
    and m: "validate_entry_mode_against_global flags (lfh_entry_mode l) = Inr ()"
    using assms by (simp_all add: lfh_canonical_def length_lfh_wire)
  have "lfh_size_nat flags l < 2 ^ 32"
    using unat_u32_less [of "lfh_header_size l"] hs by simp
  moreover have "length (lfh_name l) < 2 ^ 16" "length (lfh_path l) < 2 ^ 16"
    "length (lfh_sparse_map l) < 2 ^ 32" "length (lfh_fec_value l) < 2 ^ 32"
    "contains flags SELECTIVE_FEC \<longrightarrow> length (lfh_fec_value l) < 2 ^ 24"
    using ln by (auto simp: lfh_lengths_ok_def split: if_splits)
  moreover have "size_adm flags (lfh_uncompressed_size l)" "size_adm flags (lfh_payload_size l)"
    using f by (simp_all add: lfh_fields_ok_def)
  ultimately show ?thesis
    using m by (simp add: write_lfh_Inr canonical_lfh_idem [OF assms])
qed

section \<open>Associated data\<close>

lemma lfh_bytes_for_aad_wire:
  assumes "lfh_canonical flags l" "contains flags SELECTIVE_FEC" "algo \<noteq> 0"
  shows "lfh_bytes_for_aad flags (lfh_wire flags l) algo (length (lfh_fec_value l)) =
    Inr (lfh_fixed_wire flags l @ lfh_name l @ lfh_path l @ lfh_sparse_map l)"
proof -
  let ?n = "length (lfh_fec_value l)"
  let ?body = "lfh_name l @ lfh_path l @ lfh_sparse_map l"
  have off: "length (lfh_fixed_wire flags l) = fec_size_field_offset flags"
    using assms(1) by (simp add: lfh_canonical_def length_lfh_fixed_wire)
  have wire: "lfh_wire flags l = lfh_fixed_wire flags l @ le_bytes 3 (of_nat ?n :: u32) @ ?body @ lfh_fec_value l"
    using assms(2) by (simp add: lfh_wire_def len_enc_def)
  have "length (lfh_wire flags l) < 2 ^ 32"
    using assms(1) unat_u32_less [of "lfh_header_size l"] by (simp add: lfh_canonical_def)
  then have small: "fec_size_field_offset flags + 3 \<le> usize_max" "3 + ?n \<le> usize_max"
    using off by (simp_all add: wire usize_max_less)
  show ?thesis
    unfolding lfh_bytes_for_aad_def Let_def
    using assms(2,3) small off by (simp add: wire checked_add_usize_def checked_sub_usize_def slice_def)
qed

lemma lfh_wire_inj:
  assumes "lfh_canonical flags l" "lfh_canonical flags m" "lfh_wire flags l = lfh_wire flags m"
  shows "l = m"
proof -
  let ?lim = "unlimited"
  have within: "lfh_within ?lim k \<and> length (lfh_wire flags k) \<le> isize_max"
    if "lfh_canonical flags k" for k
  proof -
    have len: "length (lfh_wire flags k) < 2 ^ 32"
      using that unat_u32_less [of "lfh_header_size k"] by (simp add: lfh_canonical_def)
    moreover have "unat (lfh_header_size k) = length (lfh_wire flags k)"
      using that by (simp add: lfh_canonical_def)
    ultimately show ?thesis
      by (simp add: lfh_within_def unlimited_def usize_max_def isize_max_def lfh_wire_def)
  qed
  have "parse_lfh (lfh_wire flags l @ []) flags ?lim = Inr (l, length (lfh_wire flags l))"
    "parse_lfh (lfh_wire flags m @ []) flags ?lim = Inr (m, length (lfh_wire flags m))"
    by (rule parse_lfh_complete; use assms within in simp)+
  with assms(3) show ?thesis
    by simp
qed

end
