(* ===== verification/Sar_Lfh_Laws.thy ===== *)
theory Sar_Lfh_Laws
  imports Sar_Lfh
begin

text \<open>
  What the local file header of \<^verbatim>\<open>crates/sar-core/src/format.rs\<close> promises its callers: the writer and the
  parser are inverse to each other, the declared header size is the number of bytes written, and
  the associated data of the encrypted payload (\<^verbatim>\<open>lfh_bytes_for_aad\<close>) determines every field, except
  for the FEC value of a header that names an FEC algorithm, which is computed after the payload
  has been sealed.
\<close>

section \<open>The associated data\<close>

lemma lfh_aad_eq_iff:
  assumes "lfh_canonical flags l" "lfh_canonical flags m" "contains flags SELECTIVE_FEC"
  shows "lfh_fixed_wire flags l @ lfh_name l @ lfh_path l @ lfh_sparse_map l =
      lfh_fixed_wire flags m @ lfh_name m @ lfh_path m @ lfh_sparse_map m \<longleftrightarrow>
    l\<lparr> lfh_fec_value := [] \<rparr> = m\<lparr> lfh_fec_value := [] \<rparr>"
proof
  assume eq: "lfh_fixed_wire flags l @ lfh_name l @ lfh_path l @ lfh_sparse_map l =
      lfh_fixed_wire flags m @ lfh_name m @ lfh_path m @ lfh_sparse_map m"
  have "length (lfh_fixed_wire flags l) = length (lfh_fixed_wire flags m)"
    using assms by (simp add: lfh_canonical_def length_lfh_fixed_wire)
  with eq have fixed: "lfh_fixed_wire flags l = lfh_fixed_wire flags m"
    and body: "lfh_name l @ lfh_path l @ lfh_sparse_map l = lfh_name m @ lfh_path m @ lfh_sparse_map m"
    by simp_all
  have "take 4 (lfh_fixed_wire flags k) = le_bytes 4 (lfh_header_size k)" for k
    by (simp add: lfh_fixed_wire_def)
  from this [of l] this [of m] fixed have "le_bytes 4 (lfh_header_size l) = le_bytes 4 (lfh_header_size m)"
    by simp
  then have hs: "lfh_header_size l = lfh_header_size m"
    by (simp add: le_bytes_inj)
  have size: "unat (lfh_header_size k) = length (lfh_fixed_wire flags k) + 3 +
      length (lfh_name k @ lfh_path k @ lfh_sparse_map k) + length (lfh_fec_value k)"
    if "lfh_canonical flags k" for k
    using that assms(3) by (simp add: lfh_canonical_def lfh_wire_def len_enc_def)
  have len_eq: "length (lfh_fec_value l) = length (lfh_fec_value m)"
    using size [OF assms(1)] size [OF assms(2)] hs fixed body by simp
  let ?l = "l\<lparr> lfh_fec_value := lfh_fec_value m \<rparr>"
  have fw: "lfh_fixed_wire flags ?l = lfh_fixed_wire flags l"
    by (simp add: lfh_fixed_wire_def)
  have "lfh_canonical flags ?l"
    using assms(1) len_eq
    by (simp add: lfh_canonical_def lfh_fields_ok_def lfh_lengths_ok_def lfh_wire_def fw)
  moreover have "lfh_wire flags ?l = lfh_wire flags m"
    using fixed body fw by (simp add: lfh_wire_def)
  ultimately have "?l = m"
    by (rule lfh_wire_inj [OF _ assms(2)])
  then have "?l\<lparr> lfh_fec_value := [] \<rparr> = m\<lparr> lfh_fec_value := [] \<rparr>"
    by (rule arg_cong)
  then show "l\<lparr> lfh_fec_value := [] \<rparr> = m\<lparr> lfh_fec_value := [] \<rparr>"
    by simp
next
  assume eq: "l\<lparr> lfh_fec_value := [] \<rparr> = m\<lparr> lfh_fec_value := [] \<rparr>"
  have "lfh_fixed_wire flags (k\<lparr> lfh_fec_value := [] \<rparr>) = lfh_fixed_wire flags k" for k
    by (simp add: lfh_fixed_wire_def)
  from this [of l] this [of m] eq have "lfh_fixed_wire flags l = lfh_fixed_wire flags m"
    by simp
  moreover have "lfh_name l = lfh_name m" "lfh_path l = lfh_path m" "lfh_sparse_map l = lfh_sparse_map m"
    using arg_cong [OF eq, of lfh_name] arg_cong [OF eq, of lfh_path] arg_cong [OF eq, of lfh_sparse_map]
    by simp_all
  ultimately show "lfh_fixed_wire flags l @ lfh_name l @ lfh_path l @ lfh_sparse_map l =
      lfh_fixed_wire flags m @ lfh_name m @ lfh_path m @ lfh_sparse_map m"
    by simp
qed

text \<open>
  The reader and the writer take the algorithm (absent means none) and the length of the FEC value from
  the header itself.
\<close>

definition entry_aad :: "GlobalFlags \<Rightarrow> LocalFileHeader \<Rightarrow> bytes \<Rightarrow> SarError + bytes" where
  "entry_aad flags lfh lfh_bytes =
     lfh_bytes_for_aad flags lfh_bytes (unwrap_or (lfh_fec_algo_id lfh) 0) (length (lfh_fec_value lfh))"

text \<open>Whether the FEC value of a header is left out of its associated data.\<close>

definition sealed_fec :: "GlobalFlags \<Rightarrow> LocalFileHeader \<Rightarrow> bool" where
  "sealed_fec flags l \<longleftrightarrow> contains flags SELECTIVE_FEC \<and> unwrap_or (lfh_fec_algo_id l) 0 \<noteq> 0"

lemma entry_aad_full: "\<not> sealed_fec flags l \<Longrightarrow> entry_aad flags l b = Inr b"
  by (auto simp: sealed_fec_def entry_aad_def lfh_bytes_for_aad_def)

lemma entry_aad_sealed:
  assumes "write_lfh flags l = Inr b" "lfh_arrays l" "sealed_fec flags l"
  shows "entry_aad flags l b = Inr (lfh_fixed_wire flags (canonical_lfh flags l) @ lfh_name (canonical_lfh flags l) @
    lfh_path (canonical_lfh flags l) @ lfh_sparse_map (canonical_lfh flags l))"
proof -
  have "lfh_fec_value (canonical_lfh flags l) = lfh_fec_value l"
    using assms(3) by (simp add: sealed_fec_def canonical_lfh_def var_enc_def)
  then show ?thesis
    using write_lfh_canonical [OF assms(1,2)] assms(3)
      lfh_bytes_for_aad_wire [of flags "canonical_lfh flags l" "unwrap_or (lfh_fec_algo_id l) 0"]
    by (simp add: entry_aad_def sealed_fec_def)
qed

lemma fixed_wire_algo:
  assumes "lfh_fields_ok flags l" "lfh_fields_ok flags m" "contains flags SELECTIVE_FEC"
    and "lfh_fixed_wire flags l = lfh_fixed_wire flags m"
  shows "lfh_fec_algo_id l = lfh_fec_algo_id m"
proof -
  let ?pre = "\<lambda>l. le_bytes 4 (lfh_header_size l) @ le_bytes 2 (mode_bits (lfh_entry_mode l)) @
     le_bytes 2 (lfh_stream_id l) @ le_bytes 2 (lfh_sequence_no l) @
     size_enc flags (lfh_uncompressed_size l) @ size_enc flags (lfh_payload_size l) @
     opt_enc (contains flags COMPRESSED) byte (lfh_comp_algo_id l) @
     opt_enc (contains flags HAS_DELTA) byte (lfh_patch_algo_id l) @
     opt_enc (contains flags ENCRYPTED) byte (lfh_encr_algo_id l) @
     opt_enc (contains flags CDC_SUPPORT) byte (lfh_cdc_algo_id l)"
  have split: "\<exists>rest. lfh_fixed_wire flags k = ?pre k @ opt_enc (contains flags SELECTIVE_FEC) byte (lfh_fec_algo_id k) @ rest" for k
    by (simp add: lfh_fixed_wire_def)
  have len: "length (?pre l) = length (?pre m)"
    by (simp only: length_append length_field_simps length_le_bytes length_size_enc)
  obtain x y where xy: "lfh_fec_algo_id l = Some x" "lfh_fec_algo_id m = Some y"
    using assms(1-3) by (auto simp: lfh_fields_ok_def opt_adm_def split: option.splits)
  from split [of l] split [of m] obtain r r' where
    "?pre l @ opt_enc (contains flags SELECTIVE_FEC) byte (lfh_fec_algo_id l) @ r =
     ?pre m @ opt_enc (contains flags SELECTIVE_FEC) byte (lfh_fec_algo_id m) @ r'"
    using assms(4) by metis
  then have "opt_enc (contains flags SELECTIVE_FEC) byte (lfh_fec_algo_id l) @ r =
     opt_enc (contains flags SELECTIVE_FEC) byte (lfh_fec_algo_id m) @ r'"
    using len by (metis append_eq_append_conv)
  then show ?thesis
    using assms(3) xy by (simp add: opt_enc_def byte_def)
qed

lemma aad_algo_differs:
  assumes "write_lfh flags l = Inr b" "write_lfh flags m = Inr d" "lfh_arrays l" "lfh_arrays m"
    and "sealed_fec flags l" "\<not> sealed_fec flags m"
    and "lfh_fec_algo_id (canonical_lfh flags l) \<noteq> lfh_fec_algo_id (canonical_lfh flags m)"
  shows "entry_aad flags l b \<noteq> entry_aad flags m d"
proof
  let ?l = "canonical_lfh flags l" and ?m = "canonical_lfh flags m"
  note cl = write_lfh_canonical [OF assms(1,3)] and cm = write_lfh_canonical [OF assms(2,4)]
  assume "entry_aad flags l b = entry_aad flags m d"
  then have "lfh_fixed_wire flags ?l @ lfh_name ?l @ lfh_path ?l @ lfh_sparse_map ?l = lfh_wire flags ?m"
    using entry_aad_sealed [OF assms(1,3,5)] entry_aad_full [OF assms(6)] cm(2) by simp
  moreover have "length (lfh_fixed_wire flags ?l) = length (lfh_fixed_wire flags ?m)"
    using cl(1) cm(1) by (simp add: lfh_canonical_def length_lfh_fixed_wire)
  ultimately have "lfh_fixed_wire flags ?l = lfh_fixed_wire flags ?m"
    unfolding lfh_wire_def by (metis append_eq_append_conv)
  with fixed_wire_algo [of flags ?l ?m] cl(1) cm(1) assms(5,7) show False
    by (simp add: lfh_canonical_def sealed_fec_def)
qed

section \<open>Properties\<close>

text \<open>
  (C1) Round trip of the local file header.  Whatever \<^verbatim>\<open>write_lfh\<close> emits, followed by any
  payload, \<^verbatim>\<open>parse_lfh\<close> reads back as the canonical form of the header (absent fields filled
  with zeros where the flags announce them, unannounced fields dropped, header size computed)
  and stops exactly at the payload, provided the configured limits admit the header.
\<close>

lemma lfh_write_parse:
  assumes "write_lfh flags l = Inr bs" "lfh_arrays l" "lfh_within limits (canonical_lfh flags l)"
    and "length (bs @ payload) \<le> isize_max"
  shows "parse_lfh (bs @ payload) flags limits = Inr (canonical_lfh flags l, length bs)"
  using assms write_lfh_canonical [OF assms(1,2)] parse_lfh_complete by simp

definition sample_flags :: GlobalFlags where
  "sample_flags = HAS_PATH OR SELECTIVE_FEC OR COMPRESSED"

definition sample_lfh :: LocalFileHeader where
  "sample_lfh = (minimal_store [0x61, 0x62] 3)\<lparr>
     lfh_entry_mode := EntryMode 0x0008, lfh_comp_algo_id := Some 2, lfh_path := [0x64],
     lfh_fec_algo_id := Some 0x14, lfh_fec_value := [9, 8] \<rparr>"

definition sample_bytes :: bytes where
  "sample_bytes = [32, 0, 0, 0, 8, 0, 0, 0, 0, 0, 3, 0, 0, 0, 3, 0, 0, 0, 2, 0x14, 2, 0, 1, 0,
     2, 0, 0, 0x61, 0x62, 0x64, 9, 8]"

lemmas flag_eval = contains_def flag_defs

lemmas lfh_eval = flag_eval opt_default_def unwrap_or_def var_enc_def opt_enc_def
  len_enc_def size_enc_def size_field_len_def byte_def le_bytes_numeral add_when_def
  fec_size_field_offset_def lfh_size_nat_def lfh_wire_def lfh_fixed_wire_def canonical_lfh_def
  minimal_store_def validate_entry_mode_against_global_def is_symlink_def is_compressed_def
  is_encrypted_def is_fragment_def is_last_fragment_def is_loss_tolerant_def size_adm_def

lemma length_sample_bytes: "length sample_bytes = 32"
  by (simp add: sample_bytes_def)

lemma write_sample: "write_lfh sample_flags sample_lfh = Inr sample_bytes"
  by (simp add: write_lfh_Inr lfh_eval sample_lfh_def sample_flags_def sample_bytes_def)

lemma sample_within: "lfh_within default_limits (canonical_lfh sample_flags sample_lfh)"
  by (simp add: lfh_within_def lfh_eval sample_lfh_def sample_flags_def default_limits_def)

lemma sample_arrays: "lfh_arrays sample_lfh"
  by (simp add: lfh_arrays_def sample_lfh_def minimal_store_def)

lemma lfh_write_parse_witness:
  "parse_lfh (sample_bytes @ [1, 2, 3]) sample_flags default_limits =
     Inr (canonical_lfh sample_flags sample_lfh, 32)"
  using lfh_write_parse [OF write_sample sample_arrays sample_within, of "[1, 2, 3]"]
  by (simp add: sample_bytes_def isize_max_def)

text \<open>
  (C2) Canonical encoding.  When \<^verbatim>\<open>parse_lfh\<close> accepts an input, writing the header it returned
  reproduces exactly the bytes it consumed: no two byte strings decode to the same header.
\<close>

lemma lfh_parse_write:
  assumes "parse_lfh inp flags limits = Inr (l, n)"
  shows "write_lfh flags l = Inr (take n inp) \<and> n \<le> length inp"
  using parse_lfh_sound [OF assms] write_lfh_of_canonical [of flags l] by auto

lemma lfh_parse_write_witness:
  "\<exists>l n. parse_lfh (sample_bytes @ [1, 2, 3]) sample_flags default_limits = Inr (l, n) \<and>
     write_lfh sample_flags l = Inr sample_bytes"
proof -
  have "parse_lfh (sample_bytes @ [1, 2, 3]) sample_flags default_limits =
      Inr (canonical_lfh sample_flags sample_lfh, 32)"
    using write_lfh_canonical [OF write_sample sample_arrays] sample_within
      parse_lfh_complete [of sample_flags "canonical_lfh sample_flags sample_lfh" default_limits "[1, 2, 3]"]
      length_sample_bytes
    by (simp add: isize_max_def)
  with lfh_parse_write [OF this] show ?thesis
    by (auto simp: sample_bytes_def)
qed

text \<open>
  (C12) What the associated data of an entry binds.  It is computed from a written header with the
  algorithm and the length of the header's own FEC fields.  Two headers, possibly with different
  algorithms, have the same associated data exactly when their canonical forms agree: in every
  field but the FEC value, if selective FEC is on and the first one names an algorithm, and in every
  field otherwise, when an FEC value without algorithm is part of the data.
\<close>

lemma lfh_aad_binds:
  assumes "write_lfh flags l = Inr b" "write_lfh flags m = Inr d" "lfh_arrays l" "lfh_arrays m"
  shows "entry_aad flags l b = entry_aad flags m d \<longleftrightarrow>
    (if contains flags SELECTIVE_FEC \<and> unwrap_or (lfh_fec_algo_id l) 0 \<noteq> 0
     then (canonical_lfh flags l)\<lparr> lfh_fec_value := [] \<rparr> = (canonical_lfh flags m)\<lparr> lfh_fec_value := [] \<rparr>
     else canonical_lfh flags l = canonical_lfh flags m)"
proof -
  note cl = write_lfh_canonical [OF assms(1,3)] and cm = write_lfh_canonical [OF assms(2,4)]
  let ?l = "canonical_lfh flags l" and ?m = "canonical_lfh flags m"
  have wire: "b = d \<longleftrightarrow> ?l = ?m"
    using lfh_wire_inj [OF cl(1) cm(1)] cl(2) cm(2) by auto
  have algo: "lfh_fec_algo_id ?l = lfh_fec_algo_id ?m \<longleftrightarrow>
      unwrap_or (lfh_fec_algo_id l) 0 = unwrap_or (lfh_fec_algo_id m) 0" if "contains flags SELECTIVE_FEC"
    using that by (simp add: canonical_lfh_def opt_default_def)
  show ?thesis
  proof (cases "sealed_fec flags l"; cases "sealed_fec flags m")
    assume s: "sealed_fec flags l" "sealed_fec flags m"
    then show ?thesis
      using lfh_aad_eq_iff [OF cl(1) cm(1)] entry_aad_sealed [OF assms(1,3)] entry_aad_sealed [OF assms(2,4)]
      by (simp add: sealed_fec_def)
  next
    assume s: "\<not> sealed_fec flags l" "\<not> sealed_fec flags m"
    then show ?thesis
      using wire by (auto simp: sealed_fec_def entry_aad_full)
  next
    assume s: "sealed_fec flags l" "\<not> sealed_fec flags m"
    have "lfh_fec_algo_id ?l \<noteq> lfh_fec_algo_id ?m"
      using s algo by (auto simp: sealed_fec_def)
    then have "entry_aad flags l b \<noteq> entry_aad flags m d" "?l\<lparr> lfh_fec_value := [] \<rparr> \<noteq> ?m\<lparr> lfh_fec_value := [] \<rparr>"
      using s aad_algo_differs [OF assms] by (auto simp: sealed_fec_def dest: arg_cong [where f = lfh_fec_algo_id])
    with s show ?thesis
      by (simp add: sealed_fec_def)
  next
    assume s: "\<not> sealed_fec flags l" "sealed_fec flags m"
    have "lfh_fec_algo_id ?m \<noteq> lfh_fec_algo_id ?l"
      using s algo by (auto simp: sealed_fec_def)
    then have "entry_aad flags m d \<noteq> entry_aad flags l b" "?l \<noteq> ?m"
      using s aad_algo_differs [OF assms(2,1,4,3)] by (auto simp: sealed_fec_def)
    with s show ?thesis
      by (auto simp: sealed_fec_def)
  qed
qed

lemma lfh_aad_binds_witness:
  "entry_aad sample_flags sample_lfh sample_bytes =
     entry_aad sample_flags (sample_lfh\<lparr> lfh_fec_value := [7, 6] \<rparr>) (take 30 sample_bytes @ [7, 6]) \<and>
   entry_aad sample_flags sample_lfh sample_bytes \<noteq>
     entry_aad sample_flags (sample_lfh\<lparr> lfh_entry_mode := EntryMode 0 \<rparr>) (sample_bytes[4 := 0])"
proof -
  let ?l = "sample_lfh\<lparr> lfh_fec_value := [7, 6] \<rparr>" and ?m = "sample_lfh\<lparr> lfh_entry_mode := EntryMode 0 \<rparr>"
  have w: "write_lfh sample_flags ?l = Inr (take 30 sample_bytes @ [7, 6])"
    "write_lfh sample_flags ?m = Inr (sample_bytes[4 := 0])"
    by (simp_all add: write_lfh_Inr lfh_eval sample_lfh_def sample_flags_def sample_bytes_def)
  have a: "lfh_arrays ?l" "lfh_arrays ?m" "contains sample_flags SELECTIVE_FEC"
    "unwrap_or (lfh_fec_algo_id sample_lfh) 0 \<noteq> 0"
    "(canonical_lfh sample_flags sample_lfh)\<lparr> lfh_fec_value := [] \<rparr> =
       (canonical_lfh sample_flags ?l)\<lparr> lfh_fec_value := [] \<rparr>"
    "lfh_entry_mode (canonical_lfh sample_flags sample_lfh) \<noteq> lfh_entry_mode (canonical_lfh sample_flags ?m)"
    by (simp_all add: lfh_arrays_def sample_lfh_def lfh_eval sample_flags_def)
  have "(canonical_lfh sample_flags sample_lfh)\<lparr> lfh_fec_value := [] \<rparr> \<noteq>
       (canonical_lfh sample_flags ?m)\<lparr> lfh_fec_value := [] \<rparr>"
    using a(6) by (auto dest: arg_cong [where f = lfh_entry_mode])
  with lfh_aad_binds [OF write_sample w(1) sample_arrays a(1)] lfh_aad_binds [OF write_sample w(2) sample_arrays a(2)] a
  show ?thesis by simp
qed

text \<open>
  (C19) The declared header size is the size on the wire.  Whatever the writer produces has the
  length that \<^verbatim>\<open>compute_lfh_size\<close> announces, and the first four bytes of the output encode that length.
\<close>

lemma lfh_header_size_exact:
  assumes "write_lfh flags l = Inr bs" "lfh_arrays l"
  shows "\<exists>n. compute_lfh_size flags l = Inr n \<and> unat n = length bs \<and> take 4 bs = le_bytes 4 (ucast n :: u32)"
proof -
  note w = write_lfh_canonical [OF assms]
  have "lfh_size_nat flags l < 2 ^ 32" "length bs = lfh_size_nat flags l"
    using assms(1) w by (auto simp: write_lfh_Inr lfh_canonical_def canonical_lfh_def unat_of_nat_u32)
  then have "compute_lfh_size flags l = Inr (of_nat (length bs))" "length bs < 2 ^ 32"
    by (simp_all add: compute_lfh_size_Inr unat_of_nat_u64)
  moreover have "take 4 bs = le_bytes 4 (of_nat (length bs) :: u32)"
    using w(2) \<open>length bs = _\<close> by (simp add: lfh_wire_def lfh_fixed_wire_def canonical_lfh_def)
  moreover have "(ucast (of_nat (length bs) :: u64) :: u32) = of_nat (length bs)"
    using \<open>length bs < 2 ^ 32\<close> by (intro unat_eqI) (simp add: unat_of_nat_u64 unat_of_nat_u32 unsigned_ucast_eq take_bit_eq_mod)
  ultimately show ?thesis
    by (simp add: unat_of_nat_u64)
qed

lemma lfh_header_size_exact_witness:
  "\<exists>n. compute_lfh_size sample_flags sample_lfh = Inr n \<and> unat n = 32"
  using lfh_header_size_exact [OF write_sample sample_arrays] length_sample_bytes by auto

end
