(* ===== verification/Sar_Central.thy ===== *)
theory Sar_Central
  imports Sar_Format
begin

text \<open>
  Central Dictionary and footer of \<^verbatim>\<open>crates/sar-core/src/format.rs\<close>.  The dictionary lists the
  offset of every entry, with optional partition numbers, a global CRC32 and a block of TLVs; the
  footer points at it.  The lemmas give the wire form and show that the parser accepts exactly the
  wire forms within its limits, so parser and writer are inverse to each other.
\<close>

section \<open>Model\<close>

definition parse_cd_metadata :: "GlobalFlags \<Rightarrow> ResourceLimits \<Rightarrow> ParseCursor \<Rightarrow> SarError + (Tlv list \<times> ParseCursor)" where
  "parse_cd_metadata flags limits cursor =
     (if contains flags OPT_PRESENT then
        bindR (read_u32_le cursor) (\<lambda>(size, cursor).
        bindR (ok_or (usize_of_word size) SarError.Overflow) (\<lambda>meta_size.
        bindR (ok_or (word_of_usize meta_size) SarError.Overflow) (\<lambda>meta_u64.
        bindR (check_allocation_bytes limits meta_u64) (\<lambda>_.
        bindR (read_bytes cursor meta_size) (\<lambda>(meta_bytes, cursor).
        bindR (parse_tlvs meta_bytes limits) (\<lambda>tlvs. Inr (tlvs, cursor)))))))
      else Inr ([], cursor))"

definition read_partition_info :: "ParseCursor \<Rightarrow> SarError + ((u16 \<times> u16) \<times> ParseCursor)" where
  "read_partition_info cursor =
     bindR (read_u16_le cursor) (\<lambda>(partition_id, cursor).
     bindR (read_u16_le cursor) (\<lambda>(total, cursor). Inr ((partition_id, total), cursor)))"

definition parse_central_dictionary ::
  "bytes \<Rightarrow> GlobalFlags \<Rightarrow> ResourceLimits \<Rightarrow> SarError + (CentralDictionary \<times> nat)" where
  "parse_central_dictionary inp flags limits =
     bindR (ok_or (word_of_usize (length inp)) SarError.Overflow) (\<lambda>len.
     bindR (check_cd_bytes limits len) (\<lambda>_.
     let cursor = cursor_new inp in
     bindR (read_u8 cursor) (\<lambda>(version, cursor).
     if version \<noteq> SUPPORTED_CD_VERSION then Inl SarError.InvalidVersion else
     bindR (read_bytes cursor 7) (\<lambda>(reserved, cursor).
     if list_ex (\<lambda>byte. byte \<noteq> 0) reserved then Inl SarError.ReservedValue else
     bindR (read_size flags cursor) (\<lambda>(file_count, cursor).
     bindR (opt_field (contains flags PARTITIONED_ARCHIVE) read_partition_info cursor)
       (\<lambda>(partition_info, cursor).
     bindR (opt_field (contains flags HAS_GLOBAL_CRC32) read_u32_le cursor) (\<lambda>(global_crc32, cursor).
     bindR (parse_cd_metadata flags limits cursor) (\<lambda>(metadata, cursor).
     bindR (ok_or (usize_of_word file_count) SarError.Overflow) (\<lambda>file_count_usize.
     bindR (check_entry_count limits file_count_usize) (\<lambda>_.
     if file_count_usize > isize_max div 8 then Inl SarError.Overflow else
     bindR (read_many file_count_usize (read_size flags) cursor) (\<lambda>(offsets, cursor).
     Inr (\<lparr> cd_version = version,
            cd_file_count = file_count,
            cd_partition_info = partition_info,
            cd_global_crc32 = global_crc32,
            cd_metadata = metadata,
            cd_offsets = offsets \<rparr>, position cursor))))))))))))"

definition write_cd_metadata :: "GlobalFlags \<Rightarrow> Tlv list \<Rightarrow> BinaryWriter \<Rightarrow> SarError + BinaryWriter" where
  "write_cd_metadata flags metadata writer =
     (if contains flags OPT_PRESENT then
        bindR (write_tlvs metadata) (\<lambda>meta_bytes.
        bindR (ok_or (word_of_usize (length meta_bytes)) SarError.Overflow) (\<lambda>(meta_len :: u32).
        let writer = write_u32_le writer meta_len in
        Inr (write_bytes writer meta_bytes)))
      else Inr writer)"

definition write_central_dictionary :: "CentralDictionary \<Rightarrow> GlobalFlags \<Rightarrow> SarError + bytes" where
  "write_central_dictionary cd flags =
     (let writer = write_u8 writer_new (cd_version cd);
          writer = write_bytes writer (replicate 7 0) in
     bindR (write_size writer flags (cd_file_count cd)) (\<lambda>writer.
     bindR (if contains flags PARTITIONED_ARCHIVE then
              bindR (ok_or (cd_partition_info cd) SarError.MetadataMissing) (\<lambda>(partition_id, total).
              let writer = write_u16_le writer partition_id in
              Inr (write_u16_le writer total))
            else Inr writer) (\<lambda>writer.
     bindR (if contains flags HAS_GLOBAL_CRC32 then
              bindR (ok_or (cd_global_crc32 cd) SarError.MetadataMissing) (\<lambda>crc.
              Inr (write_u32_le writer crc))
            else Inr writer) (\<lambda>writer.
     bindR (write_cd_metadata flags (cd_metadata cd) writer) (\<lambda>writer.
     bindR (ok_or (usize_of_word (cd_file_count cd)) SarError.Overflow) (\<lambda>file_count.
     if file_count \<noteq> length (cd_offsets cd) then Inl SarError.InvalidLength else
     bindR (foldR (\<lambda>offset writer. write_size writer flags offset) (cd_offsets cd) writer) (\<lambda>writer.
     Inr (into_inner writer))))))))"

definition parse_footer :: "bytes \<Rightarrow> SarError + Footer" where
  "parse_footer inp =
     (if length inp < 8 then Inl SarError.Truncated else
      let cursor = cursor_new (take 8 inp) in
      bindR (read_u64_le cursor) (\<lambda>(cd_offset, cursor). Inr \<lparr> footer_cd_offset = cd_offset \<rparr>))"

definition write_footer :: "Footer \<Rightarrow> bytes" where
  "write_footer footer = le_bytes 8 (footer_cd_offset footer)"

section \<open>The wire form\<close>

definition cd_meta_enc :: "GlobalFlags \<Rightarrow> Tlv list \<Rightarrow> bytes" where
  "cd_meta_enc flags ts = (if contains flags OPT_PRESENT then
     le_bytes 4 (of_nat (length (concat (map tlv_wire ts))) :: u32) @ concat (map tlv_wire ts) else [])"

definition cd_meta_ok :: "GlobalFlags \<Rightarrow> Tlv list \<Rightarrow> bool" where
  "cd_meta_ok flags ts \<longleftrightarrow> (if contains flags OPT_PRESENT then
     list_all tlv_ok ts \<and> length (concat (map tlv_wire ts)) < 2 ^ 32 else ts = [])"

definition cd_meta_within :: "GlobalFlags \<Rightarrow> ResourceLimits \<Rightarrow> Tlv list \<Rightarrow> bool" where
  "cd_meta_within flags limits ts \<longleftrightarrow> (contains flags OPT_PRESENT \<longrightarrow>
     length (concat (map tlv_wire ts)) \<le> unat (max_in_memory_buffer limits) \<and>
     length (concat (map tlv_wire ts)) \<le> unat (max_total_pipeline_memory limits) \<and>
     length ts \<le> max_tlv_count limits \<and>
     list_all (\<lambda>t. length (tlv_value t) \<le> max_tlv_bytes limits) ts)"

definition pinfo_enc :: "u16 \<times> u16 \<Rightarrow> bytes" where
  "pinfo_enc p = le_bytes 2 (fst p) @ le_bytes 2 (snd p)"

definition cd_wire :: "GlobalFlags \<Rightarrow> CentralDictionary \<Rightarrow> bytes" where
  "cd_wire flags cd = byte (cd_version cd) @ replicate 7 0 @ size_enc flags (cd_file_count cd) @
     opt_enc (contains flags PARTITIONED_ARCHIVE) pinfo_enc (cd_partition_info cd) @
     opt_enc (contains flags HAS_GLOBAL_CRC32) (le_bytes 4) (cd_global_crc32 cd) @
     cd_meta_enc flags (cd_metadata cd) @ concat (map (size_enc flags) (cd_offsets cd))"

text \<open>What every dictionary that the parser returns satisfies, apart from the limits.\<close>

definition cd_ok :: "GlobalFlags \<Rightarrow> CentralDictionary \<Rightarrow> bool" where
  "cd_ok flags cd \<longleftrightarrow>
     cd_version cd = SUPPORTED_CD_VERSION \<and> size_adm flags (cd_file_count cd) \<and>
     opt_adm (contains flags PARTITIONED_ARCHIVE) (\<lambda>_. True) (cd_partition_info cd) \<and>
     opt_adm (contains flags HAS_GLOBAL_CRC32) (\<lambda>_. True) (cd_global_crc32 cd) \<and>
     cd_meta_ok flags (cd_metadata cd) \<and>
     length (cd_offsets cd) = unat (cd_file_count cd) \<and> list_all (size_adm flags) (cd_offsets cd)"

definition cd_within :: "GlobalFlags \<Rightarrow> ResourceLimits \<Rightarrow> CentralDictionary \<Rightarrow> bool" where
  "cd_within flags limits cd \<longleftrightarrow> length (cd_offsets cd) \<le> max_entry_count limits \<and>
     length (cd_offsets cd) \<le> isize_max div 8 \<and> cd_meta_within flags limits (cd_metadata cd)"

section \<open>Fields\<close>

interpretation pinfo: field_codec read_partition_info pinfo_enc "\<lambda>_. True"
proof
  show "read_partition_info c = Inr (v, advance (length (pinfo_enc v)) c)"
    if "cursor_ok c" "rest_of c = pinfo_enc v @ r" for v c r
    unfolding read_partition_info_def
    using that by (cases v) (auto simp: pinfo_enc_def u16.rd_enc rest_of_advance)
  show "True \<and> rest_of c = pinfo_enc v @ rest_of c' \<and> c' = advance (length (pinfo_enc v)) c \<and> in_range c'"
    if "read_partition_info c = Inr (v, c')" "in_range c" for v c c'
    using that unfolding read_partition_info_def
    by (auto simp: pinfo_enc_def bindR_eq_Inr dest!: u16.rd_sound)
qed

interpretation opt_pinfo: field_codec "opt_field b read_partition_info" "opt_enc b pinfo_enc"
  "opt_adm b (\<lambda>_. True)" for b
  by (rule pinfo.opt)

interpretation opt_crc: field_codec "opt_field b read_u32_le" "opt_enc b (le_bytes 4)"
  "opt_adm b (\<lambda>_. True)" for b
  by (rule u32.opt)

interpretation sizes: field_codec "read_many n (read_size flags)" "\<lambda>vs. concat (map (size_enc flags) vs)"
  "\<lambda>vs. length vs = n \<and> list_all (size_adm flags) vs" for n flags
  by (rule size_field.many)

lemma cd_alloc_Inr:
  "n < 2 ^ 32 \<Longrightarrow> check_allocation_bytes limits (of_nat n) = Inr () \<longleftrightarrow>
     n \<le> unat (max_in_memory_buffer limits) \<and> n \<le> unat (max_total_pipeline_memory limits)"
  by (auto simp: limit_defs word_less_nat_alt word_le_nat_alt unat_of_nat_u64 not_less bindR_eq_Inr)

interpretation cd_meta: field_codec "parse_cd_metadata flags limits" "cd_meta_enc flags"
  "\<lambda>ts. cd_meta_ok flags ts \<and> cd_meta_within flags limits ts" for flags limits
proof
  show "parse_cd_metadata flags limits c = Inr (ts, advance (length (cd_meta_enc flags ts)) c)"
    if ts: "cd_meta_ok flags ts \<and> cd_meta_within flags limits ts" "cursor_ok c"
      "rest_of c = cd_meta_enc flags ts @ r" for ts c r
  proof (cases "contains flags OPT_PRESENT")
    case True
    let ?bs = "concat (map tlv_wire ts)"
    have l: "length ?bs < 2 ^ 32"
      using ts True by (simp add: cd_meta_ok_def)
    have "read_u32_le c = Inr (of_nat (length ?bs), advance 4 c)"
      using u32.rd_enc [of c "of_nat (length ?bs)" "?bs @ r"] ts True by (simp add: cd_meta_enc_def)
    moreover have "read_bytes (advance 4 c) (length ?bs) = Inr (?bs, advance (length ?bs) (advance 4 c))"
      by (rule read_bytes_append [where r = r]) (use ts True in \<open>auto simp: cd_meta_enc_def rest_of_advance\<close>)
    moreover have "parse_tlvs ?bs limits = Inr ts"
      using ts(1) True l parse_tlvs_iff_write_tlvs [of ?bs limits ts]
      by (simp add: cd_meta_ok_def cd_meta_within_def write_tlvs_eq isize_max_def)
    moreover have "check_allocation_bytes limits (of_nat (length ?bs)) = Inr ()"
      using ts(1) True l by (simp only: cd_alloc_Inr cd_meta_within_def)
    ultimately show ?thesis
      using True l by (simp add: parse_cd_metadata_def cd_meta_enc_def usize_of_word_def unat_of_nat_u32
          usize_max_def word_of_usize_def)
  next
    case False
    with ts(1) show ?thesis
      by (simp add: parse_cd_metadata_def cd_meta_enc_def cd_meta_ok_def)
  qed
  show "(cd_meta_ok flags ts \<and> cd_meta_within flags limits ts) \<and>
      rest_of c = cd_meta_enc flags ts @ rest_of c' \<and> c' = advance (length (cd_meta_enc flags ts)) c \<and> in_range c'"
    if "parse_cd_metadata flags limits c = Inr (ts, c')" "in_range c" for ts c c'
  proof (cases "contains flags OPT_PRESENT")
    case True
    with that(1) obtain n :: u32 and c1 bs where r: "read_u32_le c = Inr (n, c1)"
      "check_allocation_bytes limits (of_nat (unat n)) = Inr ()" "read_bytes c1 (unat n) = Inr (bs, c')"
      "parse_tlvs bs limits = Inr ts"
      by (auto simp: parse_cd_metadata_def bindR_eq_Inr usize_of_word_def word_of_usize_def split: if_splits)
    note 1 = u32.rd_sound [OF r(1) that(2)]
    note 2 = read_bytes_sound [OF r(3)]
    have "length bs < 2 ^ 32"
      using 2 by simp
    then have "write_tlvs ts = Inr bs \<and> length ts \<le> max_tlv_count limits \<and>
        list_all (\<lambda>t. length (tlv_value t) \<le> max_tlv_bytes limits) ts"
      using r(4) by (subst (asm) parse_tlvs_iff_write_tlvs) (simp_all add: isize_max_def)
    moreover have "length bs \<le> unat (max_in_memory_buffer limits) \<and>
        length bs \<le> unat (max_total_pipeline_memory limits)"
      using r(2) 2(1) \<open>length bs < 2 ^ 32\<close> by (simp only: cd_alloc_Inr)
    ultimately show ?thesis
      using True 1 2 \<open>length bs < 2 ^ 32\<close>
      by (clarsimp simp: cd_meta_ok_def cd_meta_within_def cd_meta_enc_def write_tlvs_eq)
  next
    case False
    with that show ?thesis
      by (simp add: parse_cd_metadata_def cd_meta_enc_def cd_meta_ok_def cd_meta_within_def)
  qed
qed

section \<open>Parsing and writing\<close>

lemma reserved_zero: "length bs = n \<Longrightarrow> \<not> list_ex (\<lambda>b. b \<noteq> 0) bs \<longleftrightarrow> bs = replicate n 0"
  by (induction bs arbitrary: n) auto

lemma parse_cd_sound:
  assumes "parse_central_dictionary inp flags limits = Inr (cd, n)"
  shows "cd_ok flags cd \<and> cd_within flags limits cd \<and> length inp < 2 ^ 64 \<and>
    length inp \<le> unat (max_cd_bytes limits) \<and>
    n = length (cd_wire flags cd) \<and> n \<le> length inp \<and> take n inp = cd_wire flags cd"
  using parsed_new [OF assms, of inp] unfolding parse_central_dictionary_def Let_def
  apply -
  apply (elim raw.unstep u8.unstep size_field.unstep opt_pinfo.unstep opt_crc.unstep cd_meta.unstep
      sizes.unstep bind_unstep guard_unstep parsed_done)
  subgoal premises p for len _ version c1 reserved c2 fc c3 pinfo c4 crc c5 meta c6 fcu _ offsets c7
  proof -
    have r: "reserved = replicate 7 0"
      using p by (simp add: reserved_zero [symmetric])
    have fcu: "fcu = unat fc"
      using p by (simp add: usize_of_word_def split: if_splits)
    have lim: "length inp < 2 ^ 64 \<and> length inp \<le> unat (max_cd_bytes limits) \<and> fcu \<le> max_entry_count limits"
      using p by (auto simp: word_of_usize_def limit_defs not_less word_le_nat_alt unat_of_nat_u64 split: if_splits)
    have "cd_ok flags cd \<and> cd_within flags limits cd"
      using p fcu lim by (auto simp: cd_ok_def cd_within_def)
    moreover have "consumed inp (cd_wire flags cd) c7"
      using p r by (auto simp: cd_wire_def)
    ultimately show ?thesis
      using p lim consumed_take [of inp "cd_wire flags cd" c7] by auto
  qed
  done

lemma parse_cd_complete:
  assumes "cd_ok flags cd" "cd_within flags limits cd"
    and "length (cd_wire flags cd @ rest) \<le> isize_max"
    and "length (cd_wire flags cd @ rest) \<le> unat (max_cd_bytes limits)"
  shows "parse_central_dictionary (cd_wire flags cd @ rest) flags limits = Inr (cd, length (cd_wire flags cd))"
proof -
  let ?inp = "cd_wire flags cd @ rest"
  have cur: "ahead (length ?inp) (byte (cd_version cd) @ replicate 7 0 @ size_enc flags (cd_file_count cd) @
     opt_enc (contains flags PARTITIONED_ARCHIVE) pinfo_enc (cd_partition_info cd) @
     opt_enc (contains flags HAS_GLOBAL_CRC32) (le_bytes 4) (cd_global_crc32 cd) @
     cd_meta_enc flags (cd_metadata cd) @ concat (map (size_enc flags) (cd_offsets cd)) @ rest)
     (cursor_new ?inp)"
    using ahead_new [OF assms(3)] by (simp add: cd_wire_def)
  have len: "length ?inp < 2 ^ 64"
    using assms(3) by (simp add: isize_max_def)
  have "unat (of_nat (length ?inp) :: u64) = length ?inp"
    using len by (simp add: unat_of_nat_u64 del: length_append of_nat_add)
  then have lim: "check_cd_bytes limits (of_nat (length ?inp)) = Inr ()"
    using assms(4) unfolding check_cd_bytes_def word_less_nat_alt by (metis not_less)
  have cd: "cd_version cd = SUPPORTED_CD_VERSION" "size_adm flags (cd_file_count cd)"
    "opt_adm (contains flags PARTITIONED_ARCHIVE) (\<lambda>_. True) (cd_partition_info cd)"
    "opt_adm (contains flags HAS_GLOBAL_CRC32) (\<lambda>_. True) (cd_global_crc32 cd)"
    "cd_meta_ok flags (cd_metadata cd)" "cd_meta_within flags limits (cd_metadata cd)"
    "length (cd_offsets cd) = unat (cd_file_count cd)" "list_all (size_adm flags) (cd_offsets cd)"
    "unat (cd_file_count cd) \<le> max_entry_count limits" "unat (cd_file_count cd) \<le> isize_max div 8"
    using assms(1,2) by (auto simp: cd_ok_def cd_within_def)
  have usz: "usize_of_word (cd_file_count cd) = Some (unat (cd_file_count cd))"
    using cd(10) by (simp add: usize_of_word_def usize_max_def isize_max_def)
  show ?thesis
    unfolding parse_central_dictionary_def Let_def
    using cur
    apply -
    apply (rule bind_step [where x = "of_nat (length ?inp)"], use len in \<open>simp add: word_of_usize_def\<close>)
    apply (rule bind_step [OF lim])
    apply (erule u8.step, simp)
    apply (rule guard_step, simp add: cd)
    apply (erule raw.step, simp)
    apply (rule guard_step, simp add: list_ex_iff)
    apply (erule size_field.step, simp add: cd)
    apply (erule opt_pinfo.step, simp add: cd)
    apply (erule opt_crc.step, simp add: cd)
    apply (erule cd_meta.step, simp add: cd)
    apply (rule bind_step [where x = "unat (cd_file_count cd)"], simp add: usz)
    apply (rule bind_step [where x = "()"], use cd(9) in \<open>simp add: limit_defs\<close>)
    apply (rule guard_step, use cd(10) in simp)
    apply (erule sizes.step, simp add: cd)
    apply (auto dest: ahead_position)
    done
qed

lemma foldR_write_size:
  "foldR (\<lambda>offset writer. write_size writer flags offset) vs w = Inr w' \<longleftrightarrow>
     list_all (size_adm flags) vs \<and> w' = write_bytes w (concat (map (size_enc flags) vs))"
  by (induction vs arbitrary: w) (auto simp: bindR_eq_Inr write_size_Inr write_bytes_def)

lemma write_cd_metadata_Inr:
  "write_cd_metadata flags ts w = Inr w' \<longleftrightarrow>
     (contains flags OPT_PRESENT \<longrightarrow> cd_meta_ok flags ts) \<and> w' = write_bytes w (cd_meta_enc flags ts)"
  by (auto simp: write_cd_metadata_def cd_meta_ok_def cd_meta_enc_def bindR_eq_Inr write_tlvs_eq
      word_of_usize_def write_bytes_def write_u32_le_def Let_def)

lemma write_cd_Inr:
  "write_central_dictionary cd flags = Inr bs \<longleftrightarrow>
     size_adm flags (cd_file_count cd) \<and>
     (contains flags PARTITIONED_ARCHIVE \<longrightarrow> cd_partition_info cd \<noteq> None) \<and>
     (contains flags HAS_GLOBAL_CRC32 \<longrightarrow> cd_global_crc32 cd \<noteq> None) \<and>
     (contains flags OPT_PRESENT \<longrightarrow> cd_meta_ok flags (cd_metadata cd)) \<and>
     length (cd_offsets cd) = unat (cd_file_count cd) \<and> list_all (size_adm flags) (cd_offsets cd) \<and>
     bs = cd_wire flags cd"
proof -
  have usz: "usize_of_word (cd_file_count cd) = Some (unat (cd_file_count cd))"
    using unat_u64_less [of "cd_file_count cd"] by (simp add: usize_of_word_def usize_max_def del: unat_u64_less)
  show ?thesis
    by (auto simp: write_central_dictionary_def Let_def bindR_eq_Inr write_size_Inr foldR_write_size usz
        write_cd_metadata_Inr cd_wire_def writer_simps byte_def opt_enc_def pinfo_enc_def
        split: if_splits option.splits prod.splits)
qed

section \<open>Properties\<close>

text \<open>
  (C15) Round trip of the Central Dictionary.  What \<^verbatim>\<open>write_central_dictionary\<close> produces for a
  dictionary with the supported version and no field beyond those its flags declare is read back
  by \<^verbatim>\<open>parse_central_dictionary\<close> unchanged, when the dictionary is within the limits.
\<close>

lemma cd_write_parse:
  assumes "write_central_dictionary cd flags = Inr bs" "cd_version cd = SUPPORTED_CD_VERSION"
    and "cd_partition_info cd \<noteq> None \<longrightarrow> contains flags PARTITIONED_ARCHIVE"
    and "cd_global_crc32 cd \<noteq> None \<longrightarrow> contains flags HAS_GLOBAL_CRC32"
    and "cd_metadata cd \<noteq> [] \<longrightarrow> contains flags OPT_PRESENT"
    and "cd_within flags limits cd" "length (bs @ rest) \<le> isize_max"
    and "length (bs @ rest) \<le> unat (max_cd_bytes limits)"
  shows "parse_central_dictionary (bs @ rest) flags limits = Inr (cd, length bs)"
proof -
  have "cd_ok flags cd" "bs = cd_wire flags cd"
    using assms(1-5) by (cases "cd_partition_info cd", auto simp: write_cd_Inr cd_ok_def opt_adm_def cd_meta_ok_def)
  with parse_cd_complete [of flags cd limits rest] assms(6-8) show ?thesis
    by simp
qed

definition sample_cd :: CentralDictionary where
  "sample_cd = \<lparr> cd_version = 1, cd_file_count = 2, cd_partition_info = None,
     cd_global_crc32 = Some 0x01020304, cd_metadata = [\<lparr> tlv_type_id = 0x40, tlv_value = [7] \<rparr>],
     cd_offsets = [0x10, 0x20] \<rparr>"

definition sample_cd_bytes :: bytes where
  "sample_cd_bytes = [1, 0, 0, 0, 0, 0, 0, 0, 2, 0, 0, 0, 4, 3, 2, 1,
     8, 0, 0, 0, 0x40, 1, 0, 0, 0, 7, 0, 0, 0x10, 0, 0, 0, 0x20, 0, 0, 0]"

lemma write_sample_cd:
  "write_central_dictionary sample_cd (OPT_PRESENT OR HAS_GLOBAL_CRC32) = Inr sample_cd_bytes"
  by (simp add: write_cd_Inr sample_cd_def sample_cd_bytes_def size_adm_def contains_def flag_defs cd_meta_ok_def
      tlv_ok_def classify_type_def cd_wire_def size_enc_def opt_enc_def cd_meta_enc_def tlv_wire_def byte_def
      tlv_pad_def le_bytes_numeral replicate_numeral)

lemma cd_write_parse_witness:
  "parse_central_dictionary (sample_cd_bytes @ []) (OPT_PRESENT OR HAS_GLOBAL_CRC32) default_limits = Inr (sample_cd, 36)"
proof -
  have "cd_within (OPT_PRESENT OR HAS_GLOBAL_CRC32) default_limits sample_cd"
    by (simp add: cd_within_def cd_meta_within_def sample_cd_def default_limits_def isize_max_def tlv_wire_def
        byte_def tlv_pad_def)
  with cd_write_parse [OF write_sample_cd, of default_limits "[]"] show ?thesis
    by (simp add: sample_cd_def sample_cd_bytes_def SUPPORTED_CD_VERSION_def contains_def flag_defs
        isize_max_def default_limits_def)
qed

text \<open>
  (C16) Soundness of \<^verbatim>\<open>parse_central_dictionary\<close>.  A dictionary that the parser returns lists exactly
  \<^verbatim>\<open>file_count\<close> offsets, is within the configured limits, and is written back as exactly the
  bytes that were consumed.
\<close>

lemma cd_parse_write:
  assumes "parse_central_dictionary inp flags limits = Inr (cd, n)"
  shows "write_central_dictionary cd flags = Inr (take n inp) \<and> n \<le> length inp \<and>
    length (cd_offsets cd) = unat (cd_file_count cd) \<and> length (cd_offsets cd) \<le> max_entry_count limits \<and>
    length (cd_metadata cd) \<le> max_tlv_count limits \<and> length inp \<le> unat (max_cd_bytes limits)"
  using parse_cd_sound [OF assms]
  by (auto simp: write_cd_Inr cd_ok_def cd_within_def cd_meta_within_def cd_meta_ok_def opt_adm_def split: if_splits)

lemma cd_parse_write_witness:
  "parse_central_dictionary sample_cd_bytes (OPT_PRESENT OR HAS_GLOBAL_CRC32) default_limits = Inr (sample_cd, 36) \<and>
   write_central_dictionary sample_cd (OPT_PRESENT OR HAS_GLOBAL_CRC32) = Inr (take 36 sample_cd_bytes)"
proof -
  let ?flags = "OPT_PRESENT OR HAS_GLOBAL_CRC32"
  have "cd_within ?flags default_limits sample_cd" "cd_ok ?flags sample_cd" "sample_cd_bytes = cd_wire ?flags sample_cd"
    using write_sample_cd
    by (simp_all add: write_cd_Inr cd_ok_def sample_cd_def cd_within_def cd_meta_within_def default_limits_def
        isize_max_def tlv_wire_def byte_def tlv_pad_def contains_def flag_defs opt_adm_def cd_meta_ok_def
        SUPPORTED_CD_VERSION_def)
  moreover have "length sample_cd_bytes = 36" "unat (max_cd_bytes default_limits) = 268435456"
    by (simp_all add: sample_cd_bytes_def default_limits_def)
  ultimately have p: "parse_central_dictionary sample_cd_bytes ?flags default_limits = Inr (sample_cd, length sample_cd_bytes)"
    using parse_cd_complete [of ?flags sample_cd default_limits "[]"]
    by (simp add: isize_max_def)
  have "length sample_cd_bytes = 36"
    by (simp add: sample_cd_bytes_def)
  with cd_parse_write [OF p] p show ?thesis
    by simp
qed

text \<open>
  (C40) Footer round trip: the eight footer bytes at the end of an archive determine the dictionary
  offset and are determined by it, and anything shorter is rejected.
\<close>

lemma footer_roundtrip:
  "parse_footer (write_footer f @ rest) = Inr f \<and>
   (parse_footer bs = Inr f \<longleftrightarrow> 8 \<le> length bs \<and> take 8 bs = write_footer f)"
proof -
  have *: "parse_footer bs = Inr f \<longleftrightarrow> 8 \<le> length bs \<and> take 8 bs = write_footer f" for bs
  proof (cases "8 \<le> length bs")
    case True
    then have "le_bytes 8 (from_le (take 8 bs) :: u64) = take 8 bs"
      using le_bytes_from_le [of "take 8 bs", where 'a = 64] by simp
    then show ?thesis
      using True u64.rd_enc [of "cursor_new (take 8 bs)" "from_le (take 8 bs)" "[]"]
      by (cases f) (auto simp: parse_footer_def write_footer_def Let_def isize_max_def from_le_le_bytes)
  qed (simp add: parse_footer_def)
  then show ?thesis
    by (simp add: write_footer_def)
qed

end
