(* ===== verification/Sar_Sparse.thy ===== *)
theory Sar_Sparse
  imports Sar_Limits Sar_Table
begin

text \<open>
  Sparse files: the extents of \<^verbatim>\<open>crates/sar-sparse/src/lib.rs\<close> with their validation and the
  scatter of a flat payload over a zero-filled file, and the wire form of the extent list in
  \<^verbatim>\<open>crates/sar-core/src/sparse.rs\<close>.  The lemmas show which extent lists are accepted, that the
  reconstructed file is the only one that agrees with payload and holes, and that the wire form
  is read back.
\<close>

section \<open>Extents\<close>

datatype SparseError = InvalidMap | Overflow | Truncated | LimitExceeded

primrec SarError_from_SparseError :: "SparseError \<Rightarrow> SarError" where
  "SarError_from_SparseError SparseError.InvalidMap = SarError.InvalidMap"
| "SarError_from_SparseError SparseError.Overflow = SarError.Overflow"
| "SarError_from_SparseError SparseError.Truncated = SarError.Truncated"
| "SarError_from_SparseError SparseError.LimitExceeded = SarError.LimitExceeded"

record SparseLimits =
  sl_max_sparse_map_bytes :: nat
  sl_max_sparse_descriptors :: nat
  sl_max_decoded_entry_size :: u64
  sl_max_allocation_bytes :: u64

definition SparseLimits_unlimited :: SparseLimits where
  "SparseLimits_unlimited = \<lparr>
     sl_max_sparse_map_bytes = usize_max,
     sl_max_sparse_descriptors = usize_max,
     sl_max_decoded_entry_size = u64_max,
     sl_max_allocation_bytes = u64_max \<rparr>"

definition sparse_limits :: "ResourceLimits \<Rightarrow> SparseLimits" where
  "sparse_limits limits = \<lparr>
     sl_max_sparse_map_bytes = max_sparse_map_bytes limits,
     sl_max_sparse_descriptors = max_sparse_descriptors limits,
     sl_max_decoded_entry_size = max_decoded_entry_size limits,
     sl_max_allocation_bytes = min (max_in_memory_buffer limits) (max_total_pipeline_memory limits) \<rparr>"

definition sl_check_sparse_descriptor_count :: "SparseLimits \<Rightarrow> nat \<Rightarrow> SparseError + unit" where
  "sl_check_sparse_descriptor_count limits count =
     (if count > sl_max_sparse_descriptors limits then Inl SparseError.LimitExceeded else Inr ())"

definition sl_check_decoded_entry_size :: "SparseLimits \<Rightarrow> u64 \<Rightarrow> SparseError + unit" where
  "sl_check_decoded_entry_size limits bytes =
     (if bytes > sl_max_decoded_entry_size limits then Inl SparseError.LimitExceeded else Inr ())"

definition sl_allocation_len :: "SparseLimits \<Rightarrow> u64 \<Rightarrow> SparseError + nat" where
  "sl_allocation_len limits bytes =
     (if bytes > sl_max_allocation_bytes limits then Inl SparseError.LimitExceeded else
      bindR (ok_or (usize_of_word bytes) SparseError.Overflow) (\<lambda>len.
      if len > isize_max then Inl SparseError.Overflow else Inr len))"

record SparseExtent =
  ext_offset :: u64
  ext_length :: u64

text \<open>One iteration of the validation loop; the state is \<^verbatim>\<open>(last_end, total_length)\<close>.\<close>

definition validate_extent :: "u64 \<Rightarrow> SparseExtent \<Rightarrow> u64 \<times> u64 \<Rightarrow> SparseError + (u64 \<times> u64)" where
  "validate_extent logical_size extent st =
     (case st of (last_end, total_length) \<Rightarrow>
      if ext_length extent = 0 then Inl SparseError.InvalidMap else
      bindR (ok_or (checked_add_word (ext_offset extent) (ext_length extent)) SparseError.Overflow) (\<lambda>end_pos.
      if end_pos > logical_size then Inl SparseError.InvalidMap else
      if ext_offset extent < last_end then Inl SparseError.InvalidMap else
      bindR (ok_or (checked_add_word total_length (ext_length extent)) SparseError.Overflow) (\<lambda>total_length.
      Inr (end_pos, total_length))))"

definition validate_sparse_extents ::
  "SparseExtent list \<Rightarrow> u64 \<Rightarrow> SparseLimits \<Rightarrow> SparseError + unit" where
  "validate_sparse_extents extents logical_size limits =
     bindR (sl_check_sparse_descriptor_count limits (length extents)) (\<lambda>_.
     bindR (foldR (validate_extent logical_size) extents (0, 0)) (\<lambda>_. Inr ()))"

text \<open>One iteration of the scatter loop; the state is \<^verbatim>\<open>(output, payload_pos)\<close>.\<close>

definition scatter_extent ::
  "bytes \<Rightarrow> u64 \<Rightarrow> SparseExtent \<Rightarrow> bytes \<times> nat \<Rightarrow> SparseError + (bytes \<times> nat)" where
  "scatter_extent payload logical_size extent st =
     (case st of (output, payload_pos) \<Rightarrow>
      bindR (ok_or (checked_add_word (ext_offset extent) (ext_length extent)) SparseError.Overflow) (\<lambda>end_pos.
      if end_pos > logical_size then Inl SparseError.InvalidMap else
      bindR (ok_or (usize_of_word (ext_offset extent)) SparseError.Overflow) (\<lambda>dst_start.
      bindR (ok_or (usize_of_word (ext_length extent)) SparseError.Overflow) (\<lambda>len.
      bindR (ok_or (checked_add_usize dst_start len) SparseError.Overflow) (\<lambda>dst_end.
      bindR (ok_or (checked_add_usize payload_pos len) SparseError.Overflow) (\<lambda>src_end.
      if src_end > length payload then Inl SparseError.Truncated else
      Inr (copy_into output dst_start (slice payload payload_pos len), src_end)))))))"

definition apply_sparse_reconstruction ::
  "bytes \<Rightarrow> SparseExtent list \<Rightarrow> u64 \<Rightarrow> SparseLimits \<Rightarrow> SparseError + bytes" where
  "apply_sparse_reconstruction payload extents logical_size limits =
     bindR (sl_check_decoded_entry_size limits logical_size) (\<lambda>_.
     bindR (sl_allocation_len limits logical_size) (\<lambda>logical_size_usize.
     bindR (validate_sparse_extents extents logical_size limits) (\<lambda>_.
     let output = replicate logical_size_usize 0 in
     bindR (foldR (scatter_extent payload logical_size) extents (output, 0)) (\<lambda>(output, payload_pos).
     if payload_pos \<noteq> length payload then Inl SparseError.InvalidMap else Inr output))))"

section \<open>Wire form\<close>

text \<open>The entry at \<^verbatim>\<open>pos\<close>, one iteration of the parse loop.\<close>

definition parse_sparse_entry :: "bytes \<Rightarrow> bool \<Rightarrow> nat \<Rightarrow> SparseExtent" where
  "parse_sparse_entry bytes is_64bit pos =
     (if is_64bit then
        \<lparr> ext_offset = from_le (slice bytes pos 8),
          ext_length = from_le (slice bytes (pos + 8) 8) \<rparr>
      else
        \<lparr> ext_offset = ucast (from_le (slice bytes pos 4) :: u32),
          ext_length = ucast (from_le (slice bytes (pos + 4) 4) :: u32) \<rparr>)"

definition parse_sparse_map :: "bytes \<Rightarrow> bool \<Rightarrow> ResourceLimits \<Rightarrow> SarError + SparseExtent list" where
  "parse_sparse_map bytes is_64bit limits =
     bindR (check_sparse_map_bytes limits (length bytes)) (\<lambda>_.
     let entry_size = (if is_64bit then 16 else 8) in
     if length bytes mod entry_size \<noteq> 0 then Inl SarError.InvalidLength else
     let count = length bytes div entry_size in
     bindR (check_sparse_descriptor_count limits count) (\<lambda>_.
     if count > isize_max div 16 then Inl SarError.Overflow else
     Inr (map (\<lambda>i. parse_sparse_entry bytes is_64bit (i * entry_size)) [0..<count])))"

definition write_sparse_entry :: "bool \<Rightarrow> SparseExtent \<Rightarrow> bytes \<Rightarrow> SarError + bytes" where
  "write_sparse_entry is_64bit extent bytes =
     (if is_64bit then
        Inr (bytes @ le_bytes 8 (ext_offset extent) @ le_bytes 8 (ext_length extent))
      else
        bindR (ok_or (narrow_word (ext_offset extent)) SarError.Overflow) (\<lambda>(offset32 :: u32).
        bindR (ok_or (narrow_word (ext_length extent)) SarError.Overflow) (\<lambda>(length32 :: u32).
        Inr (bytes @ le_bytes 4 offset32 @ le_bytes 4 length32))))"

definition write_sparse_map :: "SparseExtent list \<Rightarrow> bool \<Rightarrow> SarError + bytes" where
  "write_sparse_map extents is_64bit = foldR (write_sparse_entry is_64bit) extents []"

section \<open>Which extents are accepted\<close>

definition ext_end :: "SparseExtent \<Rightarrow> nat" where
  "ext_end e = unat (ext_offset e) + unat (ext_length e)"

text \<open>Non-empty extents inside a file of \<open>n\<close> bytes, in ascending order and disjoint.\<close>

definition extents_valid :: "nat \<Rightarrow> SparseExtent list \<Rightarrow> bool" where
  "extents_valid n es \<longleftrightarrow> list_all (\<lambda>e. ext_length e \<noteq> 0 \<and> ext_end e \<le> n) es \<and>
     sorted_wrt (\<lambda>a b. ext_end a \<le> unat (ext_offset b)) es"

lemma extents_valid_Cons:
  "extents_valid n (e # es) \<longleftrightarrow> ext_length e \<noteq> 0 \<and> ext_end e \<le> n \<and> extents_valid n es \<and>
     list_all (\<lambda>f. ext_end e \<le> unat (ext_offset f)) es"
  by (auto simp: extents_valid_def list_all_iff)

lemma ext_end_fits: "ext_end e \<le> unat (L :: u64) \<Longrightarrow> ext_end e < 2 ^ 64"
  using unat_lt2p [of L] by (simp del: unat_u64_less)

lemma unat_ext_end: "ext_end e < 2 ^ 64 \<Longrightarrow> unat (ext_offset e + ext_length e) = ext_end e"
  using unat_add_lem [of "ext_offset e" "ext_length e"] by (simp add: ext_end_def)

lemma validate_extent_Inr:
  assumes "unat ttl \<le> unat lst"
  shows "validate_extent L e (lst, ttl) = Inr st \<longleftrightarrow>
    ext_length e \<noteq> 0 \<and> ext_end e \<le> unat L \<and> unat lst \<le> unat (ext_offset e) \<and>
    st = (ext_offset e + ext_length e, ttl + ext_length e)"
proof -
  note fit = ext_end_fits [of e L]
  have add: "checked_add_word (ext_offset e) (ext_length e) = Some v \<longleftrightarrow>
      v = ext_offset e + ext_length e \<and> ext_end e < 2 ^ 64" for v
    by (auto simp: checked_add_word_def ext_end_def)
  have tot: "checked_add_word ttl (ext_length e) = Some (ttl + ext_length e)"
    if "ext_end e < 2 ^ 64" "unat lst \<le> unat (ext_offset e)"
    using that assms by (simp add: checked_add_word_def ext_end_def)
  show ?thesis
    using fit
    by (auto simp: validate_extent_def bindR_eq_Inr add tot unat_ext_end word_less_nat_alt not_less split: if_splits)
qed

lemma foldR_validate_extent:
  assumes "unat ttl \<le> unat lst"
  shows "(\<exists>st. foldR (validate_extent L) es (lst, ttl) = Inr st) \<longleftrightarrow>
    extents_valid (unat L) es \<and> list_all (\<lambda>e. unat lst \<le> unat (ext_offset e)) es"
  using assms
proof (induction es arbitrary: lst ttl)
  case (Cons e es)
  show ?case
  proof (cases "ext_length e \<noteq> 0 \<and> ext_end e \<le> unat L \<and> unat lst \<le> unat (ext_offset e)")
    case True
    then have step: "validate_extent L e (lst, ttl) = Inr (ext_offset e + ext_length e, ttl + ext_length e)"
      using Cons.prems by (simp add: validate_extent_Inr)
    have "ext_end e < 2 ^ 64"
      using True by (blast intro: ext_end_fits)
    note u = unat_ext_end [OF this]
    have "unat (ttl + ext_length e) \<le> unat (ext_offset e + ext_length e)"
      using Cons.prems True unat_add_lem [of ttl "ext_length e"] \<open>ext_end e < 2 ^ 64\<close>
      unfolding u by (simp add: ext_end_def)
    note ih = Cons.IH [OF this]
    have "list_all (\<lambda>f. unat lst \<le> unat (ext_offset f)) es"
      if "list_all (\<lambda>f. ext_end e \<le> unat (ext_offset f)) es"
      using that True by (auto simp: list_all_iff ext_end_def)
    with True ih step u show ?thesis
      by (auto simp: extents_valid_Cons)
  next
    case False
    then show ?thesis
      using Cons.prems by (auto simp: bindR_eq_Inr validate_extent_Inr extents_valid_Cons)
  qed
qed (simp add: extents_valid_def)

lemma validate_sparse_extents_Inr:
  "validate_sparse_extents es L limits = Inr () \<longleftrightarrow>
     length es \<le> sl_max_sparse_descriptors limits \<and> extents_valid (unat L) es"
  using foldR_validate_extent [of 0 0 L es]
  by (auto simp: validate_sparse_extents_def sl_check_sparse_descriptor_count_def bindR_eq_Inr list_all_iff)

section \<open>Reconstruction\<close>

primrec total_length :: "SparseExtent list \<Rightarrow> nat" where
  "total_length [] = 0"
| "total_length (e # es) = unat (ext_length e) + total_length es"

text \<open>The data extents of a file, one after the other, and the positions they cover.\<close>

definition gather :: "bytes \<Rightarrow> SparseExtent list \<Rightarrow> bytes" where
  "gather file es = concat (map (\<lambda>e. slice file (unat (ext_offset e)) (unat (ext_length e))) es)"

definition covered :: "SparseExtent list \<Rightarrow> nat \<Rightarrow> bool" where
  "covered es q \<longleftrightarrow> list_ex (\<lambda>e. unat (ext_offset e) \<le> q \<and> q < ext_end e) es"

primrec scatter :: "bytes \<Rightarrow> bytes \<Rightarrow> SparseExtent list \<Rightarrow> bytes" where
  "scatter out data [] = out"
| "scatter out data (e # es) =
     scatter (copy_into out (unat (ext_offset e)) (take (unat (ext_length e)) data)) (drop (unat (ext_length e)) data) es"

lemma foldR_scatter_extent:
  assumes "extents_valid (unat L) es" "pos \<le> length payload" "length payload \<le> isize_max"
    "unat L \<le> isize_max"
  shows "foldR (scatter_extent payload L) es (out, pos) =
    (if pos + total_length es \<le> length payload
     then Inr (scatter out (drop pos payload) es, pos + total_length es)
     else Inl SparseError.Truncated)"
  using assms
proof (induction es arbitrary: out pos)
  case (Cons e es)
  let ?l = "unat (ext_length e)"
  have e: "ext_end e \<le> unat L" "extents_valid (unat L) es"
    using Cons.prems by (simp_all add: extents_valid_Cons)
  have fit: "ext_end e < 2 ^ 64"
    using e(1) by (rule ext_end_fits)
  then have add: "checked_add_word (ext_offset e) (ext_length e) = Some (ext_offset e + ext_length e)"
    by (simp add: ext_end_def checked_add_word_def)
  have usz: "checked_add_usize (unat (ext_offset e)) ?l = Some (ext_end e)"
    "checked_add_usize pos ?l = (if pos + ?l \<le> usize_max then Some (pos + ?l) else None)"
    using fit by (simp_all add: ext_end_def usize_max_def checked_add_usize_def)
  have pos: "pos + ?l \<le> usize_max"
    using Cons.prems(2-4) e(1) by (simp add: ext_end_def isize_max_def usize_max_def)
  have step: "scatter_extent payload L e (out, pos) =
      (if pos + ?l \<le> length payload
       then Inr (copy_into out (unat (ext_offset e)) (take ?l (drop pos payload)), pos + ?l)
       else Inl SparseError.Truncated)"
    using e(1) pos by (simp add: scatter_extent_def add unat_ext_end [OF fit] usz word_less_nat_alt slice_def)
  show ?case
  proof (cases "pos + ?l \<le> length payload")
    case True
    then show ?thesis
      using Cons.IH [OF e(2) True Cons.prems(3,4)] step by (simp add: add.assoc add.commute [of pos])
  qed (simp add: step)
qed simp

lemma extents_valid_end: "extents_valid n es \<Longrightarrow> e \<in> set es \<Longrightarrow> ext_end e \<le> n"
  by (auto simp: extents_valid_def list_all_iff)

lemma covered_Cons: "covered (e # es) q \<longleftrightarrow> (unat (ext_offset e) \<le> q \<and> q < ext_end e) \<or> covered es q"
  by (simp add: covered_def)

lemma not_covered_below: "list_all (\<lambda>f. m \<le> unat (ext_offset f)) es \<Longrightarrow> q < m \<Longrightarrow> \<not> covered es q"
  by (auto simp: covered_def list_all_iff list_ex_iff)

lemma length_scatter:
  "extents_valid (length out) es \<Longrightarrow> total_length es \<le> length data \<Longrightarrow> length (scatter out data es) = length out"
  by (induction es arbitrary: out data) (auto simp: extents_valid_Cons ext_end_def)

lemma scatter_uncovered:
  "extents_valid (length out) es \<Longrightarrow> total_length es \<le> length data \<Longrightarrow> q < length out \<Longrightarrow> \<not> covered es q \<Longrightarrow>
   scatter out data es ! q = out ! q"
  by (induction es arbitrary: out data) (auto simp: extents_valid_Cons covered_Cons ext_end_def nth_copy_into)

lemma slice_cong:
  assumes "length xs = length ys" "i + n \<le> length xs" "\<And>q. i \<le> q \<Longrightarrow> q < i + n \<Longrightarrow> xs ! q = ys ! q"
  shows "slice xs i n = slice ys i n"
  using assms by (intro nth_equalityI) simp_all

lemma gather_scatter:
  assumes "extents_valid (length out) es" "total_length es \<le> length data"
  shows "gather (scatter out data es) es = take (total_length es) data"
  using assms
proof (induction es arbitrary: out data)
  case (Cons e es)
  let ?o = "unat (ext_offset e)" and ?l = "unat (ext_length e)"
  let ?out = "copy_into out ?o (take ?l data)"
  have e: "?o + ?l \<le> length out" "extents_valid (length out) es" "?l + total_length es \<le> length data"
    "list_all (\<lambda>f. ?o + ?l \<le> unat (ext_offset f)) es"
    using Cons.prems by (simp_all add: extents_valid_Cons ext_end_def)
  have len: "length ?out = length out"
    using e by simp
  have "slice (scatter ?out (drop ?l data) es) ?o ?l = slice ?out ?o ?l"
    using e len
    by (intro slice_cong) (auto simp: length_scatter scatter_uncovered not_covered_below)
  also have "\<dots> = take ?l data"
    using e by simp
  finally show ?case
    using Cons.IH [of ?out "drop ?l data"] e len by (simp add: gather_def take_add)
qed (simp add: gather_def)

lemma length_gather: "extents_valid (length file) es \<Longrightarrow> length (gather file es) = total_length es"
  by (induction es) (auto simp: gather_def extents_valid_Cons ext_end_def)

lemma gather_inj:
  assumes "length f = length g" "extents_valid (length f) es" "gather f es = gather g es" "e \<in> set es"
  shows "slice f (unat (ext_offset e)) (unat (ext_length e)) = slice g (unat (ext_offset e)) (unat (ext_length e))"
  using assms
proof (induction es)
  case (Cons d es)
  have "length (slice f (unat (ext_offset d)) (unat (ext_length d))) =
      length (slice g (unat (ext_offset d)) (unat (ext_length d)))"
    using Cons.prems(1,2) by (simp add: extents_valid_Cons ext_end_def)
  with Cons show ?case
    by (auto simp: gather_def extents_valid_Cons)
qed simp

text \<open>Payload and holes determine the file.\<close>

lemma sparse_file_unique:
  assumes "length f = length g" "extents_valid (length f) es" "gather f es = gather g es"
    and "\<And>q. q < length f \<Longrightarrow> \<not> covered es q \<Longrightarrow> f ! q = g ! q"
  shows "f = g"
proof (rule nth_equalityI)
  fix q assume q: "q < length f"
  show "f ! q = g ! q"
  proof (cases "covered es q")
    case True
    then obtain e where e: "e \<in> set es" "unat (ext_offset e) \<le> q" "q < ext_end e"
      by (auto simp: covered_def list_ex_iff)
    let ?o = "unat (ext_offset e)"
    have "?o + unat (ext_length e) \<le> length f"
      using extents_valid_end [OF assms(2) e(1)] by (simp add: ext_end_def)
    then show ?thesis
      using arg_cong [OF gather_inj [OF assms(1-3) e(1)], of "\<lambda>xs. xs ! (q - ?o)"] e assms(1)
      by (simp add: ext_end_def)
  qed (use assms(4) q in auto)
qed (use assms in simp)

lemma apply_sparse_eq:
  assumes "length payload \<le> isize_max" "L \<le> sl_max_decoded_entry_size limits"
    "L \<le> sl_max_allocation_bytes limits" "unat L \<le> isize_max"
    "length es \<le> sl_max_sparse_descriptors limits" "extents_valid (unat L) es"
  shows "apply_sparse_reconstruction payload es L limits =
    (if total_length es = length payload then Inr (scatter (replicate (unat L) 0) payload es)
     else if total_length es < length payload then Inl SparseError.InvalidMap else Inl SparseError.Truncated)"
  using assms foldR_scatter_extent [of L es 0 payload "replicate (unat L) 0"]
    validate_sparse_extents_Inr [of es L limits]
  by (simp add: apply_sparse_reconstruction_def sl_check_decoded_entry_size_def sl_allocation_len_def not_less)

lemma apply_sparse_checks:
  assumes "apply_sparse_reconstruction payload es L limits = Inr out"
  shows "L \<le> sl_max_decoded_entry_size limits \<and> L \<le> sl_max_allocation_bytes limits \<and> unat L \<le> isize_max \<and>
    length es \<le> sl_max_sparse_descriptors limits \<and> extents_valid (unat L) es"
  using assms validate_sparse_extents_Inr [of es L limits]
  by (auto simp: apply_sparse_reconstruction_def sl_check_decoded_entry_size_def sl_allocation_len_def
      bindR_eq_Inr not_less split: if_splits)

section \<open>The wire form is read back\<close>

definition ext_size :: "bool \<Rightarrow> nat" where
  "ext_size b = (if b then 16 else 8)"

definition ext_wire :: "bool \<Rightarrow> SparseExtent \<Rightarrow> bytes" where
  "ext_wire b e = (if b then le_bytes 8 (ext_offset e) @ le_bytes 8 (ext_length e)
     else le_bytes 4 (ucast (ext_offset e) :: u32) @ le_bytes 4 (ucast (ext_length e) :: u32))"

definition ext_fits :: "bool \<Rightarrow> SparseExtent \<Rightarrow> bool" where
  "ext_fits b e \<longleftrightarrow> b \<or> unat (ext_offset e) < 2 ^ 32 \<and> unat (ext_length e) < 2 ^ 32"

lemma length_ext_wire [simp]: "length (ext_wire b e) = ext_size b"
  by (simp add: ext_wire_def ext_size_def)

lemma write_sparse_map_Inr:
  "write_sparse_map es b = Inr bs \<longleftrightarrow> list_all (ext_fits b) es \<and> bs = concat (map (ext_wire b) es)"
proof -
  have "foldR (write_sparse_entry b) es acc = Inr bs \<longleftrightarrow>
      list_all (ext_fits b) es \<and> bs = acc @ concat (map (ext_wire b) es)" for acc
    by (induction es arbitrary: acc)
      (auto simp: write_sparse_entry_def ext_fits_def ext_wire_def bindR_eq_Inr narrow_word_def)
  then show ?thesis
    by (simp add: write_sparse_map_def)
qed

lemma parse_entry_slice:
  "pos + ext_size b \<le> length bs \<Longrightarrow>
   parse_sparse_entry bs b pos = parse_sparse_entry (slice bs pos (ext_size b)) b 0"
  by (simp add: parse_sparse_entry_def ext_size_def slice_def drop_take add.commute)

lemma parse_ext_wire: "ext_fits b e \<Longrightarrow> parse_sparse_entry (ext_wire b e) b 0 = e"
proof -
  have "(ucast (ucast v :: u32) :: u64) = v" if "unat v < 2 ^ 32" for v :: u64
    using that by (intro unat_eqI) (simp add: unsigned_ucast_eq unsigned_take_bit_eq take_bit_nat_eq_self)
  then show "ext_fits b e \<Longrightarrow> parse_sparse_entry (ext_wire b e) b 0 = e"
    by (cases b) (simp_all add: parse_sparse_entry_def ext_wire_def ext_fits_def slice_def from_le_le_bytes)
qed

lemma le_bytes_from_le_n: "length bs = n \<Longrightarrow> 8 * n \<le> LENGTH('a) \<Longrightarrow> le_bytes n (from_le bs :: 'a::len word) = bs"
  using le_bytes_from_le [of bs, where 'a = 'a] by simp

lemma wire_parse_entry:
  assumes "length bs = ext_size b"
  shows "ext_wire b (parse_sparse_entry bs b 0) = bs \<and> ext_fits b (parse_sparse_entry bs b 0)"
proof -
  have down: "ucast (ucast (w :: u32) :: u64) = w" for w
    by (intro bit_word_eqI) (auto simp: bit_ucast_iff)
  have split: "slice bs 0 n @ slice bs n n = bs" if "length bs = n + n" for n
    using that by (simp add: slice_def)
  show ?thesis
    using assms split [of 8] split [of 4]
    by (cases b) (simp_all add: ext_wire_def parse_sparse_entry_def ext_size_def ext_fits_def
        le_bytes_from_le_n down unat_ucast_up)
qed

interpretation sparse_table: record_table "ext_size b" "\<lambda>bs. parse_sparse_entry bs b 0" "ext_wire b" "ext_fits b" for b
  using wire_parse_entry by unfold_locales (auto simp: ext_size_def parse_ext_wire)

lemma parse_entries_slices:
  assumes "length bs = n * ext_size b"
  shows "map (\<lambda>i. parse_sparse_entry bs b (i * ext_size b)) [0..<n] =
    map (\<lambda>i. parse_sparse_entry (slice bs (i * ext_size b) (ext_size b)) b 0) [0..<n]"
  using block_within [OF assms] by (intro map_cong refl parse_entry_slice) simp_all

lemma parse_sparse_map_Inr:
  "parse_sparse_map bs b limits = Inr es \<longleftrightarrow>
     list_all (ext_fits b) es \<and> bs = concat (map (ext_wire b) es) \<and>
     length bs \<le> max_sparse_map_bytes limits \<and> length es \<le> max_sparse_descriptors limits \<and>
     length es \<le> isize_max div 16"
proof -
  let ?k = "ext_size b" and ?n = "length bs div ext_size b"
  let ?es = "map (\<lambda>i. parse_sparse_entry bs b (i * ?k)) [0..<?n]"
  have k: "(if b then 16 else 8) = ?k" "0 < ?k"
    by (simp_all add: ext_size_def)
  have "parse_sparse_map bs b limits = Inr es \<longleftrightarrow> (length bs mod ?k = 0 \<and> es = ?es) \<and>
      length bs \<le> max_sparse_map_bytes limits \<and> ?n \<le> max_sparse_descriptors limits \<and> ?n \<le> isize_max div 16"
    by (auto simp: parse_sparse_map_def Let_def k(1) bindR_eq_Inr limit_defs split: if_splits)
  also have "length bs mod ?k = 0 \<and> es = ?es \<longleftrightarrow>
      length es = ?n \<and> list_all (ext_fits b) es \<and> bs = concat (map (ext_wire b) es)"
    unfolding sparse_table.table_exact [of bs ?n b es, symmetric]
    using mod_eq_0_iff_dvd [of "length bs" ?k] dvd_div_mult_self [of ?k "length bs"]
    by (metis mod_mult_self2_is_0 parse_entries_slices)
  finally show ?thesis
    using sparse_table.length_table [of b es] k(2) by (metis nonzero_mult_div_cancel_right less_not_refl)
qed

section \<open>Properties\<close>

text \<open>
  (C23) What a sparse map may look like.  \<^verbatim>\<open>validate_sparse_extents\<close> accepts a list of extents exactly when
  it respects the descriptor limit and every extent is non-empty, ends inside the logical file,
  and starts behind the end of every extent before it, all computed without wrap-around.
\<close>

lemma sparse_validation_exact:
  "validate_sparse_extents es L limits = Inr () \<longleftrightarrow>
     length es \<le> sl_max_sparse_descriptors limits \<and>
     (\<forall>i < length es. 0 < unat (ext_length (es ! i)) \<and>
        unat (ext_offset (es ! i)) + unat (ext_length (es ! i)) \<le> unat L \<and>
        (\<forall>j < i. unat (ext_offset (es ! j)) + unat (ext_length (es ! j)) \<le> unat (ext_offset (es ! i))))"
proof -
  have pos: "ext_length e \<noteq> 0 \<longleftrightarrow> 0 < unat (ext_length e)" for e
    by (simp add: unat_gt_0)
  show ?thesis
    unfolding validate_sparse_extents_Inr extents_valid_def list_all_length sorted_wrt_iff_nth_less ext_end_def pos
    by blast
qed

definition sample_extents :: "SparseExtent list" where
  "sample_extents = [\<lparr> ext_offset = 1, ext_length = 2 \<rparr>, \<lparr> ext_offset = 4, ext_length = 1 \<rparr>]"

lemma sparse_validation_exact_witness:
  "validate_sparse_extents sample_extents 6 SparseLimits_unlimited = Inr () \<and>
   validate_sparse_extents (rev sample_extents) 6 SparseLimits_unlimited \<noteq> Inr ()"
  unfolding sparse_validation_exact
  by (auto simp: sample_extents_def SparseLimits_unlimited_def usize_max_def less_Suc_eq)

text \<open>
  (C10) Sparse reconstruction is exact.  For a payload that fits in memory,
  \<^verbatim>\<open>apply_sparse_reconstruction\<close> returns a file exactly when the logical size and the extents pass
  their checks, the file has the logical size, its extents read in order are the payload, and
  every byte outside the extents is zero.  In particular the extents and the payload determine
  the file, and a payload that is too short or too long is refused.
\<close>

lemma sparse_reconstruction_exact:
  assumes "length payload \<le> isize_max"
  shows "apply_sparse_reconstruction payload es L limits = Inr out \<longleftrightarrow>
    L \<le> sl_max_decoded_entry_size limits \<and> L \<le> sl_max_allocation_bytes limits \<and> unat L \<le> isize_max \<and>
    validate_sparse_extents es L limits = Inr () \<and> length out = unat L \<and>
    concat (map (\<lambda>e. slice out (unat (ext_offset e)) (unat (ext_length e))) es) = payload \<and>
    (\<forall>q < length out. \<not> (\<exists>e \<in> set es. unat (ext_offset e) \<le> q \<and>
       q < unat (ext_offset e) + unat (ext_length e)) \<longrightarrow> out ! q = 0)"
proof -
  let ?ok = "L \<le> sl_max_decoded_entry_size limits \<and> L \<le> sl_max_allocation_bytes limits \<and> unat L \<le> isize_max \<and>
    length es \<le> sl_max_sparse_descriptors limits \<and> extents_valid (unat L) es"
  let ?zero = "replicate (unat L) 0 :: bytes"
  have "apply_sparse_reconstruction payload es L limits = Inr out \<longleftrightarrow>
      length out = unat L \<and> gather out es = payload \<and> (\<forall>q < length out. \<not> covered es q \<longrightarrow> out ! q = 0)"
    if ok: ?ok
  proof -
    have res: "apply_sparse_reconstruction payload es L limits = Inr out \<longleftrightarrow>
        total_length es = length payload \<and> out = scatter ?zero payload es"
      using apply_sparse_eq [OF assms] ok by auto
    show ?thesis
    proof
      assume "apply_sparse_reconstruction payload es L limits = Inr out"
      with res ok show "length out = unat L \<and> gather out es = payload \<and>
          (\<forall>q < length out. \<not> covered es q \<longrightarrow> out ! q = 0)"
        by (simp add: length_scatter gather_scatter scatter_uncovered)
    next
      assume f: "length out = unat L \<and> gather out es = payload \<and>
          (\<forall>q < length out. \<not> covered es q \<longrightarrow> out ! q = 0)"
      then have t: "total_length es = length payload"
        using length_gather [of out es] ok by simp
      have "out = scatter ?zero payload es"
        using f ok t
        by (intro sparse_file_unique [of out "scatter ?zero payload es" es])
          (simp_all add: length_scatter gather_scatter scatter_uncovered)
      with res t show "apply_sparse_reconstruction payload es L limits = Inr out"
        by simp
    qed
  qed
  moreover have ?ok if "apply_sparse_reconstruction payload es L limits = Inr out"
    using apply_sparse_checks [OF that] .
  ultimately show ?thesis
    unfolding validate_sparse_extents_Inr gather_def covered_def list_ex_iff ext_end_def by blast
qed

lemma sparse_reconstruction_exact_witness:
  "apply_sparse_reconstruction [7, 8, 9] sample_extents 6 SparseLimits_unlimited = Inr [0, 7, 8, 0, 9, 0]"
proof -
  have v: "validate_sparse_extents sample_extents 6 SparseLimits_unlimited = Inr ()"
    by (simp add: validate_sparse_extents_Inr extents_valid_def sample_extents_def SparseLimits_unlimited_def
        usize_max_def ext_end_def)
  have "\<forall>q < length [0, 7, 8, 0, 9, 0 :: u8]. \<not> (\<exists>e \<in> set sample_extents. unat (ext_offset e) \<le> q \<and>
       q < unat (ext_offset e) + unat (ext_length e)) \<longrightarrow> [0, 7, 8, 0, 9, 0 :: u8] ! q = 0"
    by (simp add: sample_extents_def All_less_Suc)
  moreover have "concat (map (\<lambda>e. slice [0, 7, 8, 0, 9, 0 :: u8] (unat (ext_offset e)) (unat (ext_length e))) sample_extents)
      = [7, 8, 9]"
    by (simp add: sample_extents_def slice_def)
  ultimately show ?thesis
    using v by (subst sparse_reconstruction_exact) (simp_all add: isize_max_def SparseLimits_unlimited_def)
qed

text \<open>
  (C24) The sparse map on the wire.  \<^verbatim>\<open>parse_sparse_map\<close> returns a list of extents exactly when
  \<^verbatim>\<open>write_sparse_map\<close> encodes that list as the input and the limits hold, in both the 32-bit and the
  64-bit layout; a 32-bit map never truncates an offset or a length.
\<close>

lemma sparse_map_exact:
  "parse_sparse_map bs b limits = Inr es \<longleftrightarrow>
     write_sparse_map es b = Inr bs \<and> length bs \<le> max_sparse_map_bytes limits \<and>
     length es \<le> max_sparse_descriptors limits \<and> length es \<le> isize_max div 16"
  unfolding parse_sparse_map_Inr write_sparse_map_Inr by blast

end
