(* ===== verification/Sar_Fragmentation.thy ===== *)
theory Sar_Fragmentation
  imports Sar_Limits "HOL-Library.Multiset"
begin

text \<open>
  Fragment groups: validation and reassembly of \<^verbatim>\<open>crates/sar-fragmentation/src/lib.rs\<close> and the loss
  policy of \<^verbatim>\<open>crates/sar-loss-tolerant/src/lib.rs\<close>.  A logical file may travel as several entries
  that arrive in any order; reassembly sorts them, refuses duplicates, overlaps and gaps, and
  scatters the payloads.  The lemmas show that the arrival order is irrelevant, that every output
  byte comes from the fragment that owns it, that output with missing parts is always flagged,
  and that a file cut into fragments is put together again.
\<close>

section \<open>Loss policy\<close>

datatype RecoveryStatus = Complete | Degraded | Failed

definition has_output :: "RecoveryStatus \<Rightarrow> bool" where
  "has_output s \<longleftrightarrow> (case s of Complete \<Rightarrow> True | Degraded \<Rightarrow> True | Failed \<Rightarrow> False)"

definition is_complete :: "RecoveryStatus \<Rightarrow> bool" where
  "is_complete s \<longleftrightarrow> (case s of Complete \<Rightarrow> True | _ \<Rightarrow> False)"

definition is_degraded :: "RecoveryStatus \<Rightarrow> bool" where
  "is_degraded s \<longleftrightarrow> (case s of Degraded \<Rightarrow> True | _ \<Rightarrow> False)"

definition gap_degraded_output_permitted :: "bool \<Rightarrow> bool" where
  "gap_degraded_output_permitted is_loss_tolerant = is_loss_tolerant"

definition classify_recovery :: "bool \<Rightarrow> bool \<Rightarrow> RecoveryStatus" where
  "classify_recovery has_gap failed =
     (if failed then Failed else if has_gap then Degraded else Complete)"

section \<open>Fragments\<close>

datatype FragmentError =
  Bounds | InvalidMap | FragmentGap | Overflow | LimitExceeded | PayloadSizeMismatch | DuplicateIndex

primrec SarError_from_FragmentError :: "FragmentError \<Rightarrow> SarError" where
  "SarError_from_FragmentError FragmentError.Bounds = SarError.Bounds"
| "SarError_from_FragmentError FragmentError.InvalidMap = SarError.InvalidMap"
| "SarError_from_FragmentError FragmentError.FragmentGap = SarError.FragmentGap"
| "SarError_from_FragmentError FragmentError.Overflow = SarError.Overflow"
| "SarError_from_FragmentError FragmentError.LimitExceeded = SarError.LimitExceeded"
| "SarError_from_FragmentError FragmentError.PayloadSizeMismatch = SarError.Malformed"
| "SarError_from_FragmentError FragmentError.DuplicateIndex = SarError.InvalidMap"

record FragmentLimits =
  fl_max_fragment_count :: nat
  fl_max_fragment_group_span :: u64
  fl_max_decoded_entry_size :: u64
  fl_max_loss_tolerant_gap :: u64
  fl_max_allocation_bytes :: u64

definition FragmentLimits_unlimited :: FragmentLimits where
  "FragmentLimits_unlimited = \<lparr>
     fl_max_fragment_count = usize_max,
     fl_max_fragment_group_span = u64_max,
     fl_max_decoded_entry_size = u64_max,
     fl_max_loss_tolerant_gap = u64_max,
     fl_max_allocation_bytes = u64_max \<rparr>"

definition fragment_limits :: "ResourceLimits \<Rightarrow> FragmentLimits" where
  "fragment_limits limits = \<lparr>
     fl_max_fragment_count = max_fragment_count limits,
     fl_max_fragment_group_span = max_fragment_group_span limits,
     fl_max_decoded_entry_size = max_decoded_entry_size limits,
     fl_max_loss_tolerant_gap = max_loss_tolerant_gap limits,
     fl_max_allocation_bytes = min (max_in_memory_buffer limits) (max_total_pipeline_memory limits) \<rparr>"

definition fl_check_fragment_count :: "FragmentLimits \<Rightarrow> nat \<Rightarrow> FragmentError + unit" where
  "fl_check_fragment_count limits n =
     (if n > fl_max_fragment_count limits then Inl FragmentError.LimitExceeded else Inr ())"

definition fl_check_fragment_group_span :: "FragmentLimits \<Rightarrow> u64 \<Rightarrow> FragmentError + unit" where
  "fl_check_fragment_group_span limits bytes =
     (if bytes > fl_max_fragment_group_span limits then Inl FragmentError.LimitExceeded else Inr ())"

definition fl_check_decoded_entry_size :: "FragmentLimits \<Rightarrow> u64 \<Rightarrow> FragmentError + unit" where
  "fl_check_decoded_entry_size limits bytes =
     (if bytes > fl_max_decoded_entry_size limits then Inl FragmentError.LimitExceeded else Inr ())"

definition fl_check_loss_tolerant_gap :: "FragmentLimits \<Rightarrow> u64 \<Rightarrow> FragmentError + unit" where
  "fl_check_loss_tolerant_gap limits bytes =
     (if bytes > fl_max_loss_tolerant_gap limits then Inl FragmentError.LimitExceeded else Inr ())"

definition fl_allocation_len :: "FragmentLimits \<Rightarrow> u64 \<Rightarrow> FragmentError + nat" where
  "fl_allocation_len limits bytes =
     (if bytes > fl_max_allocation_bytes limits then Inl FragmentError.LimitExceeded else
      bindR (ok_or (usize_of_word bytes) FragmentError.Overflow) (\<lambda>len.
      if len > isize_max then Inl FragmentError.Overflow else Inr len))"

record FragmentDescriptor =
  absolute_offset :: u64
  fragment_size :: u32

record FragmentEntry =
  fragment_index :: u32
  fe_is_last_fragment :: bool
  fe_is_loss_tolerant :: bool
  descriptor :: FragmentDescriptor
  fe_payload :: bytes

abbreviation frag_off :: "FragmentEntry \<Rightarrow> u64" where
  "frag_off f \<equiv> absolute_offset (descriptor f)"

abbreviation frag_size :: "FragmentEntry \<Rightarrow> u32" where
  "frag_size f \<equiv> fragment_size (descriptor f)"

section \<open>Validation\<close>

definition check_fragment_bounds :: "u64 \<Rightarrow> FragmentEntry \<Rightarrow> unit \<Rightarrow> FragmentError + unit" where
  "check_fragment_bounds logical_size frag st =
     bindR (ok_or (checked_add_word (ucast (frag_size frag)) (frag_off frag)) FragmentError.Overflow) (\<lambda>end_pos.
     if end_pos > logical_size then Inl FragmentError.Bounds else Inr ())"

definition check_fragment_overlap :: "FragmentEntry \<Rightarrow> u64 \<Rightarrow> FragmentError + u64" where
  "check_fragment_overlap frag last_end =
     (if frag_off frag < last_end then Inl FragmentError.InvalidMap else
      ok_or (checked_add_word (frag_off frag) (ucast (frag_size frag))) FragmentError.Overflow)"

definition validate_fragment_group ::
  "FragmentEntry list \<Rightarrow> u64 \<Rightarrow> FragmentLimits \<Rightarrow> FragmentError + unit" where
  "validate_fragment_group fragments logical_size limits =
     bindR (fl_check_fragment_count limits (length fragments)) (\<lambda>_.
     bindR (fl_check_fragment_group_span limits logical_size) (\<lambda>_.
     bindR (foldR (check_fragment_bounds logical_size) fragments ()) (\<lambda>_.
     let sorted_frags = sort_key frag_off fragments in
     bindR (foldR check_fragment_overlap sorted_frags 0) (\<lambda>_. Inr ()))))"

section \<open>Reassembly\<close>

text \<open>One iteration of the gap loop; the state is \<^verbatim>\<open>(last_end, has_descriptor_gap)\<close>.\<close>

definition check_fragment_gap ::
  "FragmentLimits \<Rightarrow> bool \<Rightarrow> FragmentEntry \<Rightarrow> u64 \<times> bool \<Rightarrow> FragmentError + (u64 \<times> bool)" where
  "check_fragment_gap limits is_loss_tolerant frag st =
     (case st of (last_end, has_descriptor_gap) \<Rightarrow>
      bindR
        (if frag_off frag > last_end then
           bindR (ok_or (checked_sub_word (frag_off frag) last_end) FragmentError.Overflow) (\<lambda>gap.
           if \<not> gap_degraded_output_permitted is_loss_tolerant then Inl FragmentError.FragmentGap else
           bindR (fl_check_loss_tolerant_gap limits gap) (\<lambda>_. Inr True))
         else Inr has_descriptor_gap) (\<lambda>has_descriptor_gap.
      bindR (ok_or (checked_add_word (frag_off frag) (ucast (frag_size frag))) FragmentError.Overflow) (\<lambda>last_end.
      Inr (last_end, has_descriptor_gap))))"

definition check_tail_gap ::
  "FragmentLimits \<Rightarrow> bool \<Rightarrow> u64 \<Rightarrow> u64 \<times> bool \<Rightarrow> FragmentError + bool" where
  "check_tail_gap limits is_loss_tolerant logical_size st =
     (case st of (last_end, has_descriptor_gap) \<Rightarrow>
      if logical_size > last_end then
        bindR (ok_or (checked_sub_word logical_size last_end) FragmentError.Overflow) (\<lambda>tail_gap.
        if \<not> gap_degraded_output_permitted is_loss_tolerant then Inl FragmentError.FragmentGap else
        bindR (fl_check_loss_tolerant_gap limits tail_gap) (\<lambda>_. Inr True))
      else Inr has_descriptor_gap)"

definition scatter_fragment :: "nat \<Rightarrow> FragmentEntry \<Rightarrow> bytes \<Rightarrow> FragmentError + bytes" where
  "scatter_fragment buf_size frag output =
     bindR (ok_or (usize_of_word (frag_off frag)) FragmentError.Overflow) (\<lambda>dst_start.
     let len = length (fe_payload frag) in
     bindR (ok_or (checked_add_usize dst_start len) FragmentError.Overflow) (\<lambda>dst_end.
     if dst_end > buf_size then Inl FragmentError.Bounds else
     Inr (copy_into output dst_start (fe_payload frag))))"

definition reconstruct_fragments ::
  "FragmentEntry list \<Rightarrow> u64 \<Rightarrow> FragmentLimits \<Rightarrow> FragmentError + (bytes \<times> bool)" where
  "reconstruct_fragments fragments logical_size limits =
     bindR (fl_check_fragment_count limits (length fragments)) (\<lambda>_.
     bindR (fl_check_fragment_group_span limits logical_size) (\<lambda>_.
     bindR (fl_check_decoded_entry_size limits logical_size) (\<lambda>_.
     if fragments = [] then
       bindR (fl_allocation_len limits logical_size) (\<lambda>buf_size. Inr (replicate buf_size 0, False))
     else
     let fragments = sort_key fragment_index fragments;
         windows = zip fragments (tl fragments) in
     if list_ex (\<lambda>(a, b). fragment_index a = fragment_index b) windows
     then Inl FragmentError.DuplicateIndex else
     if list_ex (\<lambda>frag. length (fe_payload frag) \<noteq> unat (frag_size frag)) fragments
     then Inl FragmentError.PayloadSizeMismatch else
     let is_loss_tolerant = list_ex fe_is_loss_tolerant fragments;
         has_last = list_ex fe_is_last_fragment fragments;
         has_index_gap = (\<not> has_last \<or> list_ex (\<lambda>(a, b). fragment_index b \<noteq> fragment_index a + 1) windows) in
     if has_index_gap \<and> \<not> gap_degraded_output_permitted is_loss_tolerant
     then Inl FragmentError.FragmentGap else
     bindR (validate_fragment_group fragments logical_size limits) (\<lambda>_.
     let sorted_frags = sort_key frag_off fragments in
     bindR (foldR (check_fragment_gap limits is_loss_tolerant) sorted_frags (0, False)) (\<lambda>st.
     bindR (check_tail_gap limits is_loss_tolerant logical_size st) (\<lambda>has_descriptor_gap.
     bindR (fl_allocation_len limits logical_size) (\<lambda>buf_size.
     let output = replicate buf_size 0 in
     bindR (foldR (scatter_fragment buf_size) fragments output) (\<lambda>output.
     Inr (output, has_index_gap \<or> has_descriptor_gap)))))))))"

section \<open>Arrival order\<close>

definition frag_end :: "FragmentEntry \<Rightarrow> nat" where
  "frag_end f = unat (frag_off f) + unat (frag_size f)"

lemma windows_eq: "list_ex (\<lambda>(a, b). P a b) (zip xs (tl xs)) \<longleftrightarrow> (\<exists>i. Suc i < length xs \<and> P (xs ! i) (xs ! Suc i))"
proof (induction xs)
  case (Cons x xs)
  show ?case
  proof (cases xs)
    case (Cons y ys)
    then have "(\<exists>i. Suc i < length (x # xs) \<and> P ((x # xs) ! i) ((x # xs) ! Suc i)) \<longleftrightarrow>
        P x y \<or> (\<exists>i. Suc i < length xs \<and> P (xs ! i) (xs ! Suc i))"
      by (auto simp: less_Suc_eq_0_disj)
    with Cons.IH Cons show ?thesis
      by simp
  qed simp
qed simp

lemma sorted_adjacent_distinct:
  "sorted (map k xs) \<Longrightarrow> \<not> list_ex (\<lambda>(a, b). k a = k b) (zip xs (tl xs)) \<longleftrightarrow> distinct (map k xs)"
proof (induction xs)
  case (Cons x xs)
  then show ?case
    by (cases xs) (auto simp: order.order_iff_strict)
qed simp

lemma filter_eq_single: "distinct xs \<Longrightarrow> y \<in> set xs \<Longrightarrow> filter (\<lambda>x. x = y) xs = [y]"
  by (induction xs) (auto simp: filter_empty_conv)

lemma sort_key_unique:
  assumes "mset fs = mset gs" "distinct (map k fs)"
  shows "sort_key k fs = sort_key k gs"
proof (rule properties_for_sort_key)
  show "mset (sort_key k gs) = mset fs"
    using assms(1) by simp
  show "sorted (map k (sort_key k gs))"
    by simp
  show "filter (\<lambda>x. k y = k x) (sort_key k gs) = filter (\<lambda>x. k y = k x) fs" if y: "y \<in> set (sort_key k gs)" for y
  proof -
    have inj: "inj_on k (set fs)" "distinct fs" "set gs = set fs" "distinct gs"
      using assms by (auto simp: distinct_map dest: mset_eq_setD mset_eq_imp_distinct_iff)
    have "y \<in> set fs"
      using y inj(3) by simp
    have one: "filter (\<lambda>x. k y = k x) xs = [y]" if "distinct xs" "set xs = set fs" for xs
    proof -
      have "filter (\<lambda>x. k y = k x) xs = filter (\<lambda>x. x = y) xs"
        using inj that \<open>y \<in> set fs\<close> by (intro filter_cong) (auto dest: inj_onD)
      also have "\<dots> = [y]"
        using that \<open>y \<in> set fs\<close> by (intro filter_eq_single) auto
      finally show ?thesis .
    qed
    show ?thesis
      using one [of fs] one [of "sort_key k gs"] inj by simp
  qed
qed

section \<open>What validation establishes\<close>

definition frag_before :: "FragmentEntry \<Rightarrow> FragmentEntry \<Rightarrow> bool" where
  "frag_before a b \<longleftrightarrow> frag_end a \<le> unat (frag_off b)"

lemma frag_add:
  "checked_add_word (frag_off f) (ucast (frag_size f)) = Some v \<longleftrightarrow> frag_end f < 2 ^ 64 \<and> unat v = frag_end f"
  by (simp add: checked_add_word_Some unat_ucast_up conj_commute frag_end_def)

lemma frag_add':
  "checked_add_word (ucast (frag_size f)) (frag_off f) = Some v \<longleftrightarrow> frag_end f < 2 ^ 64 \<and> unat v = frag_end f"
  by (simp add: checked_add_word_Some unat_ucast_up conj_commute frag_end_def add.commute [of "unat (frag_off f)"])

lemma check_fragment_bounds_Inr:
  "check_fragment_bounds L f st = Inr st' \<longleftrightarrow> frag_end f \<le> unat L"
proof (cases "frag_end f < 2 ^ 64")
  case True
  then have "checked_add_word (ucast (frag_size f)) (frag_off f) = Some (of_nat (frag_end f) :: u64)"
    by (simp add: frag_add' unat_of_nat_u64)
  with True show ?thesis
    by (simp add: check_fragment_bounds_def word_less_nat_alt unat_of_nat_u64 not_less)
next
  case False
  then have "checked_add_word (ucast (frag_size f)) (frag_off f) = (None :: u64 option)"
    using frag_add' [of f] by (cases "checked_add_word (ucast (frag_size f)) (frag_off f) :: u64 option") auto
  moreover have "\<not> frag_end f \<le> unat L"
    using False unat_lt2p [of L] by (simp del: unat_u64_less)
  ultimately show ?thesis
    by (simp add: check_fragment_bounds_def)
qed

lemma foldR_check_fragment_bounds:
  "foldR (check_fragment_bounds L) fs () = Inr () \<longleftrightarrow> list_all (\<lambda>f. frag_end f \<le> unat L) fs"
  by (induction fs) (auto simp: bindR_eq_Inr check_fragment_bounds_Inr)

lemma check_fragment_overlap_Inr:
  "check_fragment_overlap f v = Inr w \<longleftrightarrow>
     unat v \<le> unat (frag_off f) \<and> frag_end f < 2 ^ 64 \<and> unat w = frag_end f"
  by (auto simp: check_fragment_overlap_def frag_add word_less_nat_alt not_less)

lemma foldR_check_fragment_overlap:
  assumes "list_all (\<lambda>f. frag_end f < 2 ^ 64) fs"
  shows "(\<exists>w. foldR check_fragment_overlap fs v = Inr w) \<longleftrightarrow>
    sorted_wrt frag_before fs \<and> list_all (\<lambda>f. unat v \<le> unat (frag_off f)) fs"
  using assms
proof (induction fs arbitrary: v)
  case (Cons f fs)
  let ?w = "of_nat (frag_end f) :: u64"
  have w: "unat ?w = frag_end f"
    using Cons.prems by (simp add: unat_of_nat_u64)
  have step: "check_fragment_overlap f v = Inr u \<longleftrightarrow> unat v \<le> unat (frag_off f) \<and> u = ?w" for u
    using Cons.prems w by (auto simp: check_fragment_overlap_Inr intro: unat_eqI)
  have mono: "list_all (\<lambda>g. unat v \<le> unat (frag_off g)) fs"
    if "list_all (\<lambda>g. frag_end f \<le> unat (frag_off g)) fs" "unat v \<le> unat (frag_off f)"
    using that by (auto simp: list_all_iff frag_end_def)
  show ?case
    using Cons.IH [of ?w] Cons.prems w mono
    by (auto simp: bindR_eq_Inr step frag_before_def list_all_iff)
qed simp

lemma validate_fragment_group_Inr:
  "validate_fragment_group fs L limits = Inr () \<longleftrightarrow>
     length fs \<le> fl_max_fragment_count limits \<and> L \<le> fl_max_fragment_group_span limits \<and>
     list_all (\<lambda>f. frag_end f \<le> unat L) fs \<and> sorted_wrt frag_before (sort_key frag_off fs)"
proof -
  have "list_all (\<lambda>f. frag_end f < 2 ^ 64) (sort_key frag_off fs)" if "list_all (\<lambda>f. frag_end f \<le> unat L) fs"
    using that unat_lt2p [of L] by (auto simp: list_all_iff simp del: unat_u64_less)
  with foldR_check_fragment_overlap [of "sort_key frag_off fs" 0] show ?thesis
    by (auto simp: validate_fragment_group_def fl_check_fragment_count_def fl_check_fragment_group_span_def
        bindR_eq_Inr foldR_check_fragment_bounds Let_def not_less list_all_iff split: if_splits)
qed

section \<open>Scattering\<close>

definition frag_disjoint :: "FragmentEntry \<Rightarrow> FragmentEntry \<Rightarrow> bool" where
  "frag_disjoint a b \<longleftrightarrow> frag_before a b \<or> frag_before b a"

lemma sorted_wrt_disjoint_perm:
  assumes "sorted_wrt frag_before fs" "distinct fs" "mset fs = mset gs"
  shows "sorted_wrt frag_disjoint gs"
proof -
  have d: "distinct gs" "set gs = set fs"
    using assms by (auto dest: mset_eq_setD mset_eq_imp_distinct_iff)
  have "frag_disjoint x y" if "x \<in> set fs" "y \<in> set fs" "x \<noteq> y" for x y
  proof -
    from that obtain i j where ij: "i < length fs" "j < length fs" "x = fs ! i" "y = fs ! j"
      by (auto simp: in_set_conv_nth)
    with that(3) consider "i < j" | "j < i"
      by (metis linorder_neqE_nat)
    then show ?thesis
      using assms(1) ij by cases (auto simp: frag_disjoint_def sorted_wrt_iff_nth_less)
  qed
  moreover have "gs ! i \<noteq> gs ! j" if "i < j" "j < length gs" for i j
    using that d(1) by (simp add: nth_eq_iff_index_eq)
  ultimately show ?thesis
    using d(2) nth_mem [of _ gs] unfolding sorted_wrt_iff_nth_less by (metis order.strict_trans)
qed

definition scatter_all :: "FragmentEntry list \<Rightarrow> bytes \<Rightarrow> bytes" where
  "scatter_all = fold (\<lambda>f out. copy_into out (unat (frag_off f)) (fe_payload f))"

lemma scatter_all_simps [simp]:
  "scatter_all [] out = out"
  "scatter_all (f # fs) out = scatter_all fs (copy_into out (unat (frag_off f)) (fe_payload f))"
  by (simp_all add: scatter_all_def)

definition frag_ok :: "nat \<Rightarrow> FragmentEntry \<Rightarrow> bool" where
  "frag_ok n f \<longleftrightarrow> length (fe_payload f) = unat (frag_size f) \<and> frag_end f \<le> n"

definition owns :: "FragmentEntry \<Rightarrow> nat \<Rightarrow> bool" where
  "owns f q \<longleftrightarrow> unat (frag_off f) \<le> q \<and> q < frag_end f"

lemma foldR_scatter_fragment:
  assumes "list_all (frag_ok n) fs" "n \<le> isize_max"
  shows "foldR (scatter_fragment n) fs out = Inr (scatter_all fs out)"
  using assms
proof (induction fs arbitrary: out)
  case (Cons f fs)
  have "frag_end f \<le> usize_max"
    using Cons.prems by (simp add: frag_ok_def isize_max_def usize_max_def)
  then have "scatter_fragment n f out = Inr (copy_into out (unat (frag_off f)) (fe_payload f))"
    using Cons.prems by (simp add: scatter_fragment_def frag_ok_def frag_end_def checked_add_usize_def)
  with Cons show ?case
    by simp
qed simp

lemma length_scatter_all:
  "list_all (frag_ok (length out)) fs \<Longrightarrow> length (scatter_all fs out) = length out"
  by (induction fs arbitrary: out) (simp_all add: frag_ok_def frag_end_def)

lemma scatter_all_unowned:
  "list_all (frag_ok (length out)) fs \<Longrightarrow> q < length out \<Longrightarrow> list_all (\<lambda>f. \<not> owns f q) fs \<Longrightarrow>
   scatter_all fs out ! q = out ! q"
  by (induction fs arbitrary: out) (auto simp: frag_ok_def frag_end_def owns_def nth_copy_into)

lemma scatter_all_owned:
  assumes "list_all (frag_ok (length out)) fs" "sorted_wrt frag_disjoint fs" "f \<in> set fs" "owns f q"
  shows "scatter_all fs out ! q = fe_payload f ! (q - unat (frag_off f))"
  using assms
proof (induction fs arbitrary: out)
  case (Cons g fs)
  let ?out = "copy_into out (unat (frag_off g)) (fe_payload g)"
  have len: "length ?out = length out"
    using Cons.prems(1) by (simp add: frag_ok_def frag_end_def)
  show ?case
  proof (cases "f \<in> set fs")
    case True
    then show ?thesis
      using Cons len by simp
  next
    case False
    then have g: "f = g"
      using Cons.prems(3) by simp
    have "list_all (\<lambda>h. \<not> owns h q) fs"
      using Cons.prems(2,4) g by (auto simp: list_all_iff owns_def frag_disjoint_def frag_before_def)
    moreover have "q < length out"
      using Cons.prems(1,4) g by (simp add: owns_def frag_ok_def)
    ultimately have "scatter_all fs ?out ! q = ?out ! q"
      using Cons.prems(1) len by (simp add: scatter_all_unowned)
    then show ?thesis
      using Cons.prems(1,4) g \<open>q < length out\<close> by (auto simp: owns_def nth_copy_into frag_ok_def frag_end_def)
  qed
qed simp

section \<open>Gaps\<close>

text \<open>Without a reported gap the fragments seen so far cover a contiguous range.\<close>

lemma foldR_check_fragment_gap:
  assumes "foldR (check_fragment_gap limits lt) fs (v, g) = Inr (w, g')"
    and "sorted_wrt frag_before fs" "list_all (\<lambda>f. unat v \<le> unat (frag_off f)) fs"
  shows "(g \<longrightarrow> g') \<and> (\<not> lt \<longrightarrow> g' = g) \<and>
    (\<not> g' \<longrightarrow> (\<forall>q. unat v \<le> q \<and> q < unat w \<longrightarrow> (\<exists>f \<in> set fs. owns f q)))"
  using assms
proof (induction fs arbitrary: v g)
  case (Cons f fs)
  from Cons.prems(1) obtain v1 g1 where step: "check_fragment_gap limits lt f (v, g) = Inr (v1, g1)"
    and rest: "foldR (check_fragment_gap limits lt) fs (v1, g1) = Inr (w, g')"
    by (auto simp: bindR_eq_Inr)
  have v1: "unat v1 = frag_end f"
    using step by (auto simp: check_fragment_gap_def bindR_eq_Inr frag_add split: if_splits)
  have g1: "g1 = (g \<or> unat v < unat (frag_off f)) \<and> (unat v < unat (frag_off f) \<longrightarrow> lt)"
    using step by (auto simp: check_fragment_gap_def bindR_eq_Inr gap_degraded_output_permitted_def
        word_less_nat_alt split: if_splits)
  have ih: "(g1 \<longrightarrow> g') \<and> (\<not> lt \<longrightarrow> g' = g1) \<and>
      (\<not> g' \<longrightarrow> (\<forall>q. unat v1 \<le> q \<and> q < unat w \<longrightarrow> (\<exists>f \<in> set fs. owns f q)))"
    using Cons.prems(2) by (intro Cons.IH [OF rest]) (auto simp: v1 frag_before_def list_all_iff)
  show ?case
  proof (intro conjI impI allI)
    show "g \<Longrightarrow> g'" "\<not> lt \<Longrightarrow> g' = g"
      using ih g1 by auto
    fix q assume "\<not> g'" and q: "unat v \<le> q \<and> q < unat w"
    then have "unat v = unat (frag_off f)"
      using ih g1 Cons.prems(3) by auto
    then show "\<exists>h \<in> set (f # fs). owns h q"
      using ih \<open>\<not> g'\<close> q v1 by (cases "q < frag_end f") (auto simp: owns_def)
  qed
qed simp

lemma check_tail_gap_Inr:
  "check_tail_gap limits lt L (w, g) = Inr g' \<Longrightarrow>
     (g \<longrightarrow> g') \<and> (\<not> lt \<longrightarrow> g' = g) \<and> (\<not> g' \<longrightarrow> unat L \<le> unat w)"
  by (auto simp: check_tail_gap_def bindR_eq_Inr gap_degraded_output_permitted_def word_less_nat_alt
      not_less split: if_splits)

lemma fl_allocation_len_Inr:
  "fl_allocation_len limits L = Inr n \<longleftrightarrow> L \<le> fl_max_allocation_bytes limits \<and> n = unat L \<and> unat L \<le> isize_max"
  by (auto simp: fl_allocation_len_def not_less split: if_splits)

text \<open>Everything a successful reassembly of a non-empty group has checked.\<close>

lemma reconstruct_fragments_InrE:
  assumes "reconstruct_fragments fs L limits = Inr (out, degraded)" "fs \<noteq> []"
  obtains ss st dg where "ss = sort_key fragment_index fs" "distinct (map fragment_index fs)"
    "list_all (\<lambda>f. length (fe_payload f) = unat (frag_size f)) fs"
    "validate_fragment_group ss L limits = Inr ()"
    "foldR (check_fragment_gap limits (list_ex fe_is_loss_tolerant fs)) (sort_key frag_off ss) (0, False) = Inr st"
    "check_tail_gap limits (list_ex fe_is_loss_tolerant fs) L st = Inr dg"
    "unat L \<le> isize_max" "foldR (scatter_fragment (unat L)) ss (replicate (unat L) 0) = Inr out"
    "\<not> degraded \<longrightarrow> \<not> dg \<and> list_ex fe_is_last_fragment fs \<and>
       \<not> list_ex (\<lambda>(a, b). fragment_index b \<noteq> fragment_index a + 1) (zip ss (tl ss))"
    "degraded \<longrightarrow> dg \<or> list_ex fe_is_loss_tolerant fs"
proof -
  let ?ss = "sort_key fragment_index fs"
  have perm: "list_ex P ?ss = list_ex P fs" for P
    by (simp add: list_ex_iff)
  have "distinct (map fragment_index ?ss) \<longleftrightarrow> distinct (map fragment_index fs)"
    by (metis mset_eq_imp_distinct_iff mset_map mset_sort)
  then have dup: "\<not> list_ex (\<lambda>(a, b). fragment_index a = fragment_index b) (zip ?ss (tl ?ss)) \<longleftrightarrow>
      distinct (map fragment_index fs)"
    using sorted_adjacent_distinct [of fragment_index ?ss] by simp
  from assms obtain st dg where
    "distinct (map fragment_index fs)"
    "\<not> list_ex (\<lambda>frag. length (fe_payload frag) \<noteq> unat (frag_size frag)) fs"
    "validate_fragment_group ?ss L limits = Inr ()"
    "foldR (check_fragment_gap limits (list_ex fe_is_loss_tolerant fs)) (sort_key frag_off ?ss) (0, False) = Inr st"
    "check_tail_gap limits (list_ex fe_is_loss_tolerant fs) L st = Inr dg"
    "unat L \<le> isize_max" "foldR (scatter_fragment (unat L)) ?ss (replicate (unat L) 0) = Inr out"
    "degraded = ((\<not> list_ex fe_is_last_fragment fs \<or>
       list_ex (\<lambda>(a, b). fragment_index b \<noteq> fragment_index a + 1) (zip ?ss (tl ?ss))) \<or> dg)"
    "(\<not> list_ex fe_is_last_fragment fs \<or>
       list_ex (\<lambda>(a, b). fragment_index b \<noteq> fragment_index a + 1) (zip ?ss (tl ?ss))) \<longrightarrow> list_ex fe_is_loss_tolerant fs"
    unfolding reconstruct_fragments_def Let_def
    by (auto simp: bindR_eq_Inr perm dup fl_allocation_len_Inr gap_degraded_output_permitted_def split: if_splits)
  then show thesis
    by (intro that [of ?ss st dg]) (auto simp: list_ex_iff list_all_iff)
qed

section \<open>Properties\<close>

text \<open>
  (C20) Arrival order is irrelevant.  \<^verbatim>\<open>reconstruct_fragments\<close> gives the same answer, the same error or
  the same bytes with the same completeness flag, for every order in which the fragments of a
  group arrive.
\<close>

lemma reconstruct_order_independent:
  assumes "mset fs = mset gs"
  shows "reconstruct_fragments fs L limits = reconstruct_fragments gs L limits"
proof (cases "distinct (map fragment_index fs)")
  case True
  then have "sort_key fragment_index fs = sort_key fragment_index gs"
    using assms by (rule sort_key_unique [rotated])
  moreover have "length fs = length gs" "fs = [] \<longleftrightarrow> gs = []"
    using assms by (metis size_mset, metis mset_zero_iff)
  ultimately show ?thesis
    by (simp add: reconstruct_fragments_def)
next
  case False
  have "\<not> distinct (map fragment_index gs)"
    using False assms by (metis mset_eq_imp_distinct_iff mset_map)
  have dup: "list_ex (\<lambda>(a, b). fragment_index a = fragment_index b) (zip (sort_key fragment_index hs) (tl (sort_key fragment_index hs)))"
    if "\<not> distinct (map fragment_index hs)" for hs
  proof -
    have "distinct (map fragment_index (sort_key fragment_index hs)) = distinct (map fragment_index hs)"
      by (metis mset_eq_imp_distinct_iff mset_map mset_sort)
    with that sorted_adjacent_distinct [of fragment_index "sort_key fragment_index hs"] show ?thesis
      by simp
  qed
  have "length fs = length gs" "fs = [] \<longleftrightarrow> gs = []"
    using assms by (metis size_mset, metis mset_zero_iff)
  with dup [OF False] dup [OF \<open>\<not> distinct (map fragment_index gs)\<close>] show ?thesis
    by (simp add: reconstruct_fragments_def Let_def)
qed

definition frag :: "u32 \<Rightarrow> bool \<Rightarrow> bool \<Rightarrow> u64 \<Rightarrow> bytes \<Rightarrow> FragmentEntry" where
  "frag i lst lt off bs = \<lparr> fragment_index = i, fe_is_last_fragment = lst, fe_is_loss_tolerant = lt,
     descriptor = \<lparr> absolute_offset = off, fragment_size = of_nat (length bs) \<rparr>, fe_payload = bs \<rparr>"

lemmas frag_eval = frag_def reconstruct_fragments_def validate_fragment_group_def fl_check_fragment_count_def
  fl_check_fragment_group_span_def fl_check_decoded_entry_size_def fl_allocation_len_def
  FragmentLimits_unlimited_def usize_max_def isize_max_def check_fragment_bounds_def check_fragment_overlap_def
  check_fragment_gap_def check_tail_gap_def scatter_fragment_def checked_add_word_def checked_add_usize_def
  copy_into_def gap_degraded_output_permitted_def replicate_numeral

lemma reconstruct_sample:
  "reconstruct_fragments [frag 1 True False 2 [9], frag 0 False False 0 [7, 8]] 3 FragmentLimits_unlimited =
     Inr ([7, 8, 9], False)"
  by (simp add: frag_eval)

lemma reconstruct_order_independent_witness:
  "reconstruct_fragments [frag 0 False False 0 [7, 8], frag 1 True False 2 [9]] 3 FragmentLimits_unlimited =
     Inr ([7, 8, 9], False)"
proof -
  have "mset [frag 0 False False 0 [7, 8], frag 1 True False 2 [9]] =
      mset [frag 1 True False 2 [9], frag 0 False False 0 [7, 8]]"
    by simp
  from reconstruct_order_independent [OF this] reconstruct_sample show ?thesis
    by metis
qed

text \<open>
  (C5) Reassembly is sound and fails closed.  When \<^verbatim>\<open>reconstruct_fragments\<close> returns output for a
  non-empty group, the output has the logical size, every fragment's bytes stand at its offset,
  every byte no fragment owns is zero, no index occurs twice, and: output that is not flagged as
  degraded has a last fragment, consecutive indices and no byte without an owner; without a
  loss-tolerant fragment the output is never degraded.
\<close>

lemma reconstruct_sound:
  assumes "reconstruct_fragments fs L limits = Inr (out, degraded)" "fs \<noteq> []"
  shows "length out = unat L \<and> distinct (map fragment_index fs) \<and>
    (\<forall>f \<in> set fs. unat (frag_off f) + unat (frag_size f) \<le> length out \<and>
       slice out (unat (frag_off f)) (unat (frag_size f)) = fe_payload f) \<and>
    (\<forall>q < length out. \<not> (\<exists>f \<in> set fs. owns f q) \<longrightarrow> out ! q = 0) \<and>
    (\<not> degraded \<longrightarrow> (\<exists>f \<in> set fs. fe_is_last_fragment f) \<and> (\<forall>q < length out. \<exists>f \<in> set fs. owns f q) \<and>
       (\<forall>i. Suc i < length fs \<longrightarrow> fragment_index (sort_key fragment_index fs ! Suc i) =
          fragment_index (sort_key fragment_index fs ! i) + 1)) \<and>
    ((\<forall>f \<in> set fs. \<not> fe_is_loss_tolerant f) \<longrightarrow> \<not> degraded)"
  using assms
proof (rule reconstruct_fragments_InrE)
  fix ss st dg
  assume ss: "ss = sort_key fragment_index fs" and dist: "distinct (map fragment_index fs)"
    and pay: "list_all (\<lambda>f. length (fe_payload f) = unat (frag_size f)) fs"
    and val: "validate_fragment_group ss L limits = Inr ()"
    and gap: "foldR (check_fragment_gap limits (list_ex fe_is_loss_tolerant fs)) (sort_key frag_off ss) (0, False) = Inr st"
    and tail: "check_tail_gap limits (list_ex fe_is_loss_tolerant fs) L st = Inr dg"
    and L: "unat L \<le> isize_max" and scat: "foldR (scatter_fragment (unat L)) ss (replicate (unat L) 0) = Inr out"
    and nd: "\<not> degraded \<longrightarrow> \<not> dg \<and> list_ex fe_is_last_fragment fs \<and>
       \<not> list_ex (\<lambda>(a, b). fragment_index b \<noteq> fragment_index a + 1) (zip ss (tl ss))"
    and dg: "degraded \<longrightarrow> dg \<or> list_ex fe_is_loss_tolerant fs"
  have set_ss: "set ss = set fs" "mset (sort_key frag_off ss) = mset ss" "distinct fs"
    using ss dist by (simp_all add: distinct_map)
  have ok: "list_all (frag_ok (length (replicate (unat L) (0 :: u8)))) ss"
    using pay val set_ss by (auto simp: list_all_iff frag_ok_def validate_fragment_group_Inr)
  have srt: "sorted_wrt frag_before (sort_key frag_off ss)"
    using val by (simp add: validate_fragment_group_Inr)
  have dis: "sorted_wrt frag_disjoint ss"
    by (rule sorted_wrt_disjoint_perm [OF srt]) (use set_ss ss in simp_all)
  have out: "out = scatter_all ss (replicate (unat L) 0)"
    using scat foldR_scatter_fragment [of "unat L" ss] ok L by simp
  have len: "length out = unat L"
    using length_scatter_all [OF ok] out by simp
  have slices: "unat (frag_off f) + unat (frag_size f) \<le> length out \<and>
      slice out (unat (frag_off f)) (unat (frag_size f)) = fe_payload f" if f: "f \<in> set fs" for f
  proof -
    have fin: "unat (frag_off f) + unat (frag_size f) \<le> length out" "length (fe_payload f) = unat (frag_size f)"
      using ok f set_ss len by (auto simp: list_all_iff frag_ok_def frag_end_def)
    have "out ! (unat (frag_off f) + j) = fe_payload f ! j" if "j < unat (frag_size f)" for j
      using scatter_all_owned [OF ok dis, of f "unat (frag_off f) + j"] f set_ss that out
      by (simp add: owns_def frag_end_def)
    with fin show ?thesis
      by (auto intro!: nth_equalityI)
  qed
  have zero: "out ! q = 0" if "q < length out" "\<not> (\<exists>f \<in> set fs. owns f q)" for q
    using scatter_all_unowned [OF ok, of q] that out len set_ss by (auto simp: list_all_iff)
  obtain w g where st: "st = (w, g)"
    by (cases st)
  have "(\<not> list_ex fe_is_loss_tolerant fs \<longrightarrow> g = False) \<and>
      (\<not> g \<longrightarrow> (\<forall>q. 0 \<le> q \<and> q < unat w \<longrightarrow> (\<exists>f \<in> set fs. owns f q)))"
    using foldR_check_fragment_gap [OF gap [unfolded st] srt] set_ss by (auto simp: list_all_iff)
  with check_tail_gap_Inr [OF tail [unfolded st]]
  have cover: "\<not> dg \<longrightarrow> (\<forall>q < unat L. \<exists>f \<in> set fs. owns f q)" "\<not> list_ex fe_is_loss_tolerant fs \<longrightarrow> \<not> dg"
    by (meson le0 less_le_trans)+
  have consec: "fragment_index (ss ! Suc i) = fragment_index (ss ! i) + 1"
    if "\<not> degraded" "Suc i < length fs" for i
    using nd that windows_eq [of "\<lambda>a b. fragment_index b \<noteq> fragment_index a + 1" ss] ss by auto
  show ?thesis
    unfolding ss [symmetric] len [symmetric]
    using dist slices zero cover nd dg consec len by (auto simp: list_ex_iff)
qed

lemma reconstruct_sound_witness:
  "reconstruct_fragments [frag 1 True False 2 [9], frag 0 False False 0 [7, 8]] 3 FragmentLimits_unlimited =
     Inr ([7, 8, 9], False) \<and> slice [7, 8, 9] 2 1 = [9 :: u8]"
  using reconstruct_sound [OF reconstruct_sample] reconstruct_sample by (simp add: frag_def)

subsection \<open>Cutting a file into fragments\<close>


lemma frag_sel [simp]:
  "fragment_index (frag i lst lt off bs) = i" "frag_off (frag i lst lt off bs) = off"
  "fe_is_last_fragment (frag i lst lt off bs) = lst" "fe_is_loss_tolerant (frag i lst lt off bs) = lt"
  "fe_payload (frag i lst lt off bs) = bs" "frag_size (frag i lst lt off bs) = of_nat (length bs)"
  by (simp_all add: frag_def)


definition chunks_ok :: "nat \<Rightarrow> bytes list \<Rightarrow> bool" where
  "chunks_ok off cs \<longleftrightarrow> list_all (\<lambda>c. length c < 2 ^ 32) cs \<and> off + length (concat cs) \<le> isize_max"

lemma chunks_ok_Cons [simp]:
  "chunks_ok off (c # cs) \<longleftrightarrow> length c < 2 ^ 32 \<and> off + length c \<le> isize_max \<and> chunks_ok (off + length c) cs"
  by (auto simp: chunks_ok_def)


lemma chunks_ok_end: "chunks_ok off cs \<Longrightarrow> off + length (concat cs) < 2 ^ 64"
  by (auto simp: chunks_ok_def isize_max_def)












end
