(* ===== verification/Sar_Protocol.thy ===== *)
theory Sar_Protocol
  imports Sar_Limits Sar_Std
begin

text \<open>
  The session protocol of \<^verbatim>\<open>crates/sar-stream/src/protocol.rs\<close>: operation codes, the three flag sets
  with their validity rules, and the payload frames of the session-control namespace with parser and
  serializer.  The lemmas show that a frame and its payload bytes determine each other.
\<close>

unbundle bit_operations_syntax

section \<open>Operation codes\<close>

datatype FilesystemOpCode = DataWrite | Delete | Rename | MetaProbe | SyncBarrier

definition FilesystemOpCode_try_from :: "u8 \<Rightarrow> SarError + FilesystemOpCode" where
  "FilesystemOpCode_try_from v =
     (if v = 0x0 then Inr FilesystemOpCode.DataWrite
      else if v = 0x1 then Inr FilesystemOpCode.Delete
      else if v = 0x2 then Inr FilesystemOpCode.Rename
      else if v = 0x3 then Inr FilesystemOpCode.MetaProbe
      else if v = 0x4 then Inr FilesystemOpCode.SyncBarrier
      else Inl SarError.ReservedValue)"

datatype SessionOpCode = Init | Close | Resume | Heartbeat | Status | Ack | Metadata | Capabilities

definition SessionOpCode_try_from :: "u8 \<Rightarrow> SarError + SessionOpCode" where
  "SessionOpCode_try_from v =
     (if v = 0x0 then Inr SessionOpCode.Init
      else if v = 0x1 then Inr SessionOpCode.Close
      else if v = 0x2 then Inr SessionOpCode.Resume
      else if v = 0x3 then Inr SessionOpCode.Heartbeat
      else if v = 0x4 then Inr SessionOpCode.Status
      else if v = 0x5 then Inr SessionOpCode.Ack
      else if v = 0x6 then Inr SessionOpCode.Metadata
      else if v = 0x7 then Inr SessionOpCode.Capabilities
      else Inl SarError.ReservedValue)"

section \<open>Flag sets\<close>

datatype SessionFlags = SessionFlags (sf_bits: u16)

definition BIDIRECTIONAL_CONTROL_REQUESTED :: u16 where
  "BIDIRECTIONAL_CONTROL_REQUESTED = push_bit 0 1"

definition BIDIRECTIONAL_CONTROL_REQUIRED :: u16 where
  "BIDIRECTIONAL_CONTROL_REQUIRED = push_bit 1 1"

definition BIDIRECTIONAL_STREAM_REQUESTED :: u16 where
  "BIDIRECTIONAL_STREAM_REQUESTED = push_bit 2 1"

definition BIDIRECTIONAL_STREAM_REQUIRED :: u16 where
  "BIDIRECTIONAL_STREAM_REQUIRED = push_bit 3 1"

definition SESSION_RESERVED_MASK :: u16 where
  "SESSION_RESERVED_MASK = 0xfff0"

definition bidirectional_control_requested :: "SessionFlags \<Rightarrow> bool" where
  "bidirectional_control_requested f \<longleftrightarrow> sf_bits f AND BIDIRECTIONAL_CONTROL_REQUESTED \<noteq> 0"

definition bidirectional_control_required :: "SessionFlags \<Rightarrow> bool" where
  "bidirectional_control_required f \<longleftrightarrow> sf_bits f AND BIDIRECTIONAL_CONTROL_REQUIRED \<noteq> 0"

definition bidirectional_stream_requested :: "SessionFlags \<Rightarrow> bool" where
  "bidirectional_stream_requested f \<longleftrightarrow> sf_bits f AND BIDIRECTIONAL_STREAM_REQUESTED \<noteq> 0"

definition bidirectional_stream_required :: "SessionFlags \<Rightarrow> bool" where
  "bidirectional_stream_required f \<longleftrightarrow> sf_bits f AND BIDIRECTIONAL_STREAM_REQUIRED \<noteq> 0"

definition SessionFlags_validate :: "SessionFlags \<Rightarrow> SarError + unit" where
  "SessionFlags_validate f =
     (if sf_bits f AND SESSION_RESERVED_MASK \<noteq> 0 then Inl SarError.ReservedValue else
      let control_enabled = (bidirectional_control_requested f \<or> bidirectional_control_required f) in
      if (bidirectional_stream_requested f \<or> bidirectional_stream_required f) \<and> \<not> control_enabled
      then Inl SarError.FlagConflict else
      if bidirectional_stream_required f \<and> \<not> bidirectional_control_required f
      then Inl SarError.FlagConflict else Inr ())"

datatype CapabilityFlags = CapabilityFlags (cf_bits: u16)

definition CAP_SESSION_ACK :: u16 where "CAP_SESSION_ACK = push_bit 0 1"
definition CAP_SESSION_STATUS :: u16 where "CAP_SESSION_STATUS = push_bit 1 1"
definition CAP_SESSION_RESUME :: u16 where "CAP_SESSION_RESUME = push_bit 2 1"
definition CAP_SESSION_METADATA :: u16 where "CAP_SESSION_METADATA = push_bit 3 1"
definition CAP_BIDIRECTIONAL_CONTROL :: u16 where "CAP_BIDIRECTIONAL_CONTROL = push_bit 4 1"
definition CAP_BIDIRECTIONAL_STREAM :: u16 where "CAP_BIDIRECTIONAL_STREAM = push_bit 5 1"
definition CAP_TLS_EXPORTER_AEAD :: u16 where "CAP_TLS_EXPORTER_AEAD = push_bit 6 1"

definition CAP_RESERVED_MASK :: u16 where
  "CAP_RESERVED_MASK = 0xff80"

definition CapabilityFlags_NONE :: CapabilityFlags where
  "CapabilityFlags_NONE = CapabilityFlags 0"

definition supports_session_ack :: "CapabilityFlags \<Rightarrow> bool" where
  "supports_session_ack f \<longleftrightarrow> cf_bits f AND CAP_SESSION_ACK \<noteq> 0"

definition supports_session_status :: "CapabilityFlags \<Rightarrow> bool" where
  "supports_session_status f \<longleftrightarrow> cf_bits f AND CAP_SESSION_STATUS \<noteq> 0"

definition supports_session_resume :: "CapabilityFlags \<Rightarrow> bool" where
  "supports_session_resume f \<longleftrightarrow> cf_bits f AND CAP_SESSION_RESUME \<noteq> 0"

definition supports_session_metadata :: "CapabilityFlags \<Rightarrow> bool" where
  "supports_session_metadata f \<longleftrightarrow> cf_bits f AND CAP_SESSION_METADATA \<noteq> 0"

definition supports_bidirectional_control :: "CapabilityFlags \<Rightarrow> bool" where
  "supports_bidirectional_control f \<longleftrightarrow> cf_bits f AND CAP_BIDIRECTIONAL_CONTROL \<noteq> 0"

definition supports_bidirectional_stream :: "CapabilityFlags \<Rightarrow> bool" where
  "supports_bidirectional_stream f \<longleftrightarrow> cf_bits f AND CAP_BIDIRECTIONAL_STREAM \<noteq> 0"

definition supports_tls_exporter_aead :: "CapabilityFlags \<Rightarrow> bool" where
  "supports_tls_exporter_aead f \<longleftrightarrow> cf_bits f AND CAP_TLS_EXPORTER_AEAD \<noteq> 0"

definition CapabilityFlags_validate :: "CapabilityFlags \<Rightarrow> SarError + unit" where
  "CapabilityFlags_validate f =
     (if cf_bits f AND CAP_RESERVED_MASK \<noteq> 0 then Inl SarError.ReservedValue else
      if supports_bidirectional_stream f \<and> \<not> supports_bidirectional_control f
      then Inl SarError.FlagConflict else Inr ())"

datatype AckFlags = AckFlags (af_bits: u8)

definition ACK_ACK :: u8 where "ACK_ACK = push_bit 0 1"
definition ACK_OK :: u8 where "ACK_OK = push_bit 1 1"
definition ACK_SUCCESS :: u8 where "ACK_SUCCESS = push_bit 2 1"

definition ACK_RESERVED_MASK :: u8 where
  "ACK_RESERVED_MASK = 0xf8"

definition is_ack :: "AckFlags \<Rightarrow> bool" where
  "is_ack f \<longleftrightarrow> af_bits f AND ACK_ACK \<noteq> 0"

definition is_ok :: "AckFlags \<Rightarrow> bool" where
  "is_ok f \<longleftrightarrow> af_bits f AND ACK_OK \<noteq> 0"

definition is_success :: "AckFlags \<Rightarrow> bool" where
  "is_success f \<longleftrightarrow> af_bits f AND ACK_SUCCESS \<noteq> 0"

definition AckFlags_validate :: "AckFlags \<Rightarrow> SarError + unit" where
  "AckFlags_validate f =
     (if af_bits f AND ACK_RESERVED_MASK \<noteq> 0 then Inl SarError.ReservedValue else
      if is_ok f \<and> \<not> is_ack f then Inl SarError.FlagConflict else
      if is_success f \<and> \<not> (is_ack f \<and> is_ok f) then Inl SarError.FlagConflict else Inr ())"

section \<open>Frames\<close>

record SessionInitFrame =
  init_session_uuid :: bytes
  init_flags :: SessionFlags

definition SessionInitFrame_parse :: "bytes \<Rightarrow> SarError + SessionInitFrame" where
  "SessionInitFrame_parse payload =
     (if length payload \<noteq> 18 then Inl SarError.InvalidLength else
      let session_uuid = take 16 payload;
          flags = SessionFlags (from_le [payload ! 16, payload ! 17]) in
      bindR (SessionFlags_validate flags) (\<lambda>_.
      Inr \<lparr> init_session_uuid = session_uuid, init_flags = flags \<rparr>))"

definition SessionInitFrame_to_bytes :: "SessionInitFrame \<Rightarrow> SarError + bytes" where
  "SessionInitFrame_to_bytes f =
     bindR (SessionFlags_validate (init_flags f)) (\<lambda>_.
     Inr (init_session_uuid f @ le_bytes 2 (sf_bits (init_flags f))))"

record SessionResumeFrame =
  resume_session_uuid :: bytes

definition SessionResumeFrame_parse :: "bytes \<Rightarrow> SarError + SessionResumeFrame" where
  "SessionResumeFrame_parse payload =
     (if length payload \<noteq> 16 then Inl SarError.InvalidLength
      else Inr \<lparr> resume_session_uuid = payload \<rparr>)"

definition SessionResumeFrame_to_bytes :: "SessionResumeFrame \<Rightarrow> bytes" where
  "SessionResumeFrame_to_bytes f = resume_session_uuid f"

record SessionStatusFrame =
  status_ref_sequence :: u16
  status_status :: SarStatus
  status_message :: bytes

definition decode_status_code :: "u16 \<Rightarrow> SarError + SarStatus" where
  "decode_status_code code =
     (let signed = (if code = - 1 then - 1 else uint code) in
      map_err (\<lambda>_. SarError.ReservedValue) (SarStatus_try_from signed))"

definition encode_status_code :: "SarStatus \<Rightarrow> u16" where
  "encode_status_code status = (if SarStatus_code status = - 1 then - 1 else word_of_int (SarStatus_code status))"

definition SessionStatusFrame_parse :: "bytes \<Rightarrow> ResourceLimits \<Rightarrow> SarError + SessionStatusFrame" where
  "SessionStatusFrame_parse payload limits =
     (if length payload < 5 then Inl SarError.Truncated else
      let ref_sequence = from_le [payload ! 0, payload ! 1] in
      bindR (decode_status_code (from_le [payload ! 2, payload ! 3])) (\<lambda>status.
      let message_len = unat (payload ! 4) in
      bindR (check_session_status_message_bytes limits message_len) (\<lambda>_.
      if length payload \<noteq> 5 + message_len then Inl SarError.InvalidLength else
      Inr \<lparr> status_ref_sequence = ref_sequence, status_status = status, status_message = drop 5 payload \<rparr>)))"

definition SessionStatusFrame_to_bytes :: "SessionStatusFrame \<Rightarrow> ResourceLimits \<Rightarrow> SarError + bytes" where
  "SessionStatusFrame_to_bytes f limits =
     bindR (check_session_status_message_bytes limits (length (status_message f))) (\<lambda>_.
     bindR (ok_or (word_of_usize (length (status_message f))) SarError.Overflow) (\<lambda>message_len.
     Inr (le_bytes 2 (status_ref_sequence f) @ le_bytes 2 (encode_status_code (status_status f)) @
       [message_len] @ status_message f)))"

record SessionAckFrame =
  ack_ref_sequence :: u16
  ack_flags :: AckFlags

definition SessionAckFrame_parse :: "bytes \<Rightarrow> SarError + SessionAckFrame" where
  "SessionAckFrame_parse payload =
     (if length payload \<noteq> 3 then Inl SarError.InvalidLength else
      let flags = AckFlags (payload ! 2) in
      bindR (AckFlags_validate flags) (\<lambda>_.
      Inr \<lparr> ack_ref_sequence = from_le [payload ! 0, payload ! 1], ack_flags = flags \<rparr>))"

definition SessionAckFrame_to_bytes :: "SessionAckFrame \<Rightarrow> SarError + bytes" where
  "SessionAckFrame_to_bytes f =
     bindR (AckFlags_validate (ack_flags f)) (\<lambda>_.
     Inr (le_bytes 2 (ack_ref_sequence f) @ [af_bits (ack_flags f)]))"

record SessionMetadataFrame =
  meta_content_type :: bytes
  meta_metadata :: bytes

definition SessionMetadataFrame_parse :: "bytes \<Rightarrow> ResourceLimits \<Rightarrow> SarError + SessionMetadataFrame" where
  "SessionMetadataFrame_parse payload limits =
     (if length payload < 5 then Inl SarError.Truncated else
      let content_type_len = unat (payload ! 0) in
      if content_type_len = 0 then Inl SarError.InvalidLength else
      let metadata_len_u32 = from_le [payload ! 1, payload ! 2, payload ! 3, payload ! 4] :: u32 in
      bindR (ok_or (usize_of_word metadata_len_u32) SarError.Overflow) (\<lambda>metadata_len.
      bindR (check_session_metadata_bytes limits metadata_len) (\<lambda>_.
      bindR (ok_or (Option.bind (checked_add_usize 5 content_type_len) (\<lambda>v. checked_add_usize v metadata_len))
          SarError.Overflow) (\<lambda>frame_len.
      if length payload \<noteq> frame_len then Inl SarError.InvalidLength else
      let content_type = slice payload 5 content_type_len in
      if \<not> utf8_valid content_type then Inl SarError.Malformed else
      Inr \<lparr> meta_content_type = content_type, meta_metadata = drop (5 + content_type_len) payload \<rparr>))))"

definition SessionMetadataFrame_to_bytes :: "SessionMetadataFrame \<Rightarrow> ResourceLimits \<Rightarrow> SarError + bytes" where
  "SessionMetadataFrame_to_bytes f limits =
     (if meta_content_type f = [] then Inl SarError.InvalidLength else
      bindR (ok_or (word_of_usize (length (meta_content_type f)) :: u8 option) SarError.Overflow) (\<lambda>content_type_len.
      bindR (check_session_metadata_bytes limits (length (meta_metadata f))) (\<lambda>_.
      bindR (ok_or (word_of_usize (length (meta_metadata f)) :: u32 option) SarError.Overflow) (\<lambda>metadata_len.
      Inr ([content_type_len] @ le_bytes 4 metadata_len @ meta_content_type f @ meta_metadata f)))))"

record SessionCapabilitiesFrame =
  cap_flags :: CapabilityFlags

definition SessionCapabilitiesFrame_parse :: "bytes \<Rightarrow> SarError + SessionCapabilitiesFrame" where
  "SessionCapabilitiesFrame_parse payload =
     (if length payload \<noteq> 2 then Inl SarError.InvalidLength else
      let flags = CapabilityFlags (from_le [payload ! 0, payload ! 1]) in
      bindR (CapabilityFlags_validate flags) (\<lambda>_. Inr \<lparr> cap_flags = flags \<rparr>))"

definition SessionCapabilitiesFrame_to_bytes :: "SessionCapabilitiesFrame \<Rightarrow> SarError + bytes" where
  "SessionCapabilitiesFrame_to_bytes f =
     bindR (CapabilityFlags_validate (cap_flags f)) (\<lambda>_. Inr (le_bytes 2 (cf_bits (cap_flags f))))"

section \<open>A frame and its payload determine each other\<close>

lemma from_le_iff:
  "8 * length bs = LENGTH('a) \<Longrightarrow> w = (from_le bs :: 'a::len word) \<longleftrightarrow> le_bytes (length bs) w = bs"
  by (metis from_le_le_bytes le_bytes_from_le order_refl)

lemma from_le_u16: "w = (from_le [a, b] :: u16) \<longleftrightarrow> le_bytes 2 w = [a, b]"
  using from_le_iff [of "[a, b]" w] by (simp add: numeral_2_eq_2)

lemma from_le_u32: "w = (from_le [a, b, c, d] :: u32) \<longleftrightarrow> le_bytes 4 w = [a, b, c, d]"
  using from_le_iff [of "[a, b, c, d]" w] by (simp add: numeral_eq_Suc)

lemma length_2: "length xs = 2 \<longleftrightarrow> (\<exists>a b. xs = [a, b])"
  by (auto simp: numeral_2_eq_2 length_Suc_conv)

lemma le_bytes_2: obtains a b where "le_bytes 2 w = [a, b]"
  using that length_le_bytes [of 2 w] unfolding length_2 by blast

lemma length_ge_5: "5 \<le> length xs \<Longrightarrow> \<exists>a b c d e ys. xs = a # b # c # d # e # ys"
  by (auto simp: numeral_eq_Suc Suc_le_length_iff)

lemma SessionInitFrame_exact:
  "SessionInitFrame_parse p = Inr f \<longleftrightarrow> SessionInitFrame_to_bytes f = Inr p \<and> length (init_session_uuid f) = 16"
proof -
  obtain u fl where f: "f = \<lparr> init_session_uuid = u, init_flags = SessionFlags fl \<rparr>"
    by (metis SessionInitFrame.surjective old.unit.exhaust SessionFlags.exhaust)
  have "length p = 18 \<and> u = take 16 p \<and> fl = from_le [p ! 16, p ! 17] \<longleftrightarrow> p = u @ le_bytes 2 fl \<and> length u = 16"
  proof (cases "length p = 18")
    case True
    then obtain a b where d: "drop 16 p = [a, b]"
      using length_2 [of "drop 16 p"] by auto
    then have "p ! 16 = a" "p ! 17 = b"
      using nth_drop [of 16 p 0] nth_drop [of 16 p 1] True by simp_all
    moreover have p: "p = take 16 p @ [a, b]"
      using append_take_drop_id [of 16 p] d by simp
    ultimately have "fl = from_le [p ! 16, p ! 17] \<longleftrightarrow> le_bytes 2 fl = [a, b]"
      unfolding from_le_u16 by simp
    then show ?thesis
      using True by (subst (2) p) auto
  qed auto
  then show ?thesis
    unfolding f by (auto simp: SessionInitFrame_parse_def SessionInitFrame_to_bytes_def bindR_eq_Inr Let_def
        simp del: from_le.simps)
qed

lemma SessionResumeFrame_exact:
  "SessionResumeFrame_parse p = Inr f \<longleftrightarrow> SessionResumeFrame_to_bytes f = p \<and> length (resume_session_uuid f) = 16"
  by (cases f) (auto simp: SessionResumeFrame_parse_def SessionResumeFrame_to_bytes_def)

lemma SessionAckFrame_exact:
  "SessionAckFrame_parse p = Inr f \<longleftrightarrow> SessionAckFrame_to_bytes f = Inr p"
proof -
  obtain r fl where f: "f = \<lparr> ack_ref_sequence = r, ack_flags = AckFlags fl \<rparr>"
    by (metis SessionAckFrame.surjective old.unit.exhaust AckFlags.exhaust)
  obtain x y where r: "le_bytes 2 r = [x, y]"
    by (rule le_bytes_2)
  have "length p = 3 \<longleftrightarrow> (\<exists>a b c. p = [a, b, c])"
    by (auto simp: numeral_3_eq_3 length_Suc_conv)
  then have "length p = 3 \<and> fl = p ! 2 \<and> r = from_le [p ! 0, p ! 1] \<longleftrightarrow> p = [x, y] @ [fl]"
    unfolding from_le_u16 r by (auto simp: numeral_2_eq_2)
  then show ?thesis
    unfolding f by (auto simp: SessionAckFrame_parse_def SessionAckFrame_to_bytes_def bindR_eq_Inr Let_def r
        simp del: from_le.simps)
qed

lemma SessionCapabilitiesFrame_exact:
  "SessionCapabilitiesFrame_parse p = Inr f \<longleftrightarrow> SessionCapabilitiesFrame_to_bytes f = Inr p"
proof -
  obtain fl where f: "f = \<lparr> cap_flags = CapabilityFlags fl \<rparr>"
    by (metis SessionCapabilitiesFrame.surjective old.unit.exhaust CapabilityFlags.exhaust)
  obtain x y where fl: "le_bytes 2 fl = [x, y]"
    by (rule le_bytes_2)
  have "length p = 2 \<and> fl = from_le [p ! 0, p ! 1] \<longleftrightarrow> p = [x, y]"
    unfolding from_le_u16 fl by (auto simp: length_2)
  then show ?thesis
    unfolding f by (auto simp: SessionCapabilitiesFrame_parse_def SessionCapabilitiesFrame_to_bytes_def bindR_eq_Inr Let_def fl
        simp del: from_le.simps)
qed

lemma status_code_exact: "decode_status_code c = Inr st \<longleftrightarrow> c = encode_status_code st"
proof
  assume "decode_status_code c = Inr st"
  then have "SarStatus_code st = (if c = - 1 then - 1 else uint c)"
    by (auto simp: decode_status_code_def Let_def dest: SarStatus_try_from_sound)
  moreover have "uint c \<noteq> - 1"
    using uint_ge_0 [of c] by linarith
  ultimately show "c = encode_status_code st"
    by (auto simp: encode_status_code_def)
next
  assume c: "c = encode_status_code st"
  show "decode_status_code c = Inr st"
  proof (cases "SarStatus_code st = - 1")
    case True
    then show ?thesis
      using SarStatus_try_from_code [of st] by (simp add: c encode_status_code_def decode_status_code_def)
  next
    case False
    have range: "0 \<le> SarStatus_code st" "SarStatus_code st \<le> 52"
      using SarStatus_code_range [of st] False by linarith+
    then have u: "uint (word_of_int (SarStatus_code st) :: u16) = SarStatus_code st"
      by (simp add: uint_word_of_int_eq take_bit_int_eq_self)
    have "uint (- 1 :: u16) = 65535"
      by (simp add: unsigned_minus_1_eq_mask mask_eq_exp_minus_1)
    with u range(2) have "word_of_int (SarStatus_code st) \<noteq> (- 1 :: u16)"
      by auto
    with False u show ?thesis
      by (simp add: c encode_status_code_def decode_status_code_def)
  qed
qed

lemma SessionStatusFrame_exact:
  "SessionStatusFrame_parse p limits = Inr f \<longleftrightarrow> SessionStatusFrame_to_bytes f limits = Inr p"
proof -
  obtain r st m where f: "f = \<lparr> status_ref_sequence = r, status_status = st, status_message = m \<rparr>"
    by (metis SessionStatusFrame.surjective old.unit.exhaust)
  obtain x y where r: "le_bytes 2 r = [x, y]"
    by (rule le_bytes_2)
  obtain v w where st: "le_bytes 2 (encode_status_code st) = [v, w]"
    by (rule le_bytes_2)
  have "5 \<le> length p \<and> r = from_le [p ! 0, p ! 1] \<and> from_le [p ! 2, p ! 3] = encode_status_code st \<and>
      length p = 5 + unat (p ! 4) \<and> m = drop 5 p \<longleftrightarrow>
      (\<exists>l :: u8. unat l = length m \<and> p = [x, y, v, w, l] @ m)"
  proof (cases "5 \<le> length p")
    case True
    then obtain a b c d e ys where "p = a # b # c # d # e # ys"
      using length_ge_5 by blast
    then show ?thesis
      unfolding eq_commute [of "from_le _" "encode_status_code st"] from_le_u16 r st by auto
  qed auto
  then show ?thesis
    unfolding f
    by (auto simp: SessionStatusFrame_parse_def SessionStatusFrame_to_bytes_def bindR_eq_Inr Let_def status_code_exact
        word_of_usize_Some check_session_status_message_bytes_def r st simp del: from_le.simps)
qed

lemma SessionMetadataFrame_exact:
  "SessionMetadataFrame_parse p limits = Inr f \<longleftrightarrow>
     SessionMetadataFrame_to_bytes f limits = Inr p \<and> utf8_valid (meta_content_type f)"
proof -
  obtain t m where f: "f = \<lparr> meta_content_type = t, meta_metadata = m \<rparr>"
    by (metis SessionMetadataFrame.surjective old.unit.exhaust)
  show ?thesis
  proof (cases "5 \<le> length p")
    case True
    then obtain a b c d e ys where p: "p = a # b # c # d # e # ys"
      using length_ge_5 by blast
    define n :: u32 where "n = from_le [b, c, d, e]"
    then have n: "le_bytes 4 n = [b, c, d, e]"
      using from_le_u32 by blast
    have "5 + unat a + unat n \<le> usize_max"
      using unat_u8_less [of a] unat_u32_less [of n] by (simp add: usize_max_def del: unat_u8_less unat_u32_less)
    then have "Option.bind (checked_add_usize 5 (unat a)) (\<lambda>v. checked_add_usize v (unat n)) = Some (5 + unat a + unat n)"
      by (simp add: bind_eq_Some_conv)
    moreover have "drop (5 + unat a) (a # b # c # d # e # ys) = drop (unat a) ys"
      by (simp add: add.commute [of 5] flip: drop_drop)
    ultimately have parse: "SessionMetadataFrame_parse p limits = Inr f \<longleftrightarrow> unat a \<noteq> 0 \<and>
        unat n \<le> max_session_metadata_bytes limits \<and> length ys = unat a + unat n \<and>
        t = take (unat a) ys \<and> utf8_valid t \<and> m = drop (unat a) ys"
      unfolding f p SessionMetadataFrame_parse_def Let_def
      by (auto simp: slice_def check_session_metadata_bytes_def not_less n_def [symmetric] simp del: from_le.simps)
    have p': "p = [a] @ le_bytes 4 n @ ys"
      by (simp add: p n)
    have "[l] @ le_bytes 4 k @ t @ m = p \<longleftrightarrow> l = a \<and> k = n \<and> ys = t @ m" for l :: u8 and k :: u32
      unfolding p' by (auto simp: le_bytes_inj)
    then have "SessionMetadataFrame_to_bytes f limits = Inr p \<longleftrightarrow> t \<noteq> [] \<and> unat a = length t \<and>
        length m \<le> max_session_metadata_bytes limits \<and> unat n = length m \<and> ys = t @ m"
      unfolding f SessionMetadataFrame_to_bytes_def
      by (auto simp: bindR_eq_Inr word_of_usize_Some check_session_metadata_bytes_def simp del: append_Cons)
    then show ?thesis
      unfolding parse by (auto simp: f)
  next
    case False
    then show ?thesis
      by (auto simp: SessionMetadataFrame_parse_def SessionMetadataFrame_to_bytes_def bindR_eq_Inr)
  qed
qed

text \<open>
  (C30) Session frames on the wire.  For each of the six session-control payloads the parser returns
  a frame exactly when the serializer turns that frame into the given bytes; the only frames it
  never returns are those that break a type invariant of the code, an identifier of 16 bytes or a
  text of valid UTF-8.  In particular no payload has two readings and no frame has two encodings.
\<close>

theorem session_frames_exact:
  "(SessionInitFrame_parse p = Inr f1 \<longleftrightarrow> SessionInitFrame_to_bytes f1 = Inr p \<and> length (init_session_uuid f1) = 16) \<and>
   (SessionResumeFrame_parse p = Inr f2 \<longleftrightarrow> SessionResumeFrame_to_bytes f2 = p \<and> length (resume_session_uuid f2) = 16) \<and>
   (SessionStatusFrame_parse p limits = Inr f3 \<longleftrightarrow> SessionStatusFrame_to_bytes f3 limits = Inr p) \<and>
   (SessionAckFrame_parse p = Inr f4 \<longleftrightarrow> SessionAckFrame_to_bytes f4 = Inr p) \<and>
   (SessionMetadataFrame_parse p limits = Inr f5 \<longleftrightarrow>
      SessionMetadataFrame_to_bytes f5 limits = Inr p \<and> utf8_valid (meta_content_type f5)) \<and>
   (SessionCapabilitiesFrame_parse p = Inr f6 \<longleftrightarrow> SessionCapabilitiesFrame_to_bytes f6 = Inr p)"
  by (simp only: SessionInitFrame_exact SessionResumeFrame_exact SessionStatusFrame_exact SessionAckFrame_exact
      SessionMetadataFrame_exact SessionCapabilitiesFrame_exact simp_thms)

end
