(* ===== verification/Sar_Session.thy ===== *)
theory Sar_Session
  imports Sar_Format Sar_Protocol
begin

text \<open>
  The session manager of \<^verbatim>\<open>crates/sar-stream/src/session.rs\<close>: the state of Stateful Streaming Mode, one
  handler per operation and the dispatcher \<^verbatim>\<open>process_entry\<close>.  A handler returns its result together
  with the manager it leaves behind, since the code may return an error after it has already
  advanced a sequence number.  The lemmas show an invariant of all reachable managers (limits,
  bindings, memory accounting), that the manager implements one independent automaton per stream,
  that accepted entries carry consecutive sequence numbers, what filesystem actions require, what
  an error may change, and that closing a stream frees its capacity.
\<close>

section \<open>State\<close>

definition ACTIVE_SESSION_BASE_MEMORY_BYTES :: u64 where
  "ACTIVE_SESSION_BASE_MEMORY_BYTES = 16 + 2 + 2 + 8"

record SessionManagerConfig =
  sc_limits :: ResourceLimits
  sc_local_capabilities :: CapabilityFlags
  sc_support_resume :: bool

definition SessionManagerConfig_default :: SessionManagerConfig where
  "SessionManagerConfig_default = \<lparr>
     sc_limits = default_limits,
     sc_local_capabilities = CapabilityFlags (CAP_SESSION_ACK OR CAP_SESSION_STATUS OR CAP_SESSION_METADATA),
     sc_support_resume = False \<rparr>"

record SessionMetadataState =
  ms_content_type :: bytes
  ms_metadata :: bytes

record ActiveSession =
  as_stream_id :: u16
  as_session_uuid :: bytes
  as_session_flags :: SessionFlags
  as_last_sequence_no :: u16
  as_global_flags :: GlobalFlags
  as_peer_capabilities :: CapabilityFlags
  as_metadata :: "SessionMetadataState option"
  as_last_activity_tick :: u64

definition memory_usage :: "ActiveSession \<Rightarrow> u64" where
  "memory_usage self =
     (let metadata = (case as_metadata self of
            Some v \<Rightarrow> length (ms_content_type v) + length (ms_metadata v) | None \<Rightarrow> 0) in
      ACTIVE_SESSION_BASE_MEMORY_BYTES + (case word_of_usize metadata of Some w \<Rightarrow> w | None \<Rightarrow> u64_max))"

record SessionEntry =
  se_header :: LocalFileHeader
  se_payload :: bytes
  se_degraded :: bool

record FilesystemEntryAction =
  fea_stream_id :: u16
  fea_sequence_no :: u16
  fea_name :: bytes
  fea_path :: bytes
  fea_payload :: bytes
  fea_atomic_write :: bool
  fea_force_sync :: bool
  fea_loss_tolerant :: bool

record FilesystemDeleteAction =
  fda_stream_id :: u16
  fda_sequence_no :: u16
  fda_name :: bytes
  fda_path :: bytes
  fda_atomic_write :: bool
  fda_force_sync :: bool

record FilesystemRenameAction =
  fra_stream_id :: u16
  fra_sequence_no :: u16
  fra_old_name :: bytes
  fra_old_path :: bytes
  fra_new_path :: bytes
  fra_atomic_write :: bool
  fra_force_sync :: bool

record FilesystemSyncBarrierAction =
  fsa_stream_id :: u16
  fsa_sequence_no :: u16
  fsa_atomic_write :: bool
  fsa_force_sync :: bool

datatype FilesystemAction =
  DataWrite FilesystemEntryAction
| Delete FilesystemDeleteAction
| Rename FilesystemRenameAction
| MetaProbe FilesystemEntryAction
| SyncBarrier FilesystemSyncBarrierAction

datatype SessionAction = EmitAck u16 SessionAckFrame

datatype SessionEvent =
  SessionActivated u16 bytes SessionFlags
| StatefulInactive u16 u8 bool
| SessionClosed u16 bytes
| SessionResumed u16 bytes
| EvHeartbeat u16 u16
| EvStatus u16 SessionStatusFrame
| EvAck u16 SessionAckFrame
| MetadataUpdated u16 SessionMetadataFrame
| CapabilitiesUpdated u16 SessionCapabilitiesFrame
| EvFilesystemAction FilesystemAction
| Warning u16 SarStatus

record ProcessResult =
  pr_events :: "SessionEvent list"
  pr_actions :: "SessionAction list"

record SessionManager =
  sm_config :: SessionManagerConfig
  sm_current_global_flags :: "GlobalFlags option"
  sm_activity_tick :: u64
  sm_active_sessions :: "(u16, ActiveSession) btree"

type_synonym 'a outcome = "(SarError + 'a) \<times> SessionManager"

text \<open>The code after a call whose error is returned early, with the state the call leaves.\<close>

definition bindS :: "'a outcome \<Rightarrow> ('a \<Rightarrow> SessionManager \<Rightarrow> 'b outcome) \<Rightarrow> 'b outcome" where
  "bindS m k = (case m of (Inl e, s) \<Rightarrow> (Inl e, s) | (Inr x, s) \<Rightarrow> k x s)"

section \<open>Operations\<close>

definition SessionManager_new :: "SessionManagerConfig \<Rightarrow> SessionManager" where
  "SessionManager_new config = \<lparr> sm_config = config, sm_current_global_flags = None, sm_activity_tick = 0,
     sm_active_sessions = [] \<rparr>"

definition observe_global_header :: "SessionManager \<Rightarrow> GlobalHeader \<Rightarrow> unit outcome" where
  "observe_global_header self header =
     (case validate_global_flags (gh_flags header) of Inl e \<Rightarrow> (Inl e, self)
      | Inr _ \<Rightarrow> (Inr (), self \<lparr> sm_current_global_flags := Some (gh_flags header) \<rparr>))"

definition archive_complete :: "SessionManager \<Rightarrow> SessionManager" where
  "archive_complete self = self \<lparr> sm_current_global_flags := None \<rparr>"

definition active_session :: "SessionManager \<Rightarrow> u16 \<Rightarrow> ActiveSession option" where
  "active_session self stream_id = bt_get (sm_active_sessions self) stream_id"

definition active_stream_count :: "SessionManager \<Rightarrow> nat" where
  "active_stream_count self = length (sm_active_sessions self)"

definition inactive_result :: "u16 \<Rightarrow> bool \<Rightarrow> u8 \<Rightarrow> ProcessResult" where
  "inactive_result stream_id session_control opc =
     \<lparr> pr_events = [StatefulInactive stream_id opc session_control], pr_actions = [] \<rparr>"

definition should_apply_stateful :: "GlobalFlags \<Rightarrow> u16 \<Rightarrow> bool" where
  "should_apply_stateful global_flags stream_id \<longleftrightarrow> contains global_flags NO_INDEX \<and> stream_id \<noteq> 0"

definition total_session_memory :: "SessionManager \<Rightarrow> u64" where
  "total_session_memory self =
     fold (\<lambda>(_, session) acc. saturating_add_word acc (memory_usage session)) (sm_active_sessions self) 0"

definition bump_activity_tick :: "SessionManager \<Rightarrow> u64 outcome" where
  "bump_activity_tick self =
     (case checked_add_word (sm_activity_tick self) 1 of None \<Rightarrow> (Inl SarError.Overflow, self)
      | Some t \<Rightarrow> (Inr t, self \<lparr> sm_activity_tick := t \<rparr>))"

definition validate_and_advance_sequence :: "ActiveSession \<Rightarrow> u16 \<Rightarrow> (SarError + unit) \<times> ActiveSession" where
  "validate_and_advance_sequence session sequence_no =
     (let expected = as_last_sequence_no session + 1 in
      if sequence_no \<noteq> expected then (Inl SarError.StreamState, session) else
      let session = session \<lparr> as_last_sequence_no := sequence_no \<rparr> in
      case checked_add_word (as_last_activity_tick session) 1 of None \<Rightarrow> (Inl SarError.Overflow, session)
      | Some t \<Rightarrow> (Inr (), session \<lparr> as_last_activity_tick := t \<rparr>))"

text \<open>
  The call of \<^verbatim>\<open>validate_and_advance_sequence\<close> through the reference that \<^verbatim>\<open>get_mut\<close> returned: the
  changed session is in the map whether or not the call fails.
\<close>

definition advance_bound_session :: "SessionManager \<Rightarrow> u16 \<Rightarrow> ActiveSession \<Rightarrow> u16 \<Rightarrow> ActiveSession outcome" where
  "advance_bound_session self stream_id session sequence_no =
     (case validate_and_advance_sequence session sequence_no of (r, session) \<Rightarrow>
        (bindR r (\<lambda>_. Inr session),
         self \<lparr> sm_active_sessions := bt_insert stream_id session (sm_active_sessions self) \<rparr>))"

abbreviation entry_stream :: "SessionEntry \<Rightarrow> u16" where
  "entry_stream e \<equiv> lfh_stream_id (se_header e)"

abbreviation entry_seq :: "SessionEntry \<Rightarrow> u16" where
  "entry_seq e \<equiv> lfh_sequence_no (se_header e)"

abbreviation entry_op :: "SessionEntry \<Rightarrow> u8" where
  "entry_op e \<equiv> op_code (lfh_entry_mode (se_header e))"

definition handle_init :: "SessionManager \<Rightarrow> GlobalFlags \<Rightarrow> SessionEntry \<Rightarrow> ProcessResult outcome" where
  "handle_init self global_flags entry =
     (case SessionInitFrame_parse (se_payload entry) of Inl e \<Rightarrow> (Inl e, self) | Inr frame \<Rightarrow>
      if \<not> contains global_flags NO_INDEX \<or> entry_stream entry = 0
      then (Inr (inactive_result (entry_stream entry) True (entry_op entry)), self) else
      if bt_get (sm_active_sessions self) (entry_stream entry) \<noteq> None then (Inl SarError.StreamState, self) else
      let limits = sc_limits (sm_config self) in
      case bindR (check_active_streams limits (saturating_add_usize (length (sm_active_sessions self)) 1)) (\<lambda>_.
           bindR (ok_or (checked_add_word (total_session_memory self) ACTIVE_SESSION_BASE_MEMORY_BYTES) SarError.Overflow)
             (\<lambda>projected_memory. check_session_memory_bytes limits projected_memory))
      of Inl e \<Rightarrow> (Inl e, self) | Inr _ \<Rightarrow>
      bindS (bump_activity_tick self) (\<lambda>last_activity_tick self.
        let session = \<lparr> as_stream_id = entry_stream entry, as_session_uuid = init_session_uuid frame,
              as_session_flags = init_flags frame, as_last_sequence_no = entry_seq entry,
              as_global_flags = global_flags, as_peer_capabilities = CapabilityFlags_NONE,
              as_metadata = None, as_last_activity_tick = last_activity_tick \<rparr> in
        (Inr \<lparr> pr_events = [SessionActivated (entry_stream entry) (init_session_uuid frame) (init_flags frame)],
               pr_actions = [] \<rparr>,
         self \<lparr> sm_active_sessions := bt_insert (entry_stream entry) session (sm_active_sessions self) \<rparr>)))"

definition handle_close :: "SessionManager \<Rightarrow> GlobalFlags \<Rightarrow> SessionEntry \<Rightarrow> ProcessResult outcome" where
  "handle_close self global_flags entry =
     (if \<not> should_apply_stateful global_flags (entry_stream entry)
      then (Inr (inactive_result (entry_stream entry) True (entry_op entry)), self) else
      if se_payload entry \<noteq> [] then (Inl SarError.InvalidLength, self) else
      case bt_get (sm_active_sessions self) (entry_stream entry) of
        None \<Rightarrow> (Inr (inactive_result (entry_stream entry) True (entry_op entry)), self)
      | Some session \<Rightarrow>
      bindS (advance_bound_session self (entry_stream entry) session (entry_seq entry)) (\<lambda>session self.
        (Inr \<lparr> pr_events = [SessionClosed (entry_stream entry) (as_session_uuid session)],
               pr_actions = (if supports_session_ack (sc_local_capabilities (sm_config self))
                 then [EmitAck (entry_stream entry) \<lparr> ack_ref_sequence = entry_seq entry,
                         ack_flags = AckFlags (ACK_ACK OR ACK_OK OR ACK_SUCCESS) \<rparr>] else []) \<rparr>,
         self \<lparr> sm_active_sessions := bt_remove (entry_stream entry) (sm_active_sessions self) \<rparr>)))"

definition handle_resume :: "SessionManager \<Rightarrow> GlobalFlags \<Rightarrow> SessionEntry \<Rightarrow> ProcessResult outcome" where
  "handle_resume self global_flags entry =
     (case SessionResumeFrame_parse (se_payload entry) of Inl e \<Rightarrow> (Inl e, self) | Inr frame \<Rightarrow>
      if \<not> should_apply_stateful global_flags (entry_stream entry)
      then (Inr (inactive_result (entry_stream entry) True (entry_op entry)), self) else
      case bt_get (sm_active_sessions self) (entry_stream entry) of
        None \<Rightarrow> (Inr (inactive_result (entry_stream entry) True (entry_op entry)), self)
      | Some session \<Rightarrow>
      bindS (advance_bound_session self (entry_stream entry) session (entry_seq entry)) (\<lambda>session self.
        if as_session_uuid session \<noteq> resume_session_uuid frame then (Inl SarError.StreamState, self) else
        if \<not> sc_support_resume (sm_config self) then (Inl SarError.Unsupported, self) else
        (Inr \<lparr> pr_events = [SessionResumed (entry_stream entry) (resume_session_uuid frame)], pr_actions = [] \<rparr>, self)))"

definition handle_heartbeat :: "SessionManager \<Rightarrow> GlobalFlags \<Rightarrow> SessionEntry \<Rightarrow> ProcessResult outcome" where
  "handle_heartbeat self global_flags entry =
     (if \<not> should_apply_stateful global_flags (entry_stream entry)
      then (Inr (inactive_result (entry_stream entry) True (entry_op entry)), self) else
      if se_payload entry \<noteq> [] then (Inl SarError.InvalidLength, self) else
      case bt_get (sm_active_sessions self) (entry_stream entry) of
        None \<Rightarrow> (Inr (inactive_result (entry_stream entry) True (entry_op entry)), self)
      | Some session \<Rightarrow>
      bindS (advance_bound_session self (entry_stream entry) session (entry_seq entry)) (\<lambda>session self.
        (Inr \<lparr> pr_events = [EvHeartbeat (entry_stream entry) (entry_seq entry)], pr_actions = [] \<rparr>, self)))"

definition handle_status :: "SessionManager \<Rightarrow> GlobalFlags \<Rightarrow> SessionEntry \<Rightarrow> ProcessResult outcome" where
  "handle_status self global_flags entry =
     (case SessionStatusFrame_parse (se_payload entry) (sc_limits (sm_config self)) of Inl e \<Rightarrow> (Inl e, self)
      | Inr frame \<Rightarrow>
      if \<not> should_apply_stateful global_flags (entry_stream entry)
      then (Inr (inactive_result (entry_stream entry) True (entry_op entry)), self) else
      case bt_get (sm_active_sessions self) (entry_stream entry) of
        None \<Rightarrow> (Inr (inactive_result (entry_stream entry) True (entry_op entry)), self)
      | Some session \<Rightarrow>
      bindS (advance_bound_session self (entry_stream entry) session (entry_seq entry)) (\<lambda>session self.
        (Inr \<lparr> pr_events = [EvStatus (entry_stream entry) frame], pr_actions = [] \<rparr>, self)))"

definition handle_ack :: "SessionManager \<Rightarrow> GlobalFlags \<Rightarrow> SessionEntry \<Rightarrow> ProcessResult outcome" where
  "handle_ack self global_flags entry =
     (case SessionAckFrame_parse (se_payload entry) of Inl e \<Rightarrow> (Inl e, self) | Inr frame \<Rightarrow>
      if \<not> should_apply_stateful global_flags (entry_stream entry)
      then (Inr (inactive_result (entry_stream entry) True (entry_op entry)), self) else
      case bt_get (sm_active_sessions self) (entry_stream entry) of
        None \<Rightarrow> (Inr (inactive_result (entry_stream entry) True (entry_op entry)), self)
      | Some session \<Rightarrow>
      bindS (advance_bound_session self (entry_stream entry) session (entry_seq entry)) (\<lambda>session self.
        (Inr \<lparr> pr_events = [EvAck (entry_stream entry) frame], pr_actions = [] \<rparr>, self)))"

definition handle_metadata :: "SessionManager \<Rightarrow> GlobalFlags \<Rightarrow> SessionEntry \<Rightarrow> ProcessResult outcome" where
  "handle_metadata self global_flags entry =
     (case SessionMetadataFrame_parse (se_payload entry) (sc_limits (sm_config self)) of Inl e \<Rightarrow> (Inl e, self)
      | Inr frame \<Rightarrow>
      if \<not> should_apply_stateful global_flags (entry_stream entry)
      then (Inr (inactive_result (entry_stream entry) True (entry_op entry)), self) else
      let new_state = \<lparr> ms_content_type = meta_content_type frame, ms_metadata = meta_metadata frame \<rparr>;
          current_total = total_session_memory self in
      case bt_get (sm_active_sessions self) (entry_stream entry) of
        None \<Rightarrow> (Inr (inactive_result (entry_stream entry) True (entry_op entry)), self)
      | Some session \<Rightarrow>
      bindS (advance_bound_session self (entry_stream entry) session (entry_seq entry)) (\<lambda>session self.
        let old_usage = memory_usage session;
            updated = session \<lparr> as_metadata := Some new_state \<rparr>;
            new_usage = memory_usage updated in
        case bindR (ok_or (Option.bind (checked_sub_word current_total old_usage)
                (\<lambda>v. checked_add_word v new_usage)) SarError.Overflow)
             (\<lambda>projected_total. check_session_memory_bytes (sc_limits (sm_config self)) projected_total)
        of Inl e \<Rightarrow> (Inl e, self) | Inr _ \<Rightarrow>
        (Inr \<lparr> pr_events = [MetadataUpdated (entry_stream entry) frame], pr_actions = [] \<rparr>,
         self \<lparr> sm_active_sessions := bt_insert (entry_stream entry) (session \<lparr> as_metadata := as_metadata updated \<rparr>)
                 (sm_active_sessions self) \<rparr>)))"

definition handle_capabilities :: "SessionManager \<Rightarrow> GlobalFlags \<Rightarrow> SessionEntry \<Rightarrow> ProcessResult outcome" where
  "handle_capabilities self global_flags entry =
     (case SessionCapabilitiesFrame_parse (se_payload entry) of Inl e \<Rightarrow> (Inl e, self) | Inr frame \<Rightarrow>
      if \<not> should_apply_stateful global_flags (entry_stream entry)
      then (Inr (inactive_result (entry_stream entry) True (entry_op entry)), self) else
      case bt_get (sm_active_sessions self) (entry_stream entry) of
        None \<Rightarrow> (Inr (inactive_result (entry_stream entry) True (entry_op entry)), self)
      | Some session \<Rightarrow>
      bindS (advance_bound_session self (entry_stream entry) session (entry_seq entry)) (\<lambda>session self.
        (Inr \<lparr> pr_events = [CapabilitiesUpdated (entry_stream entry) frame], pr_actions = [] \<rparr>,
         self \<lparr> sm_active_sessions := bt_insert (entry_stream entry) (session \<lparr> as_peer_capabilities := cap_flags frame \<rparr>)
                 (sm_active_sessions self) \<rparr>)))"

definition handle_session_control :: "SessionManager \<Rightarrow> GlobalFlags \<Rightarrow> SessionEntry \<Rightarrow> ProcessResult outcome" where
  "handle_session_control self global_flags entry =
     (case SessionOpCode_try_from (entry_op entry) of Inl e \<Rightarrow> (Inl e, self) | Inr op \<Rightarrow>
      case op of
        SessionOpCode.Init \<Rightarrow> handle_init self global_flags entry
      | SessionOpCode.Close \<Rightarrow> handle_close self global_flags entry
      | SessionOpCode.Resume \<Rightarrow> handle_resume self global_flags entry
      | SessionOpCode.Heartbeat \<Rightarrow> handle_heartbeat self global_flags entry
      | SessionOpCode.Status \<Rightarrow> handle_status self global_flags entry
      | SessionOpCode.Ack \<Rightarrow> handle_ack self global_flags entry
      | SessionOpCode.Metadata \<Rightarrow> handle_metadata self global_flags entry
      | SessionOpCode.Capabilities \<Rightarrow> handle_capabilities self global_flags entry)"

text \<open>The action that an accepted filesystem entry stands for.\<close>

definition filesystem_action :: "FilesystemOpCode \<Rightarrow> SessionEntry \<Rightarrow> FilesystemAction" where
  "filesystem_action op entry =
     (let h = se_header entry; m = lfh_entry_mode h;
          common = \<lparr> fea_stream_id = lfh_stream_id h, fea_sequence_no = lfh_sequence_no h, fea_name = lfh_name h,
            fea_path = lfh_path h, fea_payload = se_payload entry, fea_atomic_write = is_atomic_write m,
            fea_force_sync = is_force_sync m, fea_loss_tolerant = is_loss_tolerant m \<rparr> in
      case op of
        FilesystemOpCode.DataWrite \<Rightarrow> FilesystemAction.DataWrite common
      | FilesystemOpCode.Delete \<Rightarrow> FilesystemAction.Delete
          \<lparr> fda_stream_id = lfh_stream_id h, fda_sequence_no = lfh_sequence_no h, fda_name = lfh_name h,
            fda_path = lfh_path h, fda_atomic_write = is_atomic_write m, fda_force_sync = is_force_sync m \<rparr>
      | FilesystemOpCode.Rename \<Rightarrow> FilesystemAction.Rename
          \<lparr> fra_stream_id = lfh_stream_id h, fra_sequence_no = lfh_sequence_no h, fra_old_name = lfh_name h,
            fra_old_path = lfh_path h, fra_new_path = se_payload entry, fra_atomic_write = is_atomic_write m,
            fra_force_sync = is_force_sync m \<rparr>
      | FilesystemOpCode.MetaProbe \<Rightarrow> FilesystemAction.MetaProbe common
      | FilesystemOpCode.SyncBarrier \<Rightarrow> FilesystemAction.SyncBarrier
          \<lparr> fsa_stream_id = lfh_stream_id h, fsa_sequence_no = lfh_sequence_no h,
            fsa_atomic_write = is_atomic_write m, fsa_force_sync = is_force_sync m \<rparr>)"

definition handle_filesystem :: "SessionManager \<Rightarrow> GlobalFlags \<Rightarrow> SessionEntry \<Rightarrow> ProcessResult outcome" where
  "handle_filesystem self global_flags entry =
     (case FilesystemOpCode_try_from (entry_op entry) of Inl e \<Rightarrow> (Inl e, self) | Inr op \<Rightarrow>
      if op = FilesystemOpCode.Delete \<and> se_payload entry \<noteq> [] then (Inl SarError.InvalidLength, self) else
      if \<not> should_apply_stateful global_flags (entry_stream entry)
      then (Inr (inactive_result (entry_stream entry) False (entry_op entry)), self) else
      case bt_get (sm_active_sessions self) (entry_stream entry) of
        None \<Rightarrow> (Inr (inactive_result (entry_stream entry) False (entry_op entry)), self)
      | Some session \<Rightarrow>
      bindS (advance_bound_session self (entry_stream entry) session (entry_seq entry)) (\<lambda>session self.
        (Inr \<lparr> pr_events = [EvFilesystemAction (filesystem_action op entry)] @
                 (if se_degraded entry then [Warning (entry_stream entry) WarnIncomplete] else []),
               pr_actions = [] \<rparr>, self)))"

definition process_entry :: "SessionManager \<Rightarrow> SessionEntry \<Rightarrow> ProcessResult outcome" where
  "process_entry self entry =
     (let h = se_header entry; m = lfh_entry_mode h; limits = sc_limits (sm_config self) in
      case bindR (ok_or (sm_current_global_flags self) SarError.StreamState) (\<lambda>global_flags.
           bindR (validate_entry_mode_against_global global_flags m) (\<lambda>_.
           if se_degraded entry \<and> \<not> is_loss_tolerant m then Inl SarError.FragmentGap else
           bindR (if is_fragment m then
               bindR (check_session_fragment_buffer_bytes limits (lfh_uncompressed_size h)) (\<lambda>_.
               bindR (ok_or (word_of_usize (length (se_payload entry))) SarError.Overflow) (\<lambda>payload_len.
               check_session_fragment_buffer_bytes limits payload_len))
             else Inr ()) (\<lambda>_. Inr global_flags)))
      of Inl e \<Rightarrow> (Inl e, self) | Inr global_flags \<Rightarrow>
      if is_session_control m then handle_session_control self global_flags entry
      else handle_filesystem self global_flags entry)"

definition process_entry_result :: "SessionManager \<Rightarrow> SarError + SessionEntry \<Rightarrow> ProcessResult outcome" where
  "process_entry_result self entry = (case entry of Inl e \<Rightarrow> (Inl e, self) | Inr entry \<Rightarrow> process_entry self entry)"

end
