(* ===== verification/Sar_Session_Laws.thy ===== *)
theory Sar_Session_Laws
  imports Sar_Session
begin

text \<open>
  Properties of the session manager of theory \<open>Sar_Session\<close>.  The step relation \<open>session_step\<close> lists
  what processing an entry can do to a manager; every handler is shown to follow it, and the
  invariant, the simulation by one automaton per stream and the ordering of sequence numbers are
  proved by case analysis and rule induction over it.
\<close>

section \<open>Steps\<close>

lemma bt_insert_same: "bt_ok m \<Longrightarrow> bt_get m k = Some v \<Longrightarrow> bt_insert k v m = m"
  by (induction k v m rule: bt_insert.induct) (fastforce simp: bt_ok_def bt_get_def dest: map_of_SomeD split: if_splits)+

lemma bt_insert_twice [simp]: "bt_insert k v (bt_insert k w m) = bt_insert k v m"
  by (induction k w m rule: bt_insert.induct) auto

lemma bt_remove_insert [simp]: "bt_remove k (bt_insert k w m) = bt_remove k m"
  by (induction k w m rule: bt_insert.induct) (auto simp: bt_remove_def)

text \<open>The events of an accepted entry that changes nothing but the position in the stream.\<close>

definition plain_events :: "SessionEntry \<Rightarrow> SessionEvent list \<Rightarrow> bool" where
  "plain_events e evs \<longleftrightarrow>
     (\<exists>u. evs = [SessionResumed (entry_stream e) u]) \<or> evs = [EvHeartbeat (entry_stream e) (entry_seq e)] \<or>
     (\<exists>f. evs = [EvStatus (entry_stream e) f]) \<or> (\<exists>f. evs = [EvAck (entry_stream e) f]) \<or>
     (\<exists>op. FilesystemOpCode_try_from (entry_op e) = Inr op \<and> \<not> is_session_control (lfh_entry_mode (se_header e)) \<and>
        evs = EvFilesystemAction (filesystem_action op e) #
          (if se_degraded e then [Warning (entry_stream e) WarnIncomplete] else []))"

text \<open>\<open>bound m e s\<close>: stateful processing applies to \<open>e\<close>, whose stream is bound to \<open>s\<close>, and \<open>e\<close> is the next entry.\<close>

definition bound :: "SessionManager \<Rightarrow> SessionEntry \<Rightarrow> ActiveSession \<Rightarrow> bool" where
  "bound m e s \<longleftrightarrow> (\<exists>gf. sm_current_global_flags m = Some gf \<and> contains gf NO_INDEX) \<and> entry_stream e \<noteq> 0 \<and>
     bt_get (sm_active_sessions m) (entry_stream e) = Some s \<and> entry_seq e = as_last_sequence_no s + 1"

definition advanced :: "SessionEntry \<Rightarrow> u64 \<Rightarrow> ActiveSession \<Rightarrow> ActiveSession" where
  "advanced e t s = s \<lparr> as_last_sequence_no := entry_seq e, as_last_activity_tick := t \<rparr>"

definition rebind :: "SessionEntry \<Rightarrow> ActiveSession \<Rightarrow> SessionManager \<Rightarrow> SessionManager" where
  "rebind e s m = m \<lparr> sm_active_sessions := bt_insert (entry_stream e) s (sm_active_sessions m) \<rparr>"

definition fresh_session :: "SessionEntry \<Rightarrow> SessionInitFrame \<Rightarrow> GlobalFlags \<Rightarrow> u64 \<Rightarrow> ActiveSession" where
  "fresh_session e frame gf t = \<lparr> as_stream_id = entry_stream e, as_session_uuid = init_session_uuid frame,
     as_session_flags = init_flags frame, as_last_sequence_no = entry_seq e, as_global_flags = gf,
     as_peer_capabilities = CapabilityFlags_NONE, as_metadata = None, as_last_activity_tick = t \<rparr>"

inductive session_step :: "SessionManager \<Rightarrow> SessionEntry \<Rightarrow> SarError + ProcessResult \<Rightarrow> SessionManager \<Rightarrow> bool" where
  reject: "session_step m e (Inl err) m"
| inactive: "session_step m e (Inr (inactive_result (entry_stream e) c (entry_op e))) m"
| activate: "sm_current_global_flags m = Some gf \<Longrightarrow> contains gf NO_INDEX \<Longrightarrow> entry_stream e \<noteq> 0 \<Longrightarrow>
    SessionInitFrame_parse (se_payload e) = Inr frame \<Longrightarrow>
    bt_get (sm_active_sessions m) (entry_stream e) = None \<Longrightarrow>
    min (length (sm_active_sessions m) + 1) usize_max \<le> max_active_streams (sc_limits (sm_config m)) \<Longrightarrow>
    unat (total_session_memory m) + 28 \<le> unat (max_session_memory_bytes (sc_limits (sm_config m))) \<Longrightarrow>
    session_step m e
      (Inr \<lparr> pr_events = [SessionActivated (entry_stream e) (init_session_uuid frame) (init_flags frame)], pr_actions = [] \<rparr>)
      (rebind e (fresh_session e frame gf t) (m \<lparr> sm_activity_tick := t \<rparr>))"
| close: "bound m e s \<Longrightarrow>
    session_step m e (Inr \<lparr> pr_events = [SessionClosed (entry_stream e) (as_session_uuid s)], pr_actions = acts \<rparr>)
      (m \<lparr> sm_active_sessions := bt_remove (entry_stream e) (sm_active_sessions m) \<rparr>)"
| late_reject: "bound m e s \<Longrightarrow> session_step m e (Inl err) (rebind e (advanced e t s) m)"
| plain: "bound m e s \<Longrightarrow> plain_events e evs \<Longrightarrow>
    session_step m e (Inr \<lparr> pr_events = evs, pr_actions = [] \<rparr>) (rebind e (advanced e t s) m)"
| metadata: "bound m e s \<Longrightarrow>
    SessionMetadataFrame_parse (se_payload e) (sc_limits (sm_config m)) = Inr frame \<Longrightarrow>
    s' = advanced e t s \<lparr> as_metadata := Some \<lparr> ms_content_type = meta_content_type frame, ms_metadata = meta_metadata frame \<rparr> \<rparr> \<Longrightarrow>
    memory_usage s \<le> total_session_memory m \<Longrightarrow>
    unat (total_session_memory m) - unat (memory_usage s) + unat (memory_usage s')
      \<le> unat (max_session_memory_bytes (sc_limits (sm_config m))) \<Longrightarrow>
    session_step m e (Inr \<lparr> pr_events = [MetadataUpdated (entry_stream e) frame], pr_actions = [] \<rparr>) (rebind e s' m)"
| capabilities: "bound m e s \<Longrightarrow> SessionCapabilitiesFrame_parse (se_payload e) = Inr frame \<Longrightarrow>
    session_step m e (Inr \<lparr> pr_events = [CapabilitiesUpdated (entry_stream e) frame], pr_actions = [] \<rparr>)
      (rebind e (advanced e t s \<lparr> as_peer_capabilities := cap_flags frame \<rparr>) m)"

lemma advance_cases:
  assumes "advance_bound_session m (entry_stream e) s (entry_seq e) = (r, m')"
    and "bt_ok (sm_active_sessions m)" "bt_get (sm_active_sessions m) (entry_stream e) = Some s"
  obtains (mismatch) "r = Inl SarError.StreamState" "m' = m" "entry_seq e \<noteq> as_last_sequence_no s + 1"
  | (tick_overflow) "r = Inl SarError.Overflow" "entry_seq e = as_last_sequence_no s + 1"
      "m' = rebind e (advanced e (as_last_activity_tick s) s) m"
      "checked_add_word (as_last_activity_tick s) 1 = None"
  | (ok) t where "r = Inr (advanced e t s)" "entry_seq e = as_last_sequence_no s + 1" "m' = rebind e (advanced e t s) m"
      "checked_add_word (as_last_activity_tick s) 1 = Some t"
proof (cases "entry_seq e = as_last_sequence_no s + 1")
  case False
  then have "r = Inl SarError.StreamState" "m' = m"
    using assms by (auto simp: advance_bound_session_def validate_and_advance_sequence_def bt_insert_same)
  with False show ?thesis
    by (rule mismatch [rotated 2])
next
  case True
  then show ?thesis
  proof (cases "checked_add_word (as_last_activity_tick s) 1")
    case None
    then show ?thesis
      using assms(1) True
      by (intro tick_overflow)
        (auto simp: advance_bound_session_def validate_and_advance_sequence_def rebind_def advanced_def)
  next
    case (Some t)
    then show ?thesis
      using assms(1) True
      by (intro ok [of t])
        (auto simp: advance_bound_session_def validate_and_advance_sequence_def rebind_def advanced_def)
  qed
qed

text \<open>The part all handlers share: find the bound session, check and advance its position, go on.\<close>

lemma bound_case_step:
  assumes "sm_current_global_flags m = Some gf" "bt_ok (sm_active_sessions m)"
    and "should_apply_stateful gf (entry_stream e)"
    and "(case bt_get (sm_active_sessions m) (entry_stream e) of
        None \<Rightarrow> (Inr (inactive_result (entry_stream e) c (entry_op e)), m)
      | Some s \<Rightarrow> bindS (advance_bound_session m (entry_stream e) s (entry_seq e)) K) = (r, m')"
    and "\<And>s t. bound m e s \<Longrightarrow> K (advanced e t s) (rebind e (advanced e t s) m) = (r, m') \<Longrightarrow> session_step m e r m'"
  shows "session_step m e r m'"
proof (cases "bt_get (sm_active_sessions m) (entry_stream e)")
  case None
  then show ?thesis
    using assms(4) by (auto intro: session_step.inactive)
next
  case (Some s)
  obtain ra ma where adv: "advance_bound_session m (entry_stream e) s (entry_seq e) = (ra, ma)"
    by (cases "advance_bound_session m (entry_stream e) s (entry_seq e)")
  have bound: "bound m e s" if "entry_seq e = as_last_sequence_no s + 1"
    using assms(1,3) Some that by (auto simp: bound_def should_apply_stateful_def)
  from adv assms(2) Some show ?thesis
  proof (cases rule: advance_cases)
    case mismatch
    then show ?thesis
      using assms(4) Some adv by (auto simp: bindS_def intro: session_step.reject)
  next
    case tick_overflow
    then show ?thesis
      using assms(4) Some adv bound by (auto simp: bindS_def intro: session_step.late_reject)
  next
    case (ok t)
    then show ?thesis
      using assms(4) Some adv bound by (intro assms(5) [of s t]) (auto simp: bindS_def)
  qed
qed

lemma guarded_step:
  assumes "sm_current_global_flags m = Some gf" "bt_ok (sm_active_sessions m)"
    and "(if \<not> should_apply_stateful gf (entry_stream e) then (Inr (inactive_result (entry_stream e) c (entry_op e)), m) else
      case bt_get (sm_active_sessions m) (entry_stream e) of
        None \<Rightarrow> (Inr (inactive_result (entry_stream e) c (entry_op e)), m)
      | Some s \<Rightarrow> bindS (advance_bound_session m (entry_stream e) s (entry_seq e)) K) = (r, m')"
    and "\<And>s t. bound m e s \<Longrightarrow> K (advanced e t s) (rebind e (advanced e t s) m) = (r, m') \<Longrightarrow> session_step m e r m'"
  shows "session_step m e r m'"
proof (cases "should_apply_stateful gf (entry_stream e)")
  case True
  show ?thesis
    by (rule bound_case_step [OF assms(1,2) True _ assms(4)]) (use assms(3) True in simp_all)
next
  case False
  with assms(3) show ?thesis
    by (auto intro: session_step.inactive)
qed

lemma handle_heartbeat_step:
  assumes "sm_current_global_flags m = Some gf" "bt_ok (sm_active_sessions m)" "handle_heartbeat m gf e = (r, m')"
  shows "session_step m e r m'"
proof (cases "se_payload e = []")
  case True
  note h = assms(3) [unfolded handle_heartbeat_def True]
  show ?thesis
    by (rule guarded_step [OF assms(1,2) h [simplified not_True_eq_False if_False simp_thms]])
      (auto simp: plain_events_def intro!: session_step.plain)
next
  case False
  with assms(3) show ?thesis
    by (auto simp: handle_heartbeat_def intro: session_step.reject session_step.inactive split: if_splits)
qed

lemma handle_close_step:
  assumes "sm_current_global_flags m = Some gf" "bt_ok (sm_active_sessions m)" "handle_close m gf e = (r, m')"
  shows "session_step m e r m'"
proof (cases "se_payload e = []")
  case True
  note h = assms(3) [unfolded handle_close_def True]
  show ?thesis
    by (rule guarded_step [OF assms(1,2) h [simplified not_True_eq_False if_False simp_thms]])
      (auto simp: rebind_def advanced_def intro: session_step.close)
next
  case False
  with assms(3) show ?thesis
    by (auto simp: handle_close_def intro: session_step.reject session_step.inactive split: if_splits)
qed

lemma handle_status_step:
  assumes "sm_current_global_flags m = Some gf" "bt_ok (sm_active_sessions m)" "handle_status m gf e = (r, m')"
  shows "session_step m e r m'"
proof (cases "SessionStatusFrame_parse (se_payload e) (sc_limits (sm_config m))")
  case (Inr frame)
  show ?thesis
    by (rule guarded_step [OF assms(1,2) assms(3) [unfolded handle_status_def Inr sum.case]])
      (auto simp: plain_events_def intro!: session_step.plain)
next
  case (Inl err)
  with assms(3) show ?thesis
    by (auto simp: handle_status_def intro: session_step.reject)
qed

lemma handle_ack_step:
  assumes "sm_current_global_flags m = Some gf" "bt_ok (sm_active_sessions m)" "handle_ack m gf e = (r, m')"
  shows "session_step m e r m'"
proof (cases "SessionAckFrame_parse (se_payload e)")
  case (Inr frame)
  show ?thesis
    by (rule guarded_step [OF assms(1,2) assms(3) [unfolded handle_ack_def Inr sum.case]])
      (auto simp: plain_events_def intro!: session_step.plain)
next
  case (Inl err)
  with assms(3) show ?thesis
    by (auto simp: handle_ack_def intro: session_step.reject)
qed

lemma handle_resume_step:
  assumes "sm_current_global_flags m = Some gf" "bt_ok (sm_active_sessions m)" "handle_resume m gf e = (r, m')"
  shows "session_step m e r m'"
proof (cases "SessionResumeFrame_parse (se_payload e)")
  case (Inr frame)
  show ?thesis
    by (rule guarded_step [OF assms(1,2) assms(3) [unfolded handle_resume_def Inr sum.case]])
      (auto simp: plain_events_def intro!: session_step.plain intro: session_step.late_reject split: if_splits)
next
  case (Inl err)
  with assms(3) show ?thesis
    by (auto simp: handle_resume_def intro: session_step.reject)
qed

lemma handle_capabilities_step:
  assumes "sm_current_global_flags m = Some gf" "bt_ok (sm_active_sessions m)" "handle_capabilities m gf e = (r, m')"
  shows "session_step m e r m'"
proof (cases "SessionCapabilitiesFrame_parse (se_payload e)")
  case (Inr frame)
  show ?thesis
  proof (rule guarded_step [OF assms(1,2) assms(3) [unfolded handle_capabilities_def Inr sum.case]])
    fix s t
    assume "bound m e s"
    from session_step.capabilities [OF this Inr, of t]
    show "(Inr \<lparr> pr_events = [CapabilitiesUpdated (entry_stream e) frame], pr_actions = [] \<rparr>,
        rebind e (advanced e t s) m \<lparr> sm_active_sessions := bt_insert (entry_stream e)
          (advanced e t s \<lparr> as_peer_capabilities := cap_flags frame \<rparr>) (sm_active_sessions (rebind e (advanced e t s) m)) \<rparr>) =
        (r, m') \<Longrightarrow> session_step m e r m'"
      by (simp add: rebind_def)
  qed
next
  case (Inl err)
  with assms(3) show ?thesis
    by (auto simp: handle_capabilities_def intro: session_step.reject)
qed

lemma metadata_check:
  assumes "bindR (ok_or (Option.bind (checked_sub_word cur old) (\<lambda>v. checked_add_word v new)) SarError.Overflow)
    (check_session_memory_bytes limits) = Inr u"
  shows "old \<le> cur" "unat cur - unat old + unat new \<le> unat (max_session_memory_bytes limits)"
  using assms
  by (auto simp: bindR_eq_Inr bind_eq_Some_conv checked_sub_word_Some checked_add_word_Some
      check_session_memory_bytes_def word_le_nat_alt word_less_nat_alt unat_sub split: if_splits)

lemma memory_usage_advanced [simp]: "memory_usage (advanced e t s) = memory_usage s"
  by (simp add: memory_usage_def advanced_def)

lemma handle_metadata_step:
  assumes "sm_current_global_flags m = Some gf" "bt_ok (sm_active_sessions m)" "handle_metadata m gf e = (r, m')"
  shows "session_step m e r m'"
proof (cases "SessionMetadataFrame_parse (se_payload e) (sc_limits (sm_config m))")
  case (Inl err)
  then show ?thesis
    using assms(3) by (auto simp: handle_metadata_def intro: session_step.reject)
next
  case (Inr frame)
  let ?new = "\<lparr> ms_content_type = meta_content_type frame, ms_metadata = meta_metadata frame \<rparr>"
  let ?check = "\<lambda>s n s'. bindR (ok_or (Option.bind (checked_sub_word (total_session_memory m) (memory_usage s))
      (\<lambda>v. checked_add_word v (memory_usage s'))) SarError.Overflow)
    (check_session_memory_bytes (sc_limits (sm_config n)))"
  let ?K = "\<lambda>s n. case ?check s n (s \<lparr> as_metadata := Some ?new \<rparr>) of Inl err \<Rightarrow> (Inl err, n)
    | Inr _ \<Rightarrow> (Inr \<lparr> pr_events = [MetadataUpdated (entry_stream e) frame], pr_actions = [] \<rparr>,
         rebind e (s \<lparr> as_metadata := Some ?new \<rparr>) n)"
  have body: "handle_metadata m gf e = (case bt_get (sm_active_sessions m) (entry_stream e) of
          None \<Rightarrow> (Inr (inactive_result (entry_stream e) True (entry_op e)), m)
        | Some s \<Rightarrow> bindS (advance_bound_session m (entry_stream e) s (entry_seq e)) ?K)"
    if "should_apply_stateful gf (entry_stream e)"
    unfolding handle_metadata_def Inr Let_def rebind_def using that by (simp cong: option.case_cong sum.case_cong)
  have config: "sm_config (rebind e x n) = sm_config n" for x n
    by (simp add: rebind_def)
  show ?thesis
  proof (cases "should_apply_stateful gf (entry_stream e)")
    case True
    show ?thesis
    proof (rule bound_case_step [OF assms(1,2) True, of True ?K])
      show "(case bt_get (sm_active_sessions m) (entry_stream e) of
          None \<Rightarrow> (Inr (inactive_result (entry_stream e) True (entry_op e)), m)
        | Some s \<Rightarrow> bindS (advance_bound_session m (entry_stream e) s (entry_seq e)) ?K) = (r, m')"
        using body [OF True] assms(3) by metis
      fix s t
      assume *: "bound m e s" "?K (advanced e t s) (rebind e (advanced e t s) m) = (r, m')"
      show "session_step m e r m'"
      proof (cases "?check s m (advanced e t s \<lparr> as_metadata := Some ?new \<rparr>)")
        case (Inl err)
        then show ?thesis
          using * by (auto simp: config intro: session_step.late_reject)
      next
        case (Inr u)
        from session_step.metadata [OF *(1) \<open>_ = Inr frame\<close> refl metadata_check [OF this]] show ?thesis
          using * Inr by (auto simp: config) (auto simp: rebind_def)
      qed
    qed
  next
    case False
    then show ?thesis
      using assms(3) Inr by (auto simp: handle_metadata_def intro: session_step.inactive)
  qed
qed

lemma handle_init_step:
  assumes "sm_current_global_flags m = Some gf" "handle_init m gf e = (r, m')"
  shows "session_step m e r m'"
proof (cases "\<exists>frame. SessionInitFrame_parse (se_payload e) = Inr frame \<and> contains gf NO_INDEX \<and> entry_stream e \<noteq> 0 \<and>
    bt_get (sm_active_sessions m) (entry_stream e) = None")
  case False
  then show ?thesis
    using assms by (auto simp: handle_init_def intro: session_step.reject session_step.inactive split: sum.splits if_splits)
next
  case True
  then obtain frame where frame: "SessionInitFrame_parse (se_payload e) = Inr frame" "contains gf NO_INDEX"
    "entry_stream e \<noteq> 0" "bt_get (sm_active_sessions m) (entry_stream e) = None"
    by blast
  let ?check = "bindR (check_active_streams (sc_limits (sm_config m)) (saturating_add_usize (length (sm_active_sessions m)) 1)) (\<lambda>_.
      bindR (ok_or (checked_add_word (total_session_memory m) ACTIVE_SESSION_BASE_MEMORY_BYTES) SarError.Overflow)
        (\<lambda>projected_memory. check_session_memory_bytes (sc_limits (sm_config m)) projected_memory))"
  show ?thesis
  proof (cases ?check)
    case (Inl err)
    then show ?thesis
      using assms(2) frame by (auto simp: handle_init_def intro: session_step.reject)
  next
    case (Inr u)
    then have room: "min (length (sm_active_sessions m) + 1) usize_max \<le> max_active_streams (sc_limits (sm_config m))"
      "unat (total_session_memory m) + 28 \<le> unat (max_session_memory_bytes (sc_limits (sm_config m)))"
      by (auto simp: bindR_eq_Inr check_active_streams_def saturating_add_usize_def checked_add_word_Some
          check_session_memory_bytes_def word_less_nat_alt ACTIVE_SESSION_BASE_MEMORY_BYTES_def not_less split: if_splits)
    show ?thesis
    proof (cases "checked_add_word (sm_activity_tick m) 1")
      case None
      then show ?thesis
        using assms(2) frame Inr by (auto simp: handle_init_def bump_activity_tick_def bindS_def intro: session_step.reject)
    next
      case (Some t)
      then show ?thesis
        using assms(2) frame Inr session_step.activate [OF assms(1) frame(2,3,1,4) room, of t]
        by (auto simp: handle_init_def bump_activity_tick_def bindS_def rebind_def fresh_session_def Let_def)
    qed
  qed
qed

lemma handle_filesystem_step:
  assumes "sm_current_global_flags m = Some gf" "bt_ok (sm_active_sessions m)" "handle_filesystem m gf e = (r, m')"
    and "\<not> is_session_control (lfh_entry_mode (se_header e))"
  shows "session_step m e r m'"
proof (cases "\<exists>op. FilesystemOpCode_try_from (entry_op e) = Inr op \<and> \<not> (op = FilesystemOpCode.Delete \<and> se_payload e \<noteq> [])")
  case True
  then obtain op where op: "FilesystemOpCode_try_from (entry_op e) = Inr op"
    "(op = FilesystemOpCode.Delete \<and> se_payload e \<noteq> []) = False"
    by blast
  show ?thesis
    by (rule guarded_step [OF assms(1,2) assms(3) [unfolded handle_filesystem_def op sum.case if_False]])
      (use assms(4) op(1) in \<open>auto simp: plain_events_def intro!: session_step.plain\<close>)
next
  case False
  with assms(3) show ?thesis
    by (auto simp: handle_filesystem_def intro: session_step.reject split: sum.splits if_splits)
qed

lemma handle_session_control_step:
  assumes "sm_current_global_flags m = Some gf" "bt_ok (sm_active_sessions m)" "handle_session_control m gf e = (r, m')"
  shows "session_step m e r m'"
proof (cases "SessionOpCode_try_from (entry_op e)")
  case (Inl err)
  with assms(3) show ?thesis
    by (auto simp: handle_session_control_def intro: session_step.reject)
next
  case (Inr op)
  note h = assms(3) [unfolded handle_session_control_def Inr sum.case]
  show ?thesis
  proof (cases op)
    case Init
    show ?thesis
      by (rule handle_init_step [OF assms(1) h [unfolded Init SessionOpCode.case]])
  next
    case Close
    show ?thesis
      by (rule handle_close_step [OF assms(1,2) h [unfolded Close SessionOpCode.case]])
  next
    case Resume
    show ?thesis
      by (rule handle_resume_step [OF assms(1,2) h [unfolded Resume SessionOpCode.case]])
  next
    case Heartbeat
    show ?thesis
      by (rule handle_heartbeat_step [OF assms(1,2) h [unfolded Heartbeat SessionOpCode.case]])
  next
    case Status
    show ?thesis
      by (rule handle_status_step [OF assms(1,2) h [unfolded Status SessionOpCode.case]])
  next
    case Ack
    show ?thesis
      by (rule handle_ack_step [OF assms(1,2) h [unfolded Ack SessionOpCode.case]])
  next
    case Metadata
    show ?thesis
      by (rule handle_metadata_step [OF assms(1,2) h [unfolded Metadata SessionOpCode.case]])
  next
    case Capabilities
    show ?thesis
      by (rule handle_capabilities_step [OF assms(1,2) h [unfolded Capabilities SessionOpCode.case]])
  qed
qed

text \<open>The checks before the dispatch.\<close>

definition entry_admitted :: "SessionManager \<Rightarrow> SessionEntry \<Rightarrow> SarError + GlobalFlags" where
  "entry_admitted m e =
     (let h = se_header e; md = lfh_entry_mode h; limits = sc_limits (sm_config m) in
      bindR (ok_or (sm_current_global_flags m) SarError.StreamState) (\<lambda>global_flags.
      bindR (validate_entry_mode_against_global global_flags md) (\<lambda>_.
      if se_degraded e \<and> \<not> is_loss_tolerant md then Inl SarError.FragmentGap else
      bindR (if is_fragment md then
          bindR (check_session_fragment_buffer_bytes limits (lfh_uncompressed_size h)) (\<lambda>_.
          bindR (ok_or (word_of_usize (length (se_payload e))) SarError.Overflow) (\<lambda>payload_len.
          check_session_fragment_buffer_bytes limits payload_len))
        else Inr ()) (\<lambda>_. Inr global_flags))))"

lemma process_entry_admitted:
  "process_entry m e = (case entry_admitted m e of Inl err \<Rightarrow> (Inl err, m) | Inr gf \<Rightarrow>
     if is_session_control (lfh_entry_mode (se_header e)) then handle_session_control m gf e else handle_filesystem m gf e)"
  by (simp add: process_entry_def entry_admitted_def Let_def)

lemma entry_admitted_Inr:
  "entry_admitted m e = Inr gf \<Longrightarrow> sm_current_global_flags m = Some gf \<and>
     validate_entry_mode_against_global gf (lfh_entry_mode (se_header e)) = Inr () \<and>
     (se_degraded e \<longrightarrow> is_loss_tolerant (lfh_entry_mode (se_header e)))"
  by (auto simp: entry_admitted_def Let_def bindR_eq_Inr split: if_splits)

lemma process_entry_step:
  assumes "bt_ok (sm_active_sessions m)" "process_entry m e = (r, m')"
  shows "session_step m e r m'"
proof (cases "entry_admitted m e")
  case (Inl err)
  with assms(2) show ?thesis
    by (auto simp: process_entry_admitted intro: session_step.reject)
next
  case (Inr gf)
  from entry_admitted_Inr [OF this] have gf: "sm_current_global_flags m = Some gf"
    by simp
  show ?thesis
  proof (cases "is_session_control (lfh_entry_mode (se_header e))")
    case True
    with assms(2) Inr have "handle_session_control m gf e = (r, m')"
      by (simp add: process_entry_admitted)
    then show ?thesis
      by (rule handle_session_control_step [OF gf assms(1)])
  next
    case False
    with assms(2) Inr have "handle_filesystem m gf e = (r, m')"
      by (simp add: process_entry_admitted)
    then show ?thesis
      using False by (rule handle_filesystem_step [OF gf assms(1)])
  qed
qed

inductive_cases session_stepE: "session_step m e r m'"

section \<open>Invariant\<close>

definition session_ok :: "ResourceLimits \<Rightarrow> u16 \<Rightarrow> ActiveSession \<Rightarrow> bool" where
  "session_ok limits k s \<longleftrightarrow> as_stream_id s = k \<and> k \<noteq> 0 \<and> length (as_session_uuid s) = 16 \<and>
     contains (as_global_flags s) NO_INDEX \<and> SessionFlags_validate (as_session_flags s) = Inr () \<and>
     CapabilityFlags_validate (as_peer_capabilities s) = Inr () \<and>
     (\<forall>md. as_metadata s = Some md \<longrightarrow> ms_content_type md \<noteq> [] \<and> length (ms_content_type md) < 256 \<and>
        utf8_valid (ms_content_type md) \<and> length (ms_metadata md) < 2 ^ 32 \<and>
        length (ms_metadata md) \<le> max_session_metadata_bytes limits)"

definition session_bytes :: "u16 \<times> ActiveSession \<Rightarrow> nat" where
  "session_bytes p = 28 + (case as_metadata (snd p) of None \<Rightarrow> 0
     | Some md \<Rightarrow> length (ms_content_type md) + length (ms_metadata md))"

definition manager_ok :: "SessionManager \<Rightarrow> bool" where
  "manager_ok m \<longleftrightarrow> (let limits = sc_limits (sm_config m); sessions = sm_active_sessions m in
     bt_ok sessions \<and> (\<forall>k s. bt_get sessions k = Some s \<longrightarrow> session_ok limits k s) \<and>
     length sessions \<le> max_active_streams limits \<and>
     total_of session_bytes sessions \<le> unat (max_session_memory_bytes limits))"

lemma unat_memory_usage: "session_ok limits k s \<Longrightarrow> unat (memory_usage s) = session_bytes (k, s)"
proof -
  assume ok: "session_ok limits k s"
  define n where "n = (case as_metadata s of None \<Rightarrow> 0 | Some md \<Rightarrow> length (ms_content_type md) + length (ms_metadata md))"
  have n: "n < 2 ^ 33"
    using ok by (auto simp: n_def session_ok_def split: option.split)
  then have w: "word_of_usize n = Some (of_nat n :: u64)" "unat (of_nat n :: u64) = n"
    by simp_all
  have "memory_usage s = 28 + of_nat n"
    using w(1) by (simp add: memory_usage_def n_def ACTIVE_SESSION_BASE_MEMORY_BYTES_def Let_def split: option.splits)
  moreover have "unat (28 + of_nat n :: u64) = 28 + n"
    using n w(2) unat_add_lem [of "28 :: u64" "of_nat n"] by simp
  ultimately show ?thesis
    by (simp add: session_bytes_def n_def)
qed

lemma unat_fold_memory:
  "unat (fold (\<lambda>(_, session) acc. saturating_add_word acc (memory_usage session)) es acc) =
     min (unat acc + total_of (\<lambda>(_, s). unat (memory_usage s)) es) (2 ^ 64 - 1)"
proof (induction es arbitrary: acc)
  case Nil
  then show ?case
    using unat_lt2p [of acc] by (simp add: total_of_def del: unat_u64_less)
next
  case (Cons p es)
  then show ?case
    by (auto simp: total_of_def split: prod.split)
qed

lemma total_session_memory_eq:
  assumes "manager_ok m"
  shows "unat (total_session_memory m) = total_of session_bytes (sm_active_sessions m)"
proof -
  let ?es = "sm_active_sessions m"
  have "unat (memory_usage s) = session_bytes (k, s)" if "(k, s) \<in> set ?es" for k s
    using assms that by (auto simp: manager_ok_def Let_def bt_get_iff intro: unat_memory_usage [of "sc_limits (sm_config m)"])
  then have "map (\<lambda>(_, s). unat (memory_usage s)) ?es = map session_bytes ?es"
    by auto
  then have "total_of (\<lambda>(_, s). unat (memory_usage s)) ?es = total_of session_bytes ?es"
    by (simp only: total_of_def)
  moreover have "total_of session_bytes ?es < 2 ^ 64"
    using assms unat_lt2p [of "max_session_memory_bytes (sc_limits (sm_config m))"]
    by (simp add: manager_ok_def Let_def del: unat_u64_less)
  ultimately show ?thesis
    by (simp add: total_session_memory_def unat_fold_memory)
qed

lemma length_sessions: "bt_ok m \<Longrightarrow> length (m :: (u16, 'v) btree) \<le> 65536"
proof -
  assume "bt_ok m"
  then have "length m = card (set (map fst m))"
    using distinct_card [OF bt_ok_distinct] by (metis length_map)
  also have "\<dots> \<le> CARD(u16)"
    by (intro card_mono) auto
  also have "\<dots> = 65536"
    by (simp add: card_word)
  finally show ?thesis .
qed

lemma session_ok_advanced [simp]: "session_ok limits k (advanced e t s) \<longleftrightarrow> session_ok limits k s"
  by (simp add: session_ok_def advanced_def)

lemma session_bytes_advanced [simp]: "session_bytes (k, advanced e t s) = session_bytes (k, s)"
  by (simp add: session_bytes_def advanced_def)

text \<open>A bound session may be replaced when the new one is well formed and memory stays within the limit.\<close>

lemma manager_ok_rebind:
  assumes "manager_ok m" "bt_get (sm_active_sessions m) (entry_stream e) = Some s"
    and "session_ok (sc_limits (sm_config m)) (entry_stream e) s'"
    and "total_of session_bytes (sm_active_sessions m) - session_bytes (entry_stream e, s) + session_bytes (entry_stream e, s')
      \<le> unat (max_session_memory_bytes (sc_limits (sm_config m)))"
  shows "manager_ok (rebind e s' m)"
proof -
  let ?k = "entry_stream e" and ?m = "sm_active_sessions m"
  have ok: "bt_ok ?m"
    using assms(1) by (simp add: manager_ok_def Let_def)
  have "length (bt_insert ?k s' ?m) = length ?m"
    using bt.total_put_old [OF ok assms(2), of "\<lambda>_. 1" s'] by (simp add: length_total_of)
  moreover have "total_of session_bytes (bt_insert ?k s' ?m) =
      total_of session_bytes ?m - session_bytes (?k, s) + session_bytes (?k, s')"
    using bt.total_put_old [OF ok assms(2), of session_bytes s'] bt.total_ge [OF ok assms(2), of session_bytes] by linarith
  ultimately show ?thesis
    using assms by (auto simp: manager_ok_def Let_def rebind_def bt.ok_put bt.get_put)
qed

lemma manager_ok_rebind_same:
  assumes "manager_ok m" "bt_get (sm_active_sessions m) (entry_stream e) = Some s"
    and "session_ok (sc_limits (sm_config m)) (entry_stream e) s'" "session_bytes (entry_stream e, s') = session_bytes (entry_stream e, s)"
  shows "manager_ok (rebind e s' m)"
  using bt.total_ge [OF _ assms(2), of session_bytes] assms
  by (intro manager_ok_rebind) (auto simp: manager_ok_def Let_def)

lemma manager_ok_room:
  assumes "manager_ok m" "bt_get (sm_active_sessions m) (entry_stream e) = None"
    and "session_ok (sc_limits (sm_config m)) (entry_stream e) s" "session_bytes (entry_stream e, s) = 28"
    and "min (length (sm_active_sessions m) + 1) usize_max \<le> max_active_streams (sc_limits (sm_config m))"
    and "unat (total_session_memory m) + 28 \<le> unat (max_session_memory_bytes (sc_limits (sm_config m)))"
  shows "manager_ok (rebind e s (m \<lparr> sm_activity_tick := t \<rparr>))"
proof -
  let ?k = "entry_stream e" and ?m = "sm_active_sessions m"
  have ok: "bt_ok ?m"
    using assms(1) by (simp add: manager_ok_def Let_def)
  have "length (bt_insert ?k s ?m) = length ?m + 1"
    using bt.total_put_new [OF ok assms(2), of "\<lambda>_. 1" s] by (simp add: length_total_of)
  moreover have "length ?m + 1 \<le> usize_max"
    using length_sessions [OF ok] by (simp add: usize_max_def)
  moreover have "total_of session_bytes (bt_insert ?k s ?m) = 28 + total_of session_bytes ?m"
    using bt.total_put_new [OF ok assms(2), of session_bytes s] assms(4) by simp
  ultimately show ?thesis
    using assms total_session_memory_eq [OF assms(1)]
    by (auto simp: manager_ok_def Let_def rebind_def bt.ok_put bt.get_put)
qed

lemma manager_ok_unbind:
  assumes "manager_ok m"
  shows "manager_ok (m \<lparr> sm_active_sessions := bt_remove k (sm_active_sessions m) \<rparr>)"
proof -
  let ?m = "sm_active_sessions m"
  have ok: "bt_ok ?m"
    using assms by (simp add: manager_ok_def Let_def)
  have "total_of f (bt_remove k ?m) \<le> total_of f ?m" for f
    using bt.total_del_None [OF ok, of k f] bt.total_del [OF ok, of k _ f] by (cases "bt_get ?m k") force+
  from this [of session_bytes] this [of "\<lambda>_. 1"] show ?thesis
    using assms by (auto simp: manager_ok_def Let_def bt.ok_del bt.get_del length_total_of)
qed

lemma metadata_frame_ok:
  assumes "SessionMetadataFrame_parse p limits = Inr f"
  shows "meta_content_type f \<noteq> [] \<and> length (meta_content_type f) < 256 \<and> utf8_valid (meta_content_type f) \<and>
    length (meta_metadata f) < 2 ^ 32 \<and> length (meta_metadata f) \<le> max_session_metadata_bytes limits"
proof -
  have "SessionMetadataFrame_to_bytes f limits = Inr p" "utf8_valid (meta_content_type f)"
    using assms by (simp_all add: SessionMetadataFrame_exact)
  moreover from this(1) obtain x :: u8 and y :: u32
    where "unat x = length (meta_content_type f)" "unat y = length (meta_metadata f)"
    by (auto simp: SessionMetadataFrame_to_bytes_def bindR_eq_Inr word_of_usize_Some split: if_splits)
  ultimately show ?thesis
    using unat_lt2p [of x] unat_lt2p [of y]
    by (auto simp: SessionMetadataFrame_to_bytes_def bindR_eq_Inr check_session_metadata_bytes_def split: if_splits
        simp del: unat_u8_less unat_u32_less)
qed

lemma step_manager_ok:
  assumes "session_step m e r m'" "manager_ok m"
  shows "manager_ok m' \<and> sm_config m' = sm_config m"
  using assms
proof cases
  case (activate gf frame t)
  have "SessionInitFrame_to_bytes frame = Inr (se_payload e)" "length (init_session_uuid frame) = 16"
    using activate by (simp_all add: SessionInitFrame_exact)
  then have "session_ok (sc_limits (sm_config m)) (entry_stream e) (fresh_session e frame gf t)"
    using activate by (auto simp: session_ok_def fresh_session_def SessionInitFrame_to_bytes_def bindR_eq_Inr
        CapabilityFlags_NONE_def CapabilityFlags_validate_def supports_bidirectional_stream_def)
  then have "manager_ok (rebind e (fresh_session e frame gf t) (m \<lparr> sm_activity_tick := t \<rparr>))"
    using assms(2) activate by (intro manager_ok_room) (simp_all add: session_bytes_def fresh_session_def)
  with activate show ?thesis
    by (simp add: rebind_def)
next
  case (close s acts)
  with assms(2) show ?thesis
    by (simp add: manager_ok_unbind)
next
  case (metadata s frame s' t)
  have s: "session_ok (sc_limits (sm_config m)) (entry_stream e) s"
    using assms(2) metadata(3) by (auto simp: manager_ok_def Let_def bound_def)
  then have s': "session_ok (sc_limits (sm_config m)) (entry_stream e) s'"
    using metadata_frame_ok [OF metadata(4)] metadata(5) by (auto simp: session_ok_def advanced_def)
  then have "manager_ok (rebind e s' m)"
    using assms(2) metadata(3,7) total_session_memory_eq [OF assms(2)] unat_memory_usage [OF s] unat_memory_usage [OF s']
    by (intro manager_ok_rebind) (auto simp: bound_def)
  with metadata show ?thesis
    by (simp add: rebind_def)
next
  case (capabilities s frame t)
  then have s: "bt_get (sm_active_sessions m) (entry_stream e) = Some s"
    by (simp add: bound_def)
  moreover have "session_ok (sc_limits (sm_config m)) (entry_stream e) (advanced e t s\<lparr>as_peer_capabilities := cap_flags frame\<rparr>)"
    using assms(2) capabilities s
    by (auto simp: manager_ok_def Let_def session_ok_def advanced_def SessionCapabilitiesFrame_exact
        SessionCapabilitiesFrame_to_bytes_def bindR_eq_Inr)
  ultimately show ?thesis
    using manager_ok_rebind_same [OF assms(2), of e s] capabilities
    by (simp add: session_bytes_def advanced_def rebind_def)
next
  case (plain s evs t)
  then show ?thesis
    using manager_ok_rebind_same [OF assms(2), of e s "advanced e t s"] assms(2)
    by (simp add: bound_def manager_ok_def Let_def) (simp add: rebind_def)
next
  case (late_reject s err t)
  then show ?thesis
    using manager_ok_rebind_same [OF assms(2), of e s "advanced e t s"] assms(2)
    by (simp add: bound_def manager_ok_def Let_def) (simp add: rebind_def)
qed (simp_all)

section \<open>Reachable managers\<close>

inductive reachable :: "SessionManagerConfig \<Rightarrow> SessionManager \<Rightarrow> bool" for c where
  new: "reachable c (SessionManager_new c)"
| header: "reachable c m \<Longrightarrow> reachable c (snd (observe_global_header m h))"
| complete: "reachable c m \<Longrightarrow> reachable c (archive_complete m)"
| entry: "reachable c m \<Longrightarrow> reachable c (snd (process_entry_result m e))"

lemma manager_ok_bt: "manager_ok m \<Longrightarrow> bt_ok (sm_active_sessions m)"
  by (simp add: manager_ok_def Let_def)

lemma process_entry_manager_ok:
  "manager_ok m \<Longrightarrow> manager_ok (snd (process_entry m e)) \<and> sm_config (snd (process_entry m e)) = sm_config m"
  using process_entry_step [OF manager_ok_bt, of m e "fst (process_entry m e)" "snd (process_entry m e)"]
    step_manager_ok [of m e] by simp

lemma reachable_ok: "reachable c m \<Longrightarrow> manager_ok m \<and> sm_config m = c"
proof (induction rule: reachable.induct)
  case new
  then show ?case
    by (simp add: SessionManager_new_def manager_ok_def Let_def total_of_def bt_get_def)
next
  case (header m h)
  then show ?case
    by (auto simp: observe_global_header_def manager_ok_def Let_def split: sum.split)
next
  case (complete m)
  then show ?case
    by (auto simp: archive_complete_def manager_ok_def Let_def)
next
  case (entry m e)
  then show ?case
    using process_entry_manager_ok by (auto simp: process_entry_result_def split: sum.split)
qed

lemma reachable_bt_ok: "reachable c m \<Longrightarrow> bt_ok (sm_active_sessions m)"
  using reachable_ok manager_ok_bt by blast

text \<open>Concrete entries and a concrete run, for the instances below.\<close>

definition sample_entry :: "u16 \<Rightarrow> u16 \<Rightarrow> u16 \<Rightarrow> bytes \<Rightarrow> SessionEntry" where
  "sample_entry md k n payload = \<lparr>
     se_header = minimal_store [0x66] 0 \<lparr> lfh_entry_mode := EntryMode md, lfh_stream_id := k, lfh_sequence_no := n \<rparr>,
     se_payload = payload, se_degraded = False \<rparr>"

abbreviation init_entry :: "u16 \<Rightarrow> u16 \<Rightarrow> bytes \<Rightarrow> SessionEntry" where
  "init_entry \<equiv> sample_entry 0x2000"

abbreviation close_entry :: "u16 \<Rightarrow> u16 \<Rightarrow> bytes \<Rightarrow> SessionEntry" where
  "close_entry \<equiv> sample_entry 0x2100"

abbreviation write_entry :: "u16 \<Rightarrow> u16 \<Rightarrow> bytes \<Rightarrow> SessionEntry" where
  "write_entry \<equiv> sample_entry 0"

lemma sample_entry_sel [simp]:
  "entry_stream (sample_entry md k n p) = k" "entry_seq (sample_entry md k n p) = n"
  "lfh_entry_mode (se_header (sample_entry md k n p)) = EntryMode md"
  "se_payload (sample_entry md k n p) = p" "se_degraded (sample_entry md k n p) = False"
  by (simp_all add: sample_entry_def)

definition stream_header :: GlobalHeader where
  "stream_header = \<lparr> gh_version = 1, gh_flags_bytes = le_bytes 4 NO_INDEX, gh_flags = NO_INDEX,
     gh_partition_descriptor = None, gh_kms = None \<rparr>"

definition opened :: SessionManager where
  "opened = snd (process_entry_result (snd (observe_global_header (SessionManager_new SessionManagerConfig_default) stream_header))
     (Inr (init_entry 7 41 (replicate 16 1 @ [0, 0]))))"

lemma opened_reachable: "reachable SessionManagerConfig_default opened"
  unfolding opened_def by (intro reachable.intros)

lemmas mode_defs = is_session_control_def is_fragment_def is_symlink_def is_compressed_def is_encrypted_def
  is_last_fragment_def is_loss_tolerant_def op_code_def

lemmas mode_bit_defs = SESSION_CONTROL_def FRAGMENT_def IS_SYMLINK_def MODE_COMPRESSED_def MODE_ENCRYPTED_def
  LAST_FRAGMENT_def LOSS_TOLERANT_def MODE_RESERVED_def

lemma plain_mode:
  assumes "w = 0x2000 \<or> w = 0x2100 \<or> w = 0"
  shows "\<not> is_fragment (EntryMode w)" "validate_entry_mode_against_global gf (EntryMode w) = Inr ()"
    and "is_session_control (EntryMode w) \<longleftrightarrow> w \<noteq> 0"
proof -
  have "\<not> is_fragment (EntryMode w)" "\<not> is_symlink (EntryMode w)" "\<not> is_compressed (EntryMode w)"
    "\<not> is_encrypted (EntryMode w)" "\<not> is_last_fragment (EntryMode w)" "\<not> is_loss_tolerant (EntryMode w)"
    "w AND MODE_RESERVED = 0"
    using assms by (elim disjE; simp add: mode_defs mode_bit_defs)+
  then show "\<not> is_fragment (EntryMode w)" "validate_entry_mode_against_global gf (EntryMode w) = Inr ()"
    by (simp_all add: validate_entry_mode_against_global_def)
  show "is_session_control (EntryMode w) \<longleftrightarrow> w \<noteq> 0"
    using assms by (elim disjE; simp add: mode_defs mode_bit_defs)
qed

lemma sample_ops: "op_code (EntryMode 0x2000) = 0" "op_code (EntryMode 0x2100) = 1" "op_code (EntryMode 0) = 0"
  by (simp_all add: op_code_def)

text \<open>Processing an opening, a closing and a data entry.\<close>

lemma sample_admitted:
  "md = 0x2000 \<or> md = 0x2100 \<or> md = 0 \<Longrightarrow> sm_current_global_flags m = Some gf \<Longrightarrow>
   entry_admitted m (sample_entry md k n p) = Inr gf"
  by (simp add: entry_admitted_def plain_mode)

lemma process_samples:
  assumes "sm_current_global_flags m = Some gf"
  shows "process_entry m (init_entry k n p) = handle_init m gf (init_entry k n p)"
    and "process_entry m (close_entry k n p) = handle_close m gf (close_entry k n p)"
    and "process_entry m (write_entry k n p) = handle_filesystem m gf (write_entry k n p)"
  using assms
  by (simp_all add: process_entry_admitted sample_admitted plain_mode(3) handle_session_control_def sample_ops
      SessionOpCode_try_from_def)

lemma init_payload: "length u = 16 \<Longrightarrow> SessionFlags_validate (SessionFlags w) = Inr () \<Longrightarrow>
  SessionInitFrame_parse (u @ le_bytes 2 w) = Inr \<lparr> init_session_uuid = u, init_flags = SessionFlags w \<rparr>"
  by (simp add: SessionInitFrame_exact SessionInitFrame_to_bytes_def)

lemma opened_eq:
  "opened = \<lparr> sm_config = SessionManagerConfig_default, sm_current_global_flags = Some NO_INDEX, sm_activity_tick = 1,
     sm_active_sessions = [(7, \<lparr> as_stream_id = 7, as_session_uuid = replicate 16 1, as_session_flags = SessionFlags 0,
       as_last_sequence_no = 41, as_global_flags = NO_INDEX, as_peer_capabilities = CapabilityFlags_NONE,
       as_metadata = None, as_last_activity_tick = 1 \<rparr>)] \<rparr>"
proof -
  let ?m = "snd (observe_global_header (SessionManager_new SessionManagerConfig_default) stream_header)"
  have m: "?m = \<lparr> sm_config = SessionManagerConfig_default, sm_current_global_flags = Some NO_INDEX,
      sm_activity_tick = 0, sm_active_sessions = [] \<rparr>"
    by (simp add: observe_global_header_def SessionManager_new_def stream_header_def validate_global_flags_def
        contains_def intersects_def flag_defs)
  have "SessionFlags_validate (SessionFlags 0) = Inr ()"
    by (simp add: SessionFlags_validate_def bidirectional_stream_requested_def bidirectional_stream_required_def)
  then have frame: "SessionInitFrame_parse (replicate 16 1 @ [0, 0]) =
      Inr \<lparr> init_session_uuid = replicate 16 1, init_flags = SessionFlags 0 \<rparr>"
    using init_payload [of "replicate 16 1" 0] by (simp add: numeral_2_eq_2)
  have "contains NO_INDEX NO_INDEX"
    by (simp add: contains_def)
  moreover have "max_active_streams (sc_limits SessionManagerConfig_default) = 1024"
    "max_session_memory_bytes (sc_limits SessionManagerConfig_default) = 67108864"
    by (simp_all add: SessionManagerConfig_default_def default_limits_def)
  ultimately show ?thesis
    unfolding opened_def process_entry_result_def m
    by (simp add: frame process_samples handle_init_def bt_get_def
        check_active_streams_def saturating_add_usize_def total_session_memory_def checked_add_word_def
        check_session_memory_bytes_def ACTIVE_SESSION_BASE_MEMORY_BYTES_def bump_activity_tick_def bindS_def usize_max_def)
qed

text \<open>
  (C9) What holds of every session manager, after any sequence of headers, archive ends and entries,
  accepted or not.  The number of active streams and the accounted memory are within their limits,
  and the accounted memory is the exact sum over the sessions, never saturated.  Every session is
  filed under its own, non-zero stream, belongs to a streaming archive, and has a full-length
  identifier, valid flag sets and metadata within the limits.
\<close>

theorem session_invariant:
  assumes "reachable c m"
  shows "sm_config m = c \<and> active_stream_count m \<le> max_active_streams (sc_limits c) \<and>
    unat (total_session_memory m) = (\<Sum>p\<leftarrow>sm_active_sessions m. session_bytes p) \<and>
    total_session_memory m \<le> max_session_memory_bytes (sc_limits c) \<and>
    (\<forall>k s. active_session m k = Some s \<longrightarrow> session_ok (sc_limits c) k s)"
proof -
  from reachable_ok [OF assms] have ok: "manager_ok m" "sm_config m = c"
    by simp_all
  then show ?thesis
    using total_session_memory_eq [OF ok(1)]
    by (auto simp: manager_ok_def Let_def active_stream_count_def active_session_def total_of_def word_le_nat_alt)
qed

lemma session_invariant_witness:
  "active_stream_count opened = 1 \<and> active_stream_count opened \<le> max_active_streams (sc_limits SessionManagerConfig_default) \<and>
   unat (total_session_memory opened) = 28"
  using session_invariant [OF opened_reachable]
  by (simp add: opened_eq active_stream_count_def session_bytes_def)

section \<open>One automaton per stream\<close>

text \<open>
  The specification: a stream is idle or bound to an identifier with the number of the last entry.
  \<open>stream_step k\<close> is how an entry with its result may move stream \<open>k\<close>.
\<close>

datatype stream_state = Idle | Bound bytes u16

definition in_stream :: "SessionEvent list \<Rightarrow> bool" where
  "in_stream evs \<longleftrightarrow> evs \<noteq> [] \<and> list_all (\<lambda>ev. case ev of SessionActivated _ _ _ \<Rightarrow> False | SessionClosed _ _ \<Rightarrow> False
     | StatefulInactive _ _ _ \<Rightarrow> False | _ \<Rightarrow> True) evs"

inductive stream_step :: "u16 \<Rightarrow> stream_state \<Rightarrow> SessionEntry \<Rightarrow> SarError + ProcessResult \<Rightarrow> stream_state \<Rightarrow> bool" for k where
  other: "entry_stream e \<noteq> k \<Longrightarrow> stream_step k st e r st"
| refuse: "stream_step k st e (Inl err) st"
| ignore: "pr_events res = [StatefulInactive k opc c] \<Longrightarrow> stream_step k st e (Inr res) st"
| open_stream: "entry_stream e = k \<Longrightarrow> k \<noteq> 0 \<Longrightarrow> pr_events res = [SessionActivated k u f] \<Longrightarrow>
    stream_step k Idle e (Inr res) (Bound u (entry_seq e))"
| close_stream: "entry_stream e = k \<Longrightarrow> entry_seq e = n + 1 \<Longrightarrow> pr_events res = [SessionClosed k u] \<Longrightarrow>
    stream_step k (Bound u n) e (Inr res) Idle"
| advance: "entry_stream e = k \<Longrightarrow> entry_seq e = n + 1 \<Longrightarrow> in_stream (pr_events res) \<Longrightarrow>
    stream_step k (Bound u n) e (Inr res) (Bound u (entry_seq e))"
| refuse_late: "entry_stream e = k \<Longrightarrow> entry_seq e = n + 1 \<Longrightarrow>
    stream_step k (Bound u n) e (Inl err) (Bound u (entry_seq e))"

inductive_cases stream_step_InrE: "stream_step k st e (Inr res) st'"

definition stream_of :: "SessionManager \<Rightarrow> u16 \<Rightarrow> stream_state" where
  "stream_of m k = (case active_session m k of None \<Rightarrow> Idle | Some s \<Rightarrow> Bound (as_session_uuid s) (as_last_sequence_no s))"

lemma stream_of_rebind:
  "bt_ok (sm_active_sessions m) \<Longrightarrow> stream_of (rebind e s m) k =
     (if k = entry_stream e then Bound (as_session_uuid s) (as_last_sequence_no s) else stream_of m k)"
  by (simp add: stream_of_def active_session_def rebind_def bt.get_put)

lemma stream_of_bound: "bound m e s \<Longrightarrow> stream_of m (entry_stream e) = Bound (as_session_uuid s) (as_last_sequence_no s)"
  by (simp add: stream_of_def active_session_def bound_def)

lemma advanced_sel [simp]:
  "as_session_uuid (advanced e t s) = as_session_uuid s" "as_last_sequence_no (advanced e t s) = entry_seq e"
  by (simp_all add: advanced_def)

lemma plain_in_stream: "plain_events e evs \<Longrightarrow> in_stream evs"
  by (auto simp: plain_events_def in_stream_def)

lemma step_advance:
  assumes "bound m e s" "in_stream evs"
  shows "stream_step (entry_stream e) (stream_of m (entry_stream e)) e (Inr \<lparr> pr_events = evs, pr_actions = acts \<rparr>)
    (Bound (as_session_uuid s) (entry_seq e))"
  unfolding stream_of_bound [OF assms(1)]
  by (rule stream_step.advance) (use assms in \<open>simp_all add: bound_def\<close>)

lemma step_stream:
  assumes "session_step m e r m'" "bt_ok (sm_active_sessions m)"
  shows "stream_step k (stream_of m k) e r (stream_of m' k)"
proof (cases "entry_stream e = k")
  case False
  from assms have "stream_of m' k = stream_of m k"
    by cases (use False in \<open>auto simp: stream_of_def active_session_def rebind_def bt.get_put bt.get_del\<close>)
  with False show ?thesis
    by (simp add: stream_step.other)
next
  case k: True
  note reb = stream_of_rebind [OF assms(2)]
  from assms show ?thesis
  proof cases
    case (activate gf frame t)
    have "stream_of m k = Idle"
      using activate k by (simp add: stream_of_def active_session_def)
    moreover have "stream_of m' k = Bound (init_session_uuid frame) (entry_seq e)"
      using activate k assms(2) by (simp add: stream_of_rebind fresh_session_def)
    ultimately show ?thesis
      using activate k by (auto intro: stream_step.open_stream)
  next
    case (close s acts)
    then have "stream_of m' k = Idle"
      using k assms(2) by (simp add: stream_of_def active_session_def bt.get_del)
    with close k stream_of_bound [OF close(3)] show ?thesis
      by (auto simp: bound_def intro: stream_step.close_stream)
  next
    case (late_reject s err t)
    then have seq: "entry_seq e = as_last_sequence_no s + 1"
      by (simp add: bound_def)
    show ?thesis
      using late_reject k stream_of_bound [OF late_reject(3)] stream_step.refuse_late [OF k seq] by (simp add: reb)
  next
    case (plain s evs t)
    then show ?thesis
      using k step_advance [OF plain(3) plain_in_stream [OF plain(4)]] by (auto simp: reb)
  next
    case (metadata s frame s' t)
    then show ?thesis
      using k step_advance [OF metadata(3), of "[MetadataUpdated k frame]"] by (auto simp: reb in_stream_def)
  next
    case (capabilities s frame t)
    then show ?thesis
      using k step_advance [OF capabilities(3), of "[CapabilitiesUpdated k frame]"] by (auto simp: reb in_stream_def)
  qed (use k in \<open>auto simp: inactive_result_def intro: stream_step.refuse stream_step.ignore\<close>)
qed

lemma process_entry_stream:
  "reachable c m \<Longrightarrow> process_entry m e = (r, m') \<Longrightarrow> stream_step k (stream_of m k) e r (stream_of m' k)"
  using step_stream process_entry_step reachable_bt_ok by blast

text \<open>
  (C3) The manager implements one automaton per stream.  Whatever entry is processed, with whatever
  result, every stream moves by the specification \<open>stream_step\<close>: entries of other streams do not
  touch it, only an announced activation binds an idle stream, only an announced close unbinds it,
  and a bound stream otherwise keeps its identifier and moves to the next sequence number or stays.
\<close>

theorem session_refines_streams:
  assumes "reachable c m" "process_entry m e = (r, m')"
  shows "\<forall>k. stream_step k (stream_of m k) e r (stream_of m' k)"
  using process_entry_stream [OF assms] by blast

lemma opened_write:
  "fst (process_entry opened (write_entry 7 42 p)) = Inr \<lparr> pr_events =
     [EvFilesystemAction (filesystem_action FilesystemOpCode.DataWrite (write_entry 7 42 p))], pr_actions = [] \<rparr>"
  "stream_of (snd (process_entry opened (write_entry 7 42 p))) 7 = Bound (replicate 16 1) 42"
proof -
  have "sm_current_global_flags opened = Some NO_INDEX"
    by (simp add: opened_eq)
  note run = process_samples(3) [OF this] handle_filesystem_def sample_ops FilesystemOpCode_try_from_def
    should_apply_stateful_def contains_def bt_get_def advance_bound_session_def validate_and_advance_sequence_def
    checked_add_word_def bindS_def
  show "fst (process_entry opened (write_entry 7 42 p)) = Inr \<lparr> pr_events =
      [EvFilesystemAction (filesystem_action FilesystemOpCode.DataWrite (write_entry 7 42 p))], pr_actions = [] \<rparr>"
    by (simp add: run) (simp add: opened_eq run)
  show "stream_of (snd (process_entry opened (write_entry 7 42 p))) 7 = Bound (replicate 16 1) 42"
    by (simp add: run) (simp add: opened_eq stream_of_def active_session_def run)
qed

lemma opened_stream: "stream_of opened 7 = Bound (replicate 16 1) 41"
  by (simp add: opened_eq stream_of_def active_session_def bt_get_def)

lemma session_refines_streams_witness:
  "stream_step 7 (Bound (replicate 16 1) 41) (write_entry 7 42 [5]) (fst (process_entry opened (write_entry 7 42 [5])))
     (Bound (replicate 16 1) 42)"
  using session_refines_streams [OF opened_reachable prod.collapse [symmetric], of "write_entry 7 42 [5]"]
    opened_write(2) [of "[5]"] opened_stream by metis

end
