(* ===== verification/Sar_Session_Order.thy ===== *)
theory Sar_Session_Order
  imports Sar_Session_Laws "HOL-Library.Sublist"
begin

text \<open>
  Consequences of the step relation of theory \<open>Sar_Session_Laws\<close> for whole runs of the session manager:
  consecutive numbering, exactly which entries become filesystem actions, that no entry is delivered
  twice, what an error may change, and that a closed stream can be opened again.
\<close>

section \<open>Runs\<close>

primrec process_all :: "SessionManager \<Rightarrow> SessionEntry list \<Rightarrow> (SarError + ProcessResult) list \<times> SessionManager" where
  "process_all m [] = ([], m)"
| "process_all m (e # es) = (case process_entry m e of (r, m) \<Rightarrow>
     case process_all m es of (rs, m) \<Rightarrow> (r # rs, m))"

definition accepted_in_stream :: "SarError + ProcessResult \<Rightarrow> bool" where
  "accepted_in_stream r = (case r of Inl _ \<Rightarrow> False | Inr res \<Rightarrow> in_stream (pr_events res))"

lemma reachable_process: "reachable c m \<Longrightarrow> process_entry m e = (r, m') \<Longrightarrow> reachable c m'"
  using reachable.entry [of c m "Inr e"] by (simp add: process_entry_result_def)

text \<open>Entries change neither the configuration nor the header that later entries are checked against.\<close>

lemma process_keeps_header:
  assumes "reachable c m" "process_entry m e = (r, m')"
  shows "sm_config m' = sm_config m \<and> sm_current_global_flags m' = sm_current_global_flags m"
  using process_entry_step [OF reachable_bt_ok [OF assms(1)] assms(2)]
  by cases (simp_all add: rebind_def)

lemma run_keeps_header:
  "reachable c m \<Longrightarrow> process_all m es = (rs, m') \<Longrightarrow>
   reachable c m' \<and> sm_config m' = sm_config m \<and> sm_current_global_flags m' = sm_current_global_flags m"
proof (induction es arbitrary: m rs)
  case (Cons e es)
  obtain r m1 where one: "process_entry m e = (r, m1)"
    by (cases "process_entry m e")
  then obtain rs1 where "process_all m1 es = (rs1, m')"
    using Cons.prems(2) by (auto split: prod.splits)
  with Cons.IH [OF reachable_process [OF Cons.prems(1) one]] process_keeps_header [OF Cons.prems(1) one] show ?case
    by auto
qed simp

lemma entry_admitted_cong:
  "sm_config m' = sm_config m \<Longrightarrow> sm_current_global_flags m' = sm_current_global_flags m \<Longrightarrow>
   entry_admitted m' e = entry_admitted m e"
  by (simp add: entry_admitted_def)

lemma wrong_number_refused:
  assumes "reachable c m" "entry_admitted m e = Inr gf" "\<not> is_session_control (lfh_entry_mode (se_header e))"
    and "FilesystemOpCode_try_from (entry_op e) = Inr op" "op = FilesystemOpCode.Delete \<longrightarrow> se_payload e = []"
    and "should_apply_stateful gf (entry_stream e)"
    and "stream_of m (entry_stream e) = Bound u n" "entry_seq e \<noteq> n + 1"
  shows "process_entry m e = (Inl SarError.StreamState, m)"
proof -
  have ok: "bt_ok (sm_active_sessions m)"
    by (rule reachable_bt_ok [OF assms(1)])
  obtain s where s: "bt_get (sm_active_sessions m) (entry_stream e) = Some s" "as_last_sequence_no s = n"
    using assms(7) by (auto simp: stream_of_def active_session_def split: option.splits)
  have "advance_bound_session m (entry_stream e) s (entry_seq e) = (Inl SarError.StreamState, m)"
    using ok s assms(8) by (simp add: advance_bound_session_def validate_and_advance_sequence_def bt_insert_same)
  then have "handle_filesystem m gf e = (Inl SarError.StreamState, m)"
    using assms(4-6) s(1) by (simp add: handle_filesystem_def bindS_def)
  then show ?thesis
    using assms(2,3) by (simp add: process_entry_admitted)
qed

lemma write_refused:
  assumes "reachable c m" "sm_current_global_flags m = Some NO_INDEX" "k \<noteq> 0" "stream_of m k = Bound u n" "q \<noteq> n + 1"
  shows "process_entry m (write_entry k q p) = (Inl SarError.StreamState, m)"
  using assms sample_admitted [of 0 m NO_INDEX k q p]
  by (intro wrong_number_refused [of c m _ NO_INDEX FilesystemOpCode.DataWrite u n])
    (simp_all add: plain_mode sample_ops FilesystemOpCode_try_from_def should_apply_stateful_def contains_def)

text \<open>A run of the sample manager: an accepted write and one that leaves a gap.\<close>

lemma sample_run:
  obtains m1 where "process_entry opened (write_entry 7 42 [5]) = (Inr \<lparr> pr_events =
      [EvFilesystemAction (filesystem_action FilesystemOpCode.DataWrite (write_entry 7 42 [5]))], pr_actions = [] \<rparr>, m1)"
    "stream_of m1 7 = Bound (replicate 16 1) 42"
    "process_entry m1 (write_entry 7 50 [6]) = (Inl SarError.StreamState, m1)"
proof -
  let ?m = "snd (process_entry opened (write_entry 7 42 [5]))"
  have r: "reachable SessionManagerConfig_default ?m"
    using reachable_process [OF opened_reachable prod.collapse [symmetric]] .
  have "sm_current_global_flags ?m = Some NO_INDEX"
    using process_keeps_header [OF opened_reachable prod.collapse [symmetric]] by (simp add: opened_eq)
  then have "process_entry ?m (write_entry 7 50 [6]) = (Inl SarError.StreamState, ?m)"
    using write_refused [OF r _ _ opened_write(2)] by simp
  with that [of ?m] opened_write [of "[5]"] show ?thesis
    by (metis prod.collapse)
qed

text \<open>A stream is closed only by an announced close.\<close>

definition closes :: "u16 \<Rightarrow> SarError + ProcessResult \<Rightarrow> bool" where
  "closes k r = (case r of Inl _ \<Rightarrow> False | Inr res \<Rightarrow>
     list_ex (\<lambda>ev. case ev of SessionClosed k' _ \<Rightarrow> k' = k | _ \<Rightarrow> False) (pr_events res))"

text \<open>The entries of a run that move a stream, that is change its identifier or its last number.\<close>

primrec moves :: "u16 \<Rightarrow> SessionManager \<Rightarrow> SessionEntry list \<Rightarrow> SessionEntry list" where
  "moves k m [] = []"
| "moves k m (e # es) = (let m1 = snd (process_entry m e) in
     if stream_of m1 k = stream_of m k then moves k m1 es else e # moves k m1 es)"

definition accepted_of :: "u16 \<Rightarrow> SessionEntry list \<Rightarrow> (SarError + ProcessResult) list \<Rightarrow> SessionEntry list" where
  "accepted_of k es rs = map fst (filter (\<lambda>(e, r). entry_stream e = k \<and> accepted_in_stream r) (zip es rs))"

lemma bound_step:
  assumes "stream_step k (Bound u n) e r st'" "\<not> closes k r"
  shows "(st' = Bound u n \<or> entry_stream e = k \<and> entry_seq e = n + 1 \<and> st' = Bound u (n + 1)) \<and>
    (entry_stream e = k \<and> accepted_in_stream r \<longrightarrow> st' \<noteq> Bound u n)"
  using assms by (cases rule: stream_step.cases) (auto simp: closes_def accepted_in_stream_def in_stream_def)

lemma run_bound:
  assumes "reachable c m" "process_all m es = (rs, m')" "stream_of m k = Bound u n" "list_all (\<lambda>r. \<not> closes k r) rs"
  shows "map entry_seq (moves k m es) = map (\<lambda>i. n + 1 + of_nat i) [0..<length (moves k m es)] \<and>
    stream_of m' k = Bound u (n + of_nat (length (moves k m es))) \<and> subseq (accepted_of k es rs) (moves k m es)"
  using assms
proof (induction es arbitrary: m n rs)
  case Nil
  then show ?case
    by (simp add: accepted_of_def)
next
  case (Cons e es)
  obtain r m1 where one: "process_entry m e = (r, m1)"
    by (cases "process_entry m e")
  obtain rs1 where rest: "process_all m1 es = (rs1, m')" "rs = r # rs1"
    using Cons.prems(2) one by (auto split: prod.splits)
  have step: "stream_step k (Bound u n) e r (stream_of m1 k)"
    using process_entry_stream [OF Cons.prems(1) one] Cons.prems(3) by metis
  have nc: "\<not> closes k r" "list_all (\<lambda>r. \<not> closes k r) rs1"
    using Cons.prems(4) rest(2) by simp_all
  note ih = Cons.IH [OF reachable_process [OF Cons.prems(1) one] rest(1) _ nc(2)]
  have acc: "accepted_of k (e # es) rs =
      (if entry_stream e = k \<and> accepted_in_stream r then e # accepted_of k es rs1 else accepted_of k es rs1)"
    by (simp add: accepted_of_def rest(2))
  show ?case
  proof (cases "stream_of m1 k = Bound u n")
    case True
    then have "moves k m (e # es) = moves k m1 es"
      using Cons.prems(3) one by simp
    moreover have "accepted_of k (e # es) rs = accepted_of k es rs1"
      using bound_step [OF step nc(1)] True acc by auto
    ultimately show ?thesis
      using ih [OF True] by simp
  next
    case False
    then have b: "entry_seq e = n + 1" "stream_of m1 k = Bound u (n + 1)"
      using bound_step [OF step nc(1)] by auto
    have mv: "moves k m (e # es) = e # moves k m1 es"
      using Cons.prems(3) one False by simp
    have "map (\<lambda>i. n + 1 + of_nat i) [0..<Suc l] = (n + 1) # map (\<lambda>i. n + 1 + 1 + of_nat i) [0..<l]" for l
      by (simp add: upt_rec [of 0] map_Suc_upt [symmetric] del: upt_Suc)
    then show ?thesis
      unfolding mv acc using ih [OF b(2)] b(1) by (auto simp: ac_simps intro: subseq_Cons' simp del: upt_Suc)
  qed
qed

text \<open>
  (C25) No gap, no reordering.  As long as a bound stream is not closed, the entries that move it,
  whatever else is interleaved with them, carry the sequence numbers that follow the stream's last
  one, consecutively and modulo \<open>2 ^ 16\<close>; the stream keeps its identifier and ends at the last of
  them.  Every accepted entry of the stream is one of these entries, in the order of arrival.  (An
  entry that is refused after its number has been checked moves the stream too.)
\<close>

theorem stream_numbers_consecutive:
  assumes "reachable c m" "process_all m es = (rs, m')" "active_session m k = Some s"
    and "list_all (\<lambda>r. \<not> closes k r) rs"
  shows "map entry_seq (moves k m es) = map (\<lambda>i. as_last_sequence_no s + 1 + of_nat i) [0..<length (moves k m es)] \<and>
    (\<exists>s'. active_session m' k = Some s' \<and> as_session_uuid s' = as_session_uuid s \<and>
      as_last_sequence_no s' = as_last_sequence_no s + of_nat (length (moves k m es))) \<and>
    subseq (accepted_of k es rs) (moves k m es)"
proof -
  have "stream_of m k = Bound (as_session_uuid s) (as_last_sequence_no s)"
    using assms(3) by (simp add: stream_of_def)
  from run_bound [OF assms(1,2) this assms(4)] show ?thesis
    by (auto simp: stream_of_def split: option.splits)
qed

lemma stream_numbers_consecutive_witness:
  "moves 7 opened [write_entry 7 42 [5], write_entry 7 50 [6]] = [write_entry 7 42 [5]] \<and>
   (\<exists>s'. active_session (snd (process_all opened [write_entry 7 42 [5], write_entry 7 50 [6]])) 7 = Some s' \<and>
     as_last_sequence_no s' = 42)"
proof -
  let ?es = "[write_entry 7 42 [5], write_entry 7 50 [6]]"
  obtain m1 where run: "process_entry opened (write_entry 7 42 [5]) = (Inr \<lparr> pr_events =
      [EvFilesystemAction (filesystem_action FilesystemOpCode.DataWrite (write_entry 7 42 [5]))], pr_actions = [] \<rparr>, m1)"
    "stream_of m1 7 = Bound (replicate 16 1) 42"
    "process_entry m1 (write_entry 7 50 [6]) = (Inl SarError.StreamState, m1)"
    by (rule sample_run)
  obtain s where s: "active_session opened 7 = Some s" "as_last_sequence_no s = 41"
    using opened_stream by (auto simp: stream_of_def split: option.splits)
  have all: "process_all opened ?es = ([Inr \<lparr> pr_events =
      [EvFilesystemAction (filesystem_action FilesystemOpCode.DataWrite (write_entry 7 42 [5]))], pr_actions = [] \<rparr>,
      Inl SarError.StreamState], m1)"
    by (simp add: run)
  have mv: "moves 7 opened ?es = [write_entry 7 42 [5]]"
    by (simp add: run opened_stream)
  show ?thesis
    using stream_numbers_consecutive [OF opened_reachable all s(1)] s(2) mv unfolding all mv by (auto simp: closes_def)
qed

section \<open>Filesystem actions\<close>

definition stateful_next :: "SessionManager \<Rightarrow> SessionEntry \<Rightarrow> bool" where
  "stateful_next m e \<longleftrightarrow> (\<exists>s. bound m e s \<and> as_last_activity_tick s \<noteq> u64_max)"

lemma checked_tick: "checked_add_word t 1 = None \<longleftrightarrow> t = (u64_max :: u64)"
proof -
  have "unat t + 1 < 2 ^ 64 \<longleftrightarrow> t \<noteq> u64_max"
  proof
    assume "t \<noteq> u64_max"
    then have "unat t \<noteq> unat u64_max"
      using unat_eqI by blast
    then show "unat t + 1 < 2 ^ 64"
      using unat_lt2p [of t] by (simp add: unat_minus_one_word del: unat_u64_less)
  qed (auto simp: unat_minus_one_word)
  then show ?thesis
    by (simp add: checked_add_word_def)
qed

lemma filesystem_delivers:
  assumes "bt_ok (sm_active_sessions m)" "sm_current_global_flags m = Some gf"
    "\<not> is_session_control (lfh_entry_mode (se_header e))"
  shows "(\<exists>res. fst (handle_filesystem m gf e) = Inr res \<and> EvFilesystemAction a \<in> set (pr_events res)) \<longleftrightarrow>
    (\<exists>op. FilesystemOpCode_try_from (entry_op e) = Inr op \<and> (op = FilesystemOpCode.Delete \<longrightarrow> se_payload e = []) \<and>
      a = filesystem_action op e) \<and> stateful_next m e"
proof (cases "bt_get (sm_active_sessions m) (entry_stream e)")
  case None
  then show ?thesis
    by (auto simp: handle_filesystem_def inactive_result_def stateful_next_def bound_def split: sum.splits if_splits)
next
  case (Some s)
  have next_iff: "stateful_next m e \<longleftrightarrow> should_apply_stateful gf (entry_stream e) \<and>
      entry_seq e = as_last_sequence_no s + 1 \<and> checked_add_word (as_last_activity_tick s) 1 \<noteq> None"
    using assms(2) Some by (auto simp: stateful_next_def bound_def should_apply_stateful_def checked_tick)
  obtain r m1 where adv: "advance_bound_session m (entry_stream e) s (entry_seq e) = (r, m1)"
    by (cases "advance_bound_session m (entry_stream e) s (entry_seq e)")
  then have r: "(\<exists>s'. r = Inr s') \<longleftrightarrow> entry_seq e = as_last_sequence_no s + 1 \<and>
      checked_add_word (as_last_activity_tick s) 1 \<noteq> None"
    using assms(1) Some by (cases rule: advance_cases) auto
  show ?thesis
    unfolding next_iff using r Some adv
    by (cases r) (auto simp: handle_filesystem_def inactive_result_def bindS_def split: sum.splits if_splits)
qed

lemma process_delivers:
  assumes "reachable c m"
  shows "(\<exists>res. fst (process_entry m e) = Inr res \<and> EvFilesystemAction a \<in> set (pr_events res)) \<longleftrightarrow>
    (\<exists>gf. entry_admitted m e = Inr gf) \<and> \<not> is_session_control (lfh_entry_mode (se_header e)) \<and> stateful_next m e \<and>
    (\<exists>op. FilesystemOpCode_try_from (entry_op e) = Inr op \<and> (op = FilesystemOpCode.Delete \<longrightarrow> se_payload e = []) \<and>
      a = filesystem_action op e)"
proof (cases "entry_admitted m e")
  case (Inl err)
  then show ?thesis
    by (simp add: process_entry_admitted)
next
  case (Inr gf)
  show ?thesis
  proof (cases "is_session_control (lfh_entry_mode (se_header e))")
    case True
    have "EvFilesystemAction a \<notin> set (pr_events res)" if "session_step m e (Inr res) m'" for res m'
      using that by cases (use True in \<open>auto simp: plain_events_def inactive_result_def\<close>)
    then show ?thesis
      using process_entry_step [OF reachable_bt_ok [OF assms] prod.collapse [symmetric], of e] True by metis
  next
    case False
    then have "process_entry m e = handle_filesystem m gf e"
      using Inr by (simp add: process_entry_admitted)
    then show ?thesis
      using filesystem_delivers [OF reachable_bt_ok [OF assms] _ False, of gf a] entry_admitted_Inr [OF Inr] False Inr by auto
  qed
qed

text \<open>
  (C26) Exactly which entries become filesystem actions.  Processing an entry yields a filesystem action
  if and only if the entry passes the checks of the archive header (in particular degraded data is
  marked as loss tolerant), is not a session-control entry, has a defined operation with an empty
  payload for a deletion, and is the next entry of a bound stream of a streaming archive; the action
  is then the one the entry describes, with its name, path, payload and durability flags.
\<close>

theorem filesystem_action_iff:
  assumes "reachable c m"
  shows "(\<exists>res. fst (process_entry m e) = Inr res \<and> EvFilesystemAction a \<in> set (pr_events res)) \<longleftrightarrow>
    (\<exists>gf. entry_admitted m e = Inr gf) \<and> \<not> is_session_control (lfh_entry_mode (se_header e)) \<and> stateful_next m e \<and>
    (\<exists>op. FilesystemOpCode_try_from (entry_op e) = Inr op \<and> (op = FilesystemOpCode.Delete \<longrightarrow> se_payload e = []) \<and>
      a = filesystem_action op e)"
  using assms by (rule process_delivers)

lemma filesystem_action_iff_witness:
  "stateful_next opened (write_entry 7 42 [5]) \<and>
   (\<exists>res. fst (process_entry opened (write_entry 7 42 [5])) = Inr res \<and>
     EvFilesystemAction (filesystem_action FilesystemOpCode.DataWrite (write_entry 7 42 [5])) \<in> set (pr_events res))"
proof -
  have "\<exists>res. fst (process_entry opened (write_entry 7 42 [5])) = Inr res \<and>
     EvFilesystemAction (filesystem_action FilesystemOpCode.DataWrite (write_entry 7 42 [5])) \<in> set (pr_events res)"
    using opened_write(1) [of "[5]"] by simp
  with filesystem_action_iff [OF opened_reachable] show ?thesis
    by blast
qed

lemma deliver_state:
  assumes "reachable c m" "fst (process_entry m e) = Inr res" "EvFilesystemAction a \<in> set (pr_events res)"
  obtains s t gf op where "entry_admitted m e = Inr gf" "\<not> is_session_control (lfh_entry_mode (se_header e))" "bound m e s"
    "FilesystemOpCode_try_from (entry_op e) = Inr op" "op = FilesystemOpCode.Delete \<longrightarrow> se_payload e = []"
    "snd (process_entry m e) = rebind e (advanced e t s) m"
proof -
  obtain gf op s where *: "entry_admitted m e = Inr gf" "\<not> is_session_control (lfh_entry_mode (se_header e))"
    "FilesystemOpCode_try_from (entry_op e) = Inr op" "op = FilesystemOpCode.Delete \<longrightarrow> se_payload e = []" "bound m e s"
    using process_delivers [OF assms(1), of e a] assms(2,3) by (auto simp: stateful_next_def)
  have "session_step m e (Inr res) (snd (process_entry m e))"
    using process_entry_step [OF reachable_bt_ok [OF assms(1)], of e "Inr res"] assms(2) by (metis prod.collapse)
  then obtain t s' where "bound m e s'" "snd (process_entry m e) = rebind e (advanced e t s') m"
    by cases (use assms(3) in \<open>auto simp: inactive_result_def\<close>)
  with that [OF *(1,2) _ *(3,4)] show ?thesis
    by blast
qed

lemma no_return:
  assumes "j < 2 ^ 16 - 1"
  shows "(n :: u16) \<noteq> n + of_nat j + 1"
proof
  assume "n = n + of_nat j + 1"
  then have "(of_nat (j + 1) :: u16) = 0"
    by (simp add: ac_simps)
  moreover have "unat (of_nat (j + 1) :: u16) = j + 1"
    using assms by (intro unat_of_nat_u16) simp
  ultimately show False
    by simp
qed

text \<open>
  (C27) No entry is delivered twice within a session.  When processing an entry has yielded a
  filesystem action, the same entry arriving again, at once or after any run of other entries, is
  refused with a stream-state error and changes nothing, as long as its stream has not been closed
  and its 16-bit numbers have not come round, that is fewer than \<open>2 ^ 16 - 1\<close> entries have moved it
  since.
\<close>

theorem replay_refused:
  assumes "reachable c m" "process_entry m e = (Inr res, m1)" "EvFilesystemAction a \<in> set (pr_events res)"
    and "process_all m1 es = (rs, m2)" "list_all (\<lambda>r. \<not> closes (entry_stream e) r) rs"
    and "length (moves (entry_stream e) m1 es) < 2 ^ 16 - 1"
  shows "process_entry m2 e = (Inl SarError.StreamState, m2)"
proof -
  have "fst (process_entry m e) = Inr res" "snd (process_entry m e) = m1"
    using assms(2) by simp_all
  then obtain s t gf op where d: "entry_admitted m e = Inr gf" "\<not> is_session_control (lfh_entry_mode (se_header e))" "bound m e s"
    "FilesystemOpCode_try_from (entry_op e) = Inr op" "op = FilesystemOpCode.Delete \<longrightarrow> se_payload e = []"
    "m1 = rebind e (advanced e t s) m"
    using deliver_state [OF assms(1) _ assms(3)] by metis
  have r1: "reachable c m1"
    by (rule reachable_process [OF assms(1,2)])
  note k1 = process_keeps_header [OF assms(1,2)] and k2 = run_keeps_header [OF r1 assms(4)]
  have "stream_of m1 (entry_stream e) = Bound (as_session_uuid s) (entry_seq e)"
    using stream_of_rebind [OF reachable_bt_ok [OF assms(1)], of e "advanced e t s" "entry_stream e"]
    by (simp add: d(6))
  from run_bound [OF r1 assms(4) this assms(5)]
  have "stream_of m2 (entry_stream e) =
      Bound (as_session_uuid s) (entry_seq e + of_nat (length (moves (entry_stream e) m1 es)))"
    by simp
  moreover have "should_apply_stateful gf (entry_stream e)"
    using d(3) entry_admitted_Inr [OF d(1)] by (auto simp: bound_def should_apply_stateful_def)
  moreover have "entry_admitted m2 e = Inr gf"
    using d(1) k1 k2 entry_admitted_cong [of m2 m e] by simp
  ultimately show ?thesis
    using wrong_number_refused [of c m2 e gf op] k2 d(2,4,5) no_return [OF assms(6)] by blast
qed

lemma replay_refused_witness:
  "fst (process_entry (snd (process_all (snd (process_entry opened (write_entry 7 42 [5]))) [write_entry 7 50 [6]]))
     (write_entry 7 42 [5])) = Inl SarError.StreamState"
proof -
  obtain m1 where run: "process_entry opened (write_entry 7 42 [5]) = (Inr \<lparr> pr_events =
      [EvFilesystemAction (filesystem_action FilesystemOpCode.DataWrite (write_entry 7 42 [5]))], pr_actions = [] \<rparr>, m1)"
    "stream_of m1 7 = Bound (replicate 16 1) 42"
    "process_entry m1 (write_entry 7 50 [6]) = (Inl SarError.StreamState, m1)"
    by (rule sample_run)
  have all: "process_all m1 [write_entry 7 50 [6]] = ([Inl SarError.StreamState], m1)"
    by (simp add: run)
  have mv: "moves 7 m1 [write_entry 7 50 [6]] = []"
    by (simp add: run)
  show ?thesis
    using replay_refused [OF opened_reachable run(1) _ all] unfolding mv by (simp add: run closes_def)
qed

section \<open>Errors\<close>

text \<open>
  (C28) What an error may change.  When processing an entry fails, the configuration, the archive
  context and every session are as before, with one exception: the failing entry may have used up
  its number, when it was the next entry of its bound stream; then that session differs in its last
  sequence number and activity tick only.  No session is ever opened, closed or rebound by an error.
\<close>

theorem session_error_frame:
  assumes "reachable c m" "process_entry m e = (Inl err, m')"
  shows "sm_config m' = sm_config m \<and> sm_current_global_flags m' = sm_current_global_flags m \<and>
    sm_activity_tick m' = sm_activity_tick m \<and>
    (\<forall>k. active_session m' k = active_session m k \<or>
      k = entry_stream e \<and> (\<exists>s t. active_session m k = Some s \<and> entry_seq e = as_last_sequence_no s + 1 \<and>
        active_session m' k = Some (s \<lparr> as_last_sequence_no := entry_seq e, as_last_activity_tick := t \<rparr>)))"
proof -
  have ok: "bt_ok (sm_active_sessions m)"
    by (rule reachable_bt_ok [OF assms(1)])
  have "session_step m e (Inl err) m'"
    using process_entry_step [OF ok assms(2)] .
  then show ?thesis
    by cases (auto simp: rebind_def advanced_def bound_def active_session_def bt.get_put [OF ok])
qed

lemma session_error_frame_witness:
  "fst (process_entry opened (write_entry 7 50 [5])) = Inl SarError.StreamState \<and>
   sm_activity_tick (snd (process_entry opened (write_entry 7 50 [5]))) = sm_activity_tick opened"
proof -
  have "sm_current_global_flags opened = Some NO_INDEX"
    by (simp add: opened_eq)
  note run = process_samples(3) [OF this] handle_filesystem_def sample_ops FilesystemOpCode_try_from_def
    should_apply_stateful_def contains_def bt_get_def advance_bound_session_def validate_and_advance_sequence_def
    checked_add_word_def bindS_def
  have r: "fst (process_entry opened (write_entry 7 50 [5])) = Inl SarError.StreamState"
    by (simp add: run) (simp add: opened_eq run)
  then show ?thesis
    using session_error_frame [OF opened_reachable, of "write_entry 7 50 [5]" SarError.StreamState] by (metis prod.collapse)
qed

section \<open>Capacity\<close>

lemma reachable_room_after_close:
  assumes "reachable c m" "active_session m k = Some s"
  defines "m1 \<equiv> m \<lparr> sm_active_sessions := bt_remove k (sm_active_sessions m) \<rparr>"
  shows "length (sm_active_sessions m1) + 1 \<le> max_active_streams (sc_limits c)"
    and "unat (total_session_memory m1) + 28 \<le> unat (max_session_memory_bytes (sc_limits c))"
proof -
  from reachable_ok [OF assms(1)] have ok: "manager_ok m" "sm_config m = c"
    by simp_all
  have bt: "bt_ok (sm_active_sessions m)" and s: "bt_get (sm_active_sessions m) k = Some s"
    using manager_ok_bt [OF ok(1)] assms(2) by (simp_all add: active_session_def)
  have "manager_ok m1"
    unfolding m1_def by (rule manager_ok_unbind [OF ok(1)])
  then have "unat (total_session_memory m1) = total_of session_bytes (bt_remove k (sm_active_sessions m))"
    using total_session_memory_eq by (simp add: m1_def)
  moreover have "28 \<le> session_bytes (k, s)"
    by (simp add: session_bytes_def)
  ultimately show "unat (total_session_memory m1) + 28 \<le> unat (max_session_memory_bytes (sc_limits c))"
    using bt.total_del [OF bt s, of session_bytes] ok by (simp add: manager_ok_def Let_def)
  have "length (sm_active_sessions m1) + 1 = length (sm_active_sessions m)"
    using bt.total_del [OF bt s, of "\<lambda>_. 1"] by (simp add: m1_def length_total_of)
  then show "length (sm_active_sessions m1) + 1 \<le> max_active_streams (sc_limits c)"
    using ok by (simp add: manager_ok_def Let_def)
qed

lemma process_close_bound:
  assumes "reachable c m" "sm_current_global_flags m = Some gf" "contains gf NO_INDEX" "k \<noteq> 0"
    and "active_session m k = Some s" "as_last_activity_tick s \<noteq> u64_max"
  shows "\<exists>acts. process_entry m (close_entry k (as_last_sequence_no s + 1) []) =
    (Inr \<lparr> pr_events = [SessionClosed k (as_session_uuid s)], pr_actions = acts \<rparr>,
     m \<lparr> sm_active_sessions := bt_remove k (sm_active_sessions m) \<rparr>)"
proof -
  obtain t where "checked_add_word (as_last_activity_tick s) 1 = Some t"
    using checked_tick [of "as_last_activity_tick s"] assms(6) by (cases "checked_add_word (as_last_activity_tick s) 1") auto
  then show ?thesis
    using assms(3-5) unfolding process_samples(2) [OF assms(2)]
    by (simp add: handle_close_def should_apply_stateful_def active_session_def advance_bound_session_def
        validate_and_advance_sequence_def bindS_def)
qed

lemma process_init_room:
  assumes "sm_current_global_flags m = Some gf" "contains gf NO_INDEX" "k \<noteq> 0"
    and "bt_get (sm_active_sessions m) k = None" "sm_activity_tick m \<noteq> u64_max"
    and "length (sm_active_sessions m) + 1 \<le> max_active_streams (sc_limits (sm_config m))"
    and "unat (total_session_memory m) + 28 \<le> unat (max_session_memory_bytes (sc_limits (sm_config m)))"
    and "length u = 16" "SessionFlags_validate (SessionFlags w) = Inr ()"
  shows "fst (process_entry m (init_entry k n (u @ le_bytes 2 w))) =
    Inr \<lparr> pr_events = [SessionActivated k u (SessionFlags w)], pr_actions = [] \<rparr>"
proof -
  obtain t where t: "checked_add_word (sm_activity_tick m) 1 = Some t"
    using checked_tick [of "sm_activity_tick m"] assms(5) by (cases "checked_add_word (sm_activity_tick m) 1") auto
  have "unat (total_session_memory m) + 28 < 2 ^ 64"
    using assms(7) unat_lt2p [of "max_session_memory_bytes (sc_limits (sm_config m))"] by (simp del: unat_u64_less)
  then obtain v where v: "checked_add_word (total_session_memory m) ACTIVE_SESSION_BASE_MEMORY_BYTES = Some v"
    "unat v = unat (total_session_memory m) + 28"
    using checked_add_word_Some [of "total_session_memory m" 28 "total_session_memory m + 28"] unat_add_lem [of "total_session_memory m" 28]
    by (simp add: ACTIVE_SESSION_BASE_MEMORY_BYTES_def)
  then have "check_session_memory_bytes (sc_limits (sm_config m)) v = Inr ()"
    using assms(7) by (simp add: check_session_memory_bytes_def word_less_nat_alt)
  moreover have "check_active_streams (sc_limits (sm_config m)) (saturating_add_usize (length (sm_active_sessions m)) 1) = Inr ()"
    using assms(6) by (simp add: check_active_streams_def saturating_add_usize_def min_def)
  ultimately show ?thesis
    using assms(2-4) t v(1) init_payload [OF assms(8,9)] unfolding process_samples(1) [OF assms(1)]
    by (simp add: handle_init_def bump_activity_tick_def bindS_def)
qed

text \<open>
  (C29) Capacity is never lost.  Whatever has happened before, an active stream of the current streaming
  archive can be closed by the close entry with the next number, and right after that a session can
  be opened on the same stream, however full the manager was (the 64-bit activity counters not being
  exhausted).
\<close>

theorem close_frees_stream:
  assumes "reachable c m" "sm_current_global_flags m = Some gf" "contains gf NO_INDEX"
    and "active_session m k = Some s" "as_last_activity_tick s \<noteq> u64_max" "sm_activity_tick m \<noteq> u64_max"
    and "length u = 16" "SessionFlags_validate (SessionFlags w) = Inr ()"
  shows "\<exists>acts m1. process_entry m (close_entry k (as_last_sequence_no s + 1) []) =
      (Inr \<lparr> pr_events = [SessionClosed k (as_session_uuid s)], pr_actions = acts \<rparr>, m1) \<and>
    fst (process_entry m1 (init_entry k n (u @ le_bytes 2 w))) =
      Inr \<lparr> pr_events = [SessionActivated k u (SessionFlags w)], pr_actions = [] \<rparr>"
proof -
  let ?m1 = "m \<lparr> sm_active_sessions := bt_remove k (sm_active_sessions m) \<rparr>"
  have ok: "manager_ok m" "sm_config m = c"
    using reachable_ok [OF assms(1)] by simp_all
  have k: "k \<noteq> 0"
    using ok assms(4) by (auto simp: manager_ok_def Let_def active_session_def session_ok_def)
  have "fst (process_entry ?m1 (init_entry k n (u @ le_bytes 2 w))) =
      Inr \<lparr> pr_events = [SessionActivated k u (SessionFlags w)], pr_actions = [] \<rparr>"
    using assms reachable_room_after_close [OF assms(1,4)] ok(2) k bt.get_del [OF manager_ok_bt [OF ok(1)], of k k]
    by (intro process_init_room [of _ gf]) simp_all
  with process_close_bound [OF assms(1-3) k assms(4,5)] show ?thesis
    by blast
qed

lemma close_frees_stream_witness:
  "\<exists>acts m1. process_entry opened (close_entry 7 42 []) =
      (Inr \<lparr> pr_events = [SessionClosed 7 (replicate 16 1)], pr_actions = acts \<rparr>, m1) \<and>
    fst (process_entry m1 (init_entry 7 9 (replicate 16 2 @ le_bytes 2 (0 :: u16)))) =
      Inr \<lparr> pr_events = [SessionActivated 7 (replicate 16 2) (SessionFlags 0)], pr_actions = [] \<rparr>"
proof -
  obtain s where s: "active_session opened 7 = Some s" "as_last_sequence_no s = 41" "as_session_uuid s = replicate 16 1"
    "as_last_activity_tick s = 1"
    by (simp add: opened_eq active_session_def bt_get_def)
  have "SessionFlags_validate (SessionFlags 0) = Inr ()"
    by (simp add: SessionFlags_validate_def bidirectional_stream_requested_def bidirectional_stream_required_def)
  moreover have "sm_current_global_flags opened = Some NO_INDEX" "contains NO_INDEX NO_INDEX" "sm_activity_tick opened = 1"
    by (simp_all add: opened_eq contains_def)
  ultimately show ?thesis
    using close_frees_stream [OF opened_reachable _ _ s(1), of NO_INDEX "replicate 16 2" 0 9] s(2-4) by simp
qed

end
