(* ===== verification/Sar_Global.thy ===== *)
theory Sar_Global
  imports Sar_Format
begin

text \<open>
  The global header of \<^verbatim>\<open>crates/sar-core/src/format.rs\<close>: \<^verbatim>\<open>parse_global_header\<close>,
  \<^verbatim>\<open>write_global_header\<close> and \<^verbatim>\<open>global_header_flags_bytes\<close>, with the optional partition
  descriptor and key-management block.  The lemmas give the wire form of a header and show that
  the parser accepts exactly the wire forms within its limits.
\<close>

section \<open>Global header\<close>

definition parse_partition_descriptor :: "ParseCursor \<Rightarrow> SarError + (PartitionDescriptor \<times> ParseCursor)" where
  "parse_partition_descriptor cursor =
     bindR (read_bytes cursor 96) (\<lambda>(bytes, cursor).
     let pcur = cursor_new bytes in
     bindR (read_bytes pcur 16) (\<lambda>(uuid, pcur).
     bindR (read_u32_le pcur) (\<lambda>(index, pcur).
     bindR (read_u32_le pcur) (\<lambda>(total, pcur).
     bindR (read_bytes pcur 32) (\<lambda>(prev, pcur).
     bindR (read_bytes pcur 32) (\<lambda>(hash, pcur).
     bindR (read_bytes pcur 8) (\<lambda>(reserved, pcur).
     if list_ex (\<lambda>byte. byte \<noteq> 0) reserved then Inl SarError.ReservedValue else
     Inr (\<lparr> pd_partition_set_uuid = uuid,
            pd_partition_index = index,
            pd_total_partitions = total,
            pd_previous_partition_hash = prev,
            pd_partition_hash = hash \<rparr>, cursor))))))))"

definition parse_kms :: "ResourceLimits \<Rightarrow> ParseCursor \<Rightarrow> SarError + (KmsData \<times> ParseCursor)" where
  "parse_kms limits cursor =
     bindR (read_u8 cursor) (\<lambda>(mode_id, cursor).
     if \<not> (0x01 \<le> mode_id \<and> mode_id \<le> 0x04) then
       (if 0xF0 \<le> mode_id then Inl SarError.Unsupported else Inl SarError.ReservedValue)
     else
     bindR (read_u32_le cursor) (\<lambda>(len, cursor).
     bindR (ok_or (usize_of_word len) SarError.Overflow) (\<lambda>payload_len.
     bindR (check_kms_payload_bytes limits payload_len) (\<lambda>_.
     bindR (read_bytes cursor payload_len) (\<lambda>(payload, cursor).
     Inr (\<lparr> kms_mode_id = mode_id, kms_payload = payload \<rparr>, cursor))))))"

definition parse_global_header :: "bytes \<Rightarrow> ResourceLimits \<Rightarrow> SarError + (GlobalHeader \<times> nat)" where
  "parse_global_header inp limits =
     (let cursor = cursor_new inp in
     bindR (read_bytes cursor 4) (\<lambda>(magic, cursor).
     if magic \<noteq> MAGIC then Inl SarError.InvalidMagic else
     bindR (read_u8 cursor) (\<lambda>(version, cursor).
     if version \<noteq> SUPPORTED_GLOBAL_VERSION then Inl SarError.InvalidVersion else
     bindR (read_u8 cursor) (\<lambda>(reserved, cursor).
     if reserved \<noteq> 0 then Inl SarError.ReservedValue else
     bindR (read_u16_le cursor) (\<lambda>(fs, cursor).
     let flags_size = unat fs in
     if flags_size < 4 then Inl SarError.InvalidLength else
     bindR (check_global_flags_bytes limits flags_size) (\<lambda>_.
     bindR (read_bytes cursor flags_size) (\<lambda>(flags_bytes, cursor).
     let low = take 4 flags_bytes;
         flags = from_bits_truncate (from_le low) in
     bindR (validate_global_flags flags) (\<lambda>_.
     bindR (opt_field (contains flags PARTITIONED_ARCHIVE) parse_partition_descriptor cursor)
       (\<lambda>(partition_descriptor, cursor).
     bindR (opt_field (contains flags ENCRYPTED) (parse_kms limits) cursor) (\<lambda>(kms, cursor).
     if \<not> contains flags ENCRYPTED \<and> kms \<noteq> None then Inl SarError.FlagConflict else
     if \<not> contains flags PARTITIONED_ARCHIVE \<and> partition_descriptor \<noteq> None
     then Inl SarError.FlagConflict else
     Inr (\<lparr> gh_version = version,
            gh_flags_bytes = flags_bytes,
            gh_flags = flags,
            gh_partition_descriptor = partition_descriptor,
            gh_kms = kms \<rparr>, position cursor)))))))))))"

definition write_partition_descriptor :: "PartitionDescriptor \<Rightarrow> BinaryWriter \<Rightarrow> BinaryWriter" where
  "write_partition_descriptor descriptor writer =
     (let writer = write_bytes writer (pd_partition_set_uuid descriptor);
          writer = write_u32_le writer (pd_partition_index descriptor);
          writer = write_u32_le writer (pd_total_partitions descriptor);
          writer = write_bytes writer (pd_previous_partition_hash descriptor);
          writer = write_bytes writer (pd_partition_hash descriptor)
      in write_bytes writer (replicate 8 0))"

definition write_kms :: "KmsData \<Rightarrow> BinaryWriter \<Rightarrow> SarError + BinaryWriter" where
  "write_kms kms writer =
     (let writer = write_u8 writer (kms_mode_id kms) in
     bindR (ok_or (word_of_usize (length (kms_payload kms))) SarError.Overflow) (\<lambda>(len :: u32).
     let writer = write_u32_le writer len in
     Inr (write_bytes writer (kms_payload kms))))"

definition write_global_header :: "GlobalHeader \<Rightarrow> SarError + bytes" where
  "write_global_header header =
     (let flags = gh_flags header in
     bindR (validate_global_flags flags) (\<lambda>_.
     if contains flags ENCRYPTED \<and> gh_kms header = None then Inl SarError.FlagConflict else
     if \<not> contains flags ENCRYPTED \<and> gh_kms header \<noteq> None then Inl SarError.FlagConflict else
     if contains flags PARTITIONED_ARCHIVE \<and> gh_partition_descriptor header = None
     then Inl SarError.FlagConflict else
     if \<not> contains flags PARTITIONED_ARCHIVE \<and> gh_partition_descriptor header \<noteq> None
     then Inl SarError.FlagConflict else
     if length (gh_flags_bytes header) < 4 then Inl SarError.InvalidLength else
     let flags_bytes = copy_into (gh_flags_bytes header) 0 (le_bytes 4 flags);
         writer = write_bytes writer_new MAGIC;
         writer = write_u8 writer (gh_version header);
         writer = write_u8 writer 0 in
     bindR (ok_or (word_of_usize (length flags_bytes)) SarError.Overflow) (\<lambda>(flags_len :: u16).
     let writer = write_u16_le writer flags_len;
         writer = write_bytes writer flags_bytes;
         writer = (case gh_partition_descriptor header of None \<Rightarrow> writer
                   | Some descriptor \<Rightarrow> write_partition_descriptor descriptor writer) in
     bindR (case gh_kms header of None \<Rightarrow> Inr writer | Some kms \<Rightarrow> write_kms kms writer) (\<lambda>writer.
     Inr (into_inner writer)))))"

definition global_header_flags_bytes :: "GlobalHeader \<Rightarrow> bytes" where
  "global_header_flags_bytes header =
     MAGIC @ [gh_version header] @ [0x00] @
     le_bytes 2 (of_nat (length (gh_flags_bytes header)) :: u16) @ gh_flags_bytes header"

section \<open>The wire form\<close>

definition pd_enc :: "PartitionDescriptor \<Rightarrow> bytes" where
  "pd_enc d = pd_partition_set_uuid d @ le_bytes 4 (pd_partition_index d) @
     le_bytes 4 (pd_total_partitions d) @ pd_previous_partition_hash d @ pd_partition_hash d @
     replicate 8 0"

definition pd_arrays :: "PartitionDescriptor \<Rightarrow> bool" where
  "pd_arrays d \<longleftrightarrow> length (pd_partition_set_uuid d) = 16 \<and>
     length (pd_previous_partition_hash d) = 32 \<and> length (pd_partition_hash d) = 32"

definition kms_enc :: "KmsData \<Rightarrow> bytes" where
  "kms_enc k = byte (kms_mode_id k) @ le_bytes 4 (of_nat (length (kms_payload k)) :: u32) @ kms_payload k"

definition kms_ok :: "ResourceLimits \<Rightarrow> KmsData \<Rightarrow> bool" where
  "kms_ok limits k \<longleftrightarrow> kms_mode_id k \<in> {1, 2, 3, 4} \<and> length (kms_payload k) < 2 ^ 32 \<and>
     length (kms_payload k) \<le> max_kms_payload_bytes limits"

definition gh_wire :: "GlobalHeader \<Rightarrow> bytes" where
  "gh_wire h = MAGIC @ byte (gh_version h) @ byte 0 @
     le_bytes 2 (of_nat (length (gh_flags_bytes h)) :: u16) @ gh_flags_bytes h @
     opt_enc (contains (gh_flags h) PARTITIONED_ARCHIVE) pd_enc (gh_partition_descriptor h) @
     opt_enc (contains (gh_flags h) ENCRYPTED) kms_enc (gh_kms h)"

text \<open>What a header that the parser returns satisfies.\<close>

definition gh_ok :: "ResourceLimits \<Rightarrow> GlobalHeader \<Rightarrow> bool" where
  "gh_ok limits h \<longleftrightarrow>
     gh_version h = SUPPORTED_GLOBAL_VERSION \<and>
     4 \<le> length (gh_flags_bytes h) \<and> length (gh_flags_bytes h) < 2 ^ 16 \<and>
     length (gh_flags_bytes h) \<le> max_global_flags_bytes limits \<and>
     gh_flags h = from_bits_truncate (from_le (take 4 (gh_flags_bytes h))) \<and>
     validate_global_flags (gh_flags h) = Inr () \<and>
     opt_adm (contains (gh_flags h) PARTITIONED_ARCHIVE) pd_arrays (gh_partition_descriptor h) \<and>
     opt_adm (contains (gh_flags h) ENCRYPTED) (kms_ok limits) (gh_kms h)"

section \<open>Blocks as field readers\<close>

lemma list_ex_nonzero: "length bs = n \<Longrightarrow> \<not> list_ex (\<lambda>b. b \<noteq> 0) bs \<longleftrightarrow> bs = replicate n 0"
  by (induction bs arbitrary: n) auto

lemma length_pd_enc: "pd_arrays d \<Longrightarrow> length (pd_enc d) = 96"
  by (simp add: pd_enc_def pd_arrays_def)

interpretation pd_field: field_codec parse_partition_descriptor pd_enc pd_arrays
proof
  show "parse_partition_descriptor c = Inr (d, advance (length (pd_enc d)) c)"
    if d: "pd_arrays d" and c: "cursor_ok c" "rest_of c = pd_enc d @ r" for d c r
  proof -
    have "read_bytes c 96 = Inr (pd_enc d, advance (length (pd_enc d)) c)"
      using d c by (simp add: read_bytes_append length_pd_enc)
    moreover have "ahead 96 (pd_enc d @ []) (cursor_new (pd_enc d))"
      using ahead_new [of "pd_enc d"] d by (simp add: length_pd_enc isize_max_def)
    ultimately show ?thesis
      unfolding parse_partition_descriptor_def
      using d [unfolded pd_arrays_def]
      apply (simp only: bindR_Inr case_prod_conv Let_def)
      apply (simp only: pd_enc_def append_assoc)
      apply (erule raw.step, simp)
      apply (erule u32.step, simp)
      apply (erule u32.step, simp)
      apply (erule raw.step, simp)
      apply (erule raw.step, simp)
      apply (erule raw.step, simp)
      apply (simp add: list_ex_iff)
      done
  qed
  show "pd_arrays d \<and> rest_of c = pd_enc d @ rest_of c' \<and> c' = advance (length (pd_enc d)) c \<and> in_range c'"
    if p: "parse_partition_descriptor c = Inr (d, c')" for d c c'
  proof -
    from p obtain bs where bs: "read_bytes c 96 = Inr (bs, c')"
      by (auto simp: parse_partition_descriptor_def bindR_eq_Inr Let_def split: if_splits)
    note * = read_bytes_sound [OF bs]
    have "pd_arrays d \<and> bs = pd_enc d"
      using parsed_new [OF p [unfolded parse_partition_descriptor_def bs bindR_Inr case_prod_conv Let_def], of bs]
      apply -
      apply (elim raw.unstep u32.unstep guard_unstep parsed_done)
      subgoal premises q for uuid c1 index c2 total c3 prev c4 hash c5 reserved c6
      proof -
        have r: "reserved = replicate 8 0"
          using q by (simp add: list_ex_nonzero [symmetric])
        have "pd_arrays d"
          using q by (auto simp: pd_arrays_def)
        moreover have "consumed bs (pd_enc d) c6"
          using q r by (auto simp: pd_enc_def)
        ultimately show ?thesis
          using *(1) length_pd_enc [of d] by (auto simp: consumed_def)
      qed
      done
    with * show ?thesis
      by (simp add: length_pd_enc)
  qed
qed

lemma usize_of_u32 [simp]: "usize_of_word (v :: u32) = Some (unat v)"
  using unat_u32_less [of v] by (simp add: usize_of_word_def usize_max_def del: unat_u32_less)

lemma kms_mode_range: "1 \<le> m \<and> m \<le> 4 \<longleftrightarrow> m \<in> {1, 2, 3, 4 :: u8}"
proof -
  have "1 \<le> m \<and> m \<le> 4 \<longleftrightarrow> unat m \<in> {1, 2, 3, 4}"
    by (auto simp: word_le_nat_alt)
  also have "\<dots> \<longleftrightarrow> m \<in> {1, 2, 3, 4}"
    by (auto simp: word_unat_eq_iff)
  finally show ?thesis .
qed

interpretation kms_field: field_codec "parse_kms limits" kms_enc "kms_ok limits" for limits
proof
  show "parse_kms limits c = Inr (k, advance (length (kms_enc k)) c)"
    if "kms_ok limits k" "cursor_ok c" "rest_of c = kms_enc k @ r" for k c r
  proof -
    have len: "unat (of_nat (length (kms_payload k)) :: u32) = length (kms_payload k)"
      using that by (simp add: kms_ok_def unat_of_nat_u32)
    have "read_u8 c = Inr (kms_mode_id k, advance 1 c)"
      using u8.rd_enc [of c "kms_mode_id k"] that by (simp add: kms_enc_def byte_def)
    moreover have "read_u32_le (advance 1 c) = Inr (of_nat (length (kms_payload k)), advance 4 (advance 1 c))"
      by (rule u32.rd_enc [of "advance 1 c", simplified length_le_bytes])
        (use that in \<open>auto simp: kms_enc_def byte_def rest_of_advance\<close>)
    moreover have "read_bytes (advance 4 (advance 1 c)) (length (kms_payload k)) =
        Inr (kms_payload k, advance (length (kms_payload k)) (advance 4 (advance 1 c)))"
      by (rule read_bytes_append [where r = r]) (use that in \<open>auto simp: kms_enc_def byte_def rest_of_advance\<close>)
    ultimately show ?thesis
      using that(1) kms_mode_range [of "kms_mode_id k"]
      by (auto simp: parse_kms_def kms_ok_def kms_enc_def byte_def len limit_defs)
  qed
  show "kms_ok limits k \<and> rest_of c = kms_enc k @ rest_of c' \<and> c' = advance (length (kms_enc k)) c \<and> in_range c'"
    if "parse_kms limits c = Inr (k, c')" "in_range c" for k c c'
  proof -
    from that(1) obtain m c1 and n :: u32 and c2 p where
      r: "read_u8 c = Inr (m, c1)" "1 \<le> m \<and> m \<le> 4" "read_u32_le c1 = Inr (n, c2)"
      "unat n \<le> max_kms_payload_bytes limits" "read_bytes c2 (unat n) = Inr (p, c')"
      and k: "k = \<lparr> kms_mode_id = m, kms_payload = p \<rparr>"
      by (auto simp: parse_kms_def bindR_eq_Inr limit_defs not_less split: if_splits)
    note 1 = u8.rd_sound [OF r(1) that(2)]
    note 2 = u32.rd_sound [OF r(3)]
    note 3 = read_bytes_sound [OF r(5)]
    show ?thesis
      using 1 2 3 r(4) kms_mode_range [of m] r(2) unat_u32_less [of n]
      by (clarsimp simp: kms_ok_def kms_enc_def k)
  qed
qed

interpretation opt_pd: field_codec "opt_field b parse_partition_descriptor" "opt_enc b pd_enc" "opt_adm b pd_arrays" for b
  by (rule pd_field.opt)

interpretation opt_kms: field_codec "opt_field b (parse_kms limits)" "opt_enc b kms_enc" "opt_adm b (kms_ok limits)" for b limits
  by (rule kms_field.opt)

section \<open>Parsing\<close>

lemma opt_adm_absent: "opt_adm b adm v \<Longrightarrow> \<not> b \<Longrightarrow> v = None"
  by (simp add: opt_adm_def)

lemma parse_global_header_sound:
  assumes "parse_global_header inp limits = Inr (h, n)"
  shows "gh_ok limits h \<and> n = length (gh_wire h) \<and> n \<le> length inp \<and> take n inp = gh_wire h"
  using parsed_new [OF assms, of inp] unfolding parse_global_header_def Let_def
  apply -
  apply (elim raw.unstep u8.unstep u16.unstep opt_pd.unstep opt_kms.unstep bind_unstep guard_unstep parsed_done)
  subgoal premises p for magic c1 version c2 reserved c3 fs c4 _ flags_bytes c5 _ pd c6 kms c7
  proof -
    have "gh_ok limits h"
      using p unat_u16_less [of fs]
      by (auto simp: gh_ok_def limit_defs split: if_splits simp del: unat_u16_less)
    moreover have "consumed inp (gh_wire h) c7"
      using p by (auto simp: gh_wire_def)
    ultimately show ?thesis
      using p consumed_take [of inp "gh_wire h" c7] by auto
  qed
  done

lemma parse_global_header_complete:
  assumes "gh_ok limits h" "length (gh_wire h @ rest) \<le> isize_max"
  shows "parse_global_header (gh_wire h @ rest) limits = Inr (h, length (gh_wire h))"
proof -
  let ?n = "length (gh_wire h @ rest)"
  have len: "unat (of_nat (length (gh_flags_bytes h)) :: u16) = length (gh_flags_bytes h)"
    using assms(1) by (simp add: gh_ok_def unat_of_nat_u16)
  have "ahead ?n (MAGIC @ byte (gh_version h) @ byte 0 @
     le_bytes 2 (of_nat (length (gh_flags_bytes h)) :: u16) @ gh_flags_bytes h @
     opt_enc (contains (gh_flags h) PARTITIONED_ARCHIVE) pd_enc (gh_partition_descriptor h) @
     opt_enc (contains (gh_flags h) ENCRYPTED) kms_enc (gh_kms h) @ rest) (cursor_new (gh_wire h @ rest))"
    using ahead_new [OF assms(2)] by (simp add: gh_wire_def)
  moreover have fl: "from_bits_truncate (from_le (take 4 (gh_flags_bytes h))) = gh_flags h"
    and ok: "gh_version h = SUPPORTED_GLOBAL_VERSION" "4 \<le> length (gh_flags_bytes h)"
    "length (gh_flags_bytes h) \<le> max_global_flags_bytes limits" "validate_global_flags (gh_flags h) = Inr ()"
    and adm: "opt_adm (contains (gh_flags h) PARTITIONED_ARCHIVE) pd_arrays (gh_partition_descriptor h)"
    "opt_adm (contains (gh_flags h) ENCRYPTED) (kms_ok limits) (gh_kms h)"
    using assms(1) unfolding gh_ok_def by auto
  ultimately show ?thesis
    unfolding parse_global_header_def Let_def
    apply -
    apply (erule raw.step, simp add: MAGIC_def)
    apply (rule guard_step, simp)
    apply (erule u8.step, simp)
    apply (rule guard_step, simp)
    apply (erule u8.step, simp)
    apply (rule guard_step, simp)
    apply (erule u16.step, simp)
    apply (rule guard_step, simp add: len)
    apply (rule bind_step [where x = "()"], simp add: len limit_defs)
    apply (erule raw.step, simp add: len)
    apply (simp only: fl)
    apply (rule bind_step [where x = "()"], simp)
    apply (erule opt_pd.step, simp)
    apply (erule opt_kms.step, simp)
    apply (use adm in \<open>auto dest: opt_adm_absent ahead_position\<close>)
    done
qed

section \<open>Writing\<close>

text \<open>
  The writer replaces the first four flag bytes by the known flags, so a header is written in this
  form.
\<close>

definition canonical_gh :: "GlobalHeader \<Rightarrow> GlobalHeader" where
  "canonical_gh h = h\<lparr> gh_flags_bytes := le_bytes 4 (gh_flags h) @ drop 4 (gh_flags_bytes h) \<rparr>"

lemma write_partition_descriptor_eq: "write_partition_descriptor d w = write_bytes w (pd_enc d)"
  by (simp add: write_partition_descriptor_def pd_enc_def write_bytes_def write_u32_le_def)

lemma write_kms_Inr:
  "write_kms k w = Inr w' \<longleftrightarrow> length (kms_payload k) < 2 ^ 32 \<and> w' = write_bytes w (kms_enc k)"
  by (auto simp: write_kms_def kms_enc_def write_bytes_def write_u32_le_def write_u8_def byte_def
      bindR_eq_Inr word_of_usize_def Let_def)

lemma write_global_header_Inr:
  "write_global_header h = Inr bs \<longleftrightarrow>
     validate_global_flags (gh_flags h) = Inr () \<and>
     opt_adm (contains (gh_flags h) PARTITIONED_ARCHIVE) (\<lambda>_. True) (gh_partition_descriptor h) \<and>
     opt_adm (contains (gh_flags h) ENCRYPTED) (\<lambda>k. length (kms_payload k) < 2 ^ 32) (gh_kms h) \<and>
     4 \<le> length (gh_flags_bytes h) \<and> length (gh_flags_bytes h) < 2 ^ 16 \<and>
     bs = gh_wire (canonical_gh h)" (is "_ \<longleftrightarrow> ?V \<and> ?P \<and> ?K \<and> ?L \<and> ?S \<and> _")
proof (cases "?V \<and> ?L \<and> ?S")
  case True
  then have c: "copy_into (gh_flags_bytes h) 0 (le_bytes 4 (gh_flags h)) = gh_flags_bytes (canonical_gh h)"
    "length (gh_flags_bytes (canonical_gh h)) = length (gh_flags_bytes h)"
    by (simp_all add: copy_into_def canonical_gh_def)
  have "word_of_usize (length (gh_flags_bytes h)) = Some (of_nat (length (gh_flags_bytes h)) :: u16)"
    using True by (simp add: word_of_usize_def)
  with True c show ?thesis
    by (cases "gh_partition_descriptor h"; cases "gh_kms h")
      (auto simp: write_global_header_def Let_def opt_adm_def opt_enc_def bindR_eq_Inr write_kms_Inr
        write_partition_descriptor_eq gh_wire_def writer_simps byte_def canonical_gh_def)
next
  case False
  then show ?thesis
    by (auto simp: write_global_header_def Let_def bindR_eq_Inr word_of_usize_def copy_into_def
        split: if_splits)
qed

section \<open>Properties\<close>

lemma gh_ok_canonical:
  assumes "write_global_header h = Inr bs" "gh_version h = SUPPORTED_GLOBAL_VERSION"
    "from_bits_truncate (gh_flags h) = gh_flags h"
    "length (gh_flags_bytes h) \<le> max_global_flags_bytes limits"
    "pred_option pd_arrays (gh_partition_descriptor h)" "pred_option (kms_ok limits) (gh_kms h)"
  shows "gh_ok limits (canonical_gh h)" "bs = gh_wire (canonical_gh h)"
proof -
  have "length (gh_flags_bytes (canonical_gh h)) = length (gh_flags_bytes h)"
    "from_le (take 4 (gh_flags_bytes (canonical_gh h))) = gh_flags h"
    using assms(1) by (auto simp: canonical_gh_def write_global_header_Inr from_le_le_bytes)
  moreover have "opt_adm (contains (gh_flags h) PARTITIONED_ARCHIVE) pd_arrays (gh_partition_descriptor h)"
    "opt_adm (contains (gh_flags h) ENCRYPTED) (kms_ok limits) (gh_kms h)"
    using assms(1,5,6) by (auto simp: opt_adm_def write_global_header_Inr)
  ultimately show "gh_ok limits (canonical_gh h)" "bs = gh_wire (canonical_gh h)"
    using assms by (simp_all add: write_global_header_Inr gh_ok_def canonical_gh_def)
qed

text \<open>
  (C13) Round trip of the global header.  A header that \<^verbatim>\<open>write_global_header\<close> accepts, with the
  supported version, no unknown flag, arrays of their Rust length, an assigned key-management mode
  and sizes within the limits, is read back by \<^verbatim>\<open>parse_global_header\<close> from its own bytes, whatever
  follows them, with the flag bytes the writer stored.
\<close>

lemma gh_write_parse:
  assumes "write_global_header h = Inr bs" "gh_version h = SUPPORTED_GLOBAL_VERSION"
    "from_bits_truncate (gh_flags h) = gh_flags h"
    "length (gh_flags_bytes h) \<le> max_global_flags_bytes limits"
    "pred_option pd_arrays (gh_partition_descriptor h)" "pred_option (kms_ok limits) (gh_kms h)"
    "length (bs @ rest) \<le> isize_max"
  shows "parse_global_header (bs @ rest) limits =
    Inr (h\<lparr> gh_flags_bytes := le_bytes 4 (gh_flags h) @ drop 4 (gh_flags_bytes h) \<rparr>, length bs)"
  using parse_global_header_complete [OF gh_ok_canonical(1) [OF assms(1-6)], of rest]
    gh_ok_canonical(2) [OF assms(1-6)] assms(7) by (simp add: canonical_gh_def)

definition sample_gh :: GlobalHeader where
  "sample_gh = \<lparr> gh_version = 1, gh_flags_bytes = [0, 0, 0, 0, 7], gh_flags = ENCRYPTED,
     gh_partition_descriptor = None, gh_kms = Some \<lparr> kms_mode_id = 2, kms_payload = [8, 9] \<rparr> \<rparr>"

lemmas gh_eval = sample_gh_def validate_global_flags_def contains_def intersects_def flag_defs opt_adm_def gh_wire_def
  canonical_gh_def opt_enc_def kms_enc_def byte_def MAGIC_def le_bytes_numeral

lemma write_sample_gh:
  "write_global_header sample_gh =
     Inr [0x53, 0x41, 0x52, 0x21, 1, 0, 5, 0, 0, 4, 0, 0, 7, 2, 2, 0, 0, 0, 8, 9]"
  by (simp add: write_global_header_Inr gh_eval)

lemma gh_write_parse_witness:
  "parse_global_header ([0x53, 0x41, 0x52, 0x21, 1, 0, 5, 0, 0, 4, 0, 0, 7, 2, 2, 0, 0, 0, 8, 9] @ [1]) default_limits =
     Inr (sample_gh\<lparr> gh_flags_bytes := [0, 4, 0, 0, 7] \<rparr>, 20)"
proof -
  have "from_bits_truncate (gh_flags sample_gh) = gh_flags sample_gh"
    by (simp add: sample_gh_def from_bits_truncate_def all_flags_bits flag_defs)
  from gh_write_parse [OF write_sample_gh _ this, of default_limits "[1]"] show ?thesis
    by (simp add: sample_gh_def SUPPORTED_GLOBAL_VERSION_def default_limits_def kms_ok_def isize_max_def
        flag_defs le_bytes_numeral)
qed

text \<open>
  (C14) Soundness of \<^verbatim>\<open>parse_global_header\<close>.  The bytes that enter the associated data
  (\<^verbatim>\<open>global_header_flags_bytes\<close>) are a prefix of the bytes that were parsed, and writing the parsed
  header again succeeds and reproduces the parsed bytes except that unknown bits of the first four
  flag bytes are cleared.
\<close>

lemma gh_parse_write:
  assumes "parse_global_header inp limits = Inr (h, n)"
  shows "write_global_header h = Inr (copy_into (take n inp) 8 (le_bytes 4 (gh_flags h))) \<and>
    global_header_flags_bytes h = take (8 + length (gh_flags_bytes h)) inp \<and>
    gh_flags h = from_bits_truncate (from_le (slice inp 8 4))"
proof -
  let ?fb = "gh_flags_bytes h"
  have *: "gh_ok limits h" "n = length (gh_wire h)" "take n inp = gh_wire h" "n \<le> length inp"
    using parse_global_header_sound [OF assms] by auto
  obtain tail where wire: "gh_wire h = global_header_flags_bytes h @ tail"
    by (simp add: gh_wire_def global_header_flags_bytes_def byte_def)
  have len: "length (global_header_flags_bytes h) = 8 + length ?fb" "4 \<le> length ?fb"
    using *(1) by (simp_all add: global_header_flags_bytes_def MAGIC_def gh_ok_def)
  have gfb: "global_header_flags_bytes h = take (8 + length ?fb) (gh_wire h)"
    using len by (simp add: wire)
  also have "\<dots> = take (8 + length ?fb) inp"
  proof -
    have "8 + length ?fb \<le> n"
      using len(1) wire *(2) by simp
    then show ?thesis
      by (simp add: *(3) [symmetric] min_def)
  qed
  finally have pre: "global_header_flags_bytes h = take (8 + length ?fb) inp" .
  have "slice inp 8 4 = take 4 (drop 8 (take (8 + length ?fb) inp))"
    using len(2) by (simp add: slice_def drop_take min_def)
  also have "\<dots> = take 4 (drop 8 (global_header_flags_bytes h))"
    by (simp only: pre)
  also have "\<dots> = take 4 ?fb"
    by (simp add: global_header_flags_bytes_def MAGIC_def le_bytes_numeral)
  finally have "gh_flags h = from_bits_truncate (from_le (slice inp 8 4))"
    using *(1) by (simp only: gh_ok_def)
  moreover have "write_global_header h = Inr (gh_wire (canonical_gh h))"
    using *(1) unfolding write_global_header_Inr gh_ok_def by (auto simp: opt_adm_def kms_ok_def)
  moreover have "gh_wire (canonical_gh h) = copy_into (gh_wire h) 8 (le_bytes 4 (gh_flags h))"
    using len by (simp add: gh_wire_def canonical_gh_def copy_into_def MAGIC_def byte_def le_bytes_numeral)
  ultimately show ?thesis
    using pre *(3) by simp
qed

lemma gh_parse_write_witness:
  "parse_global_header [0x53, 0x41, 0x52, 0x21, 1, 0, 5, 0, 0, 4, 0, 0, 7, 2, 2, 0, 0, 0, 8, 9] default_limits =
     Inr (sample_gh\<lparr> gh_flags_bytes := [0, 4, 0, 0, 7] \<rparr>, 20) \<and>
   write_global_header (sample_gh\<lparr> gh_flags_bytes := [0, 4, 0, 0, 7] \<rparr>) =
     Inr [0x53, 0x41, 0x52, 0x21, 1, 0, 5, 0, 0, 4, 0, 0, 7, 2, 2, 0, 0, 0, 8, 9]"
proof -
  have ok: "gh_ok default_limits (sample_gh\<lparr> gh_flags_bytes := [0, 4, 0, 0, 7] \<rparr>)"
    by (simp add: gh_ok_def gh_eval SUPPORTED_GLOBAL_VERSION_def default_limits_def kms_ok_def
        from_bits_truncate_def all_flags_bits)
  have wire: "gh_wire (sample_gh\<lparr> gh_flags_bytes := [0, 4, 0, 0, 7] \<rparr>) =
      [0x53, 0x41, 0x52, 0x21, 1, 0, 5, 0, 0, 4, 0, 0, 7, 2, 2, 0, 0, 0, 8, 9]"
    by (simp add: gh_eval)
  have p: "parse_global_header [0x53, 0x41, 0x52, 0x21, 1, 0, 5, 0, 0, 4, 0, 0, 7, 2, 2, 0, 0, 0, 8, 9] default_limits =
      Inr (sample_gh\<lparr> gh_flags_bytes := [0, 4, 0, 0, 7] \<rparr>, 20)"
    using parse_global_header_complete [OF ok, of "[]"] by (simp add: wire isize_max_def)
  from gh_parse_write [OF p] show ?thesis
    by (simp add: p sample_gh_def copy_into_def flag_defs le_bytes_numeral)
qed

end
