(* ===== verification/Sar_Kms.thy ===== *)
theory Sar_Kms
  imports Sar_Global Sar_Std
begin

text \<open>
  The crate \<^verbatim>\<open>sar-crypto\<close>: the registries of encryption algorithms and key-management modes
  (\<^verbatim>\<open>algorithm.rs\<close>), the additional authenticated data (\<^verbatim>\<open>aad.rs\<close>), authenticated encryption
  (\<^verbatim>\<open>aead.rs\<close>), the key-management payloads (\<^verbatim>\<open>kms/types.rs\<close>, \<^verbatim>\<open>kms/tls_exporter.rs\<close>), the key
  derivations (\<^verbatim>\<open>kms/pbkdf2.rs\<close>, \<^verbatim>\<open>kms/argon2.rs\<close>) and the resolution of the content key
  (\<^verbatim>\<open>provider.rs\<close>), with \<^verbatim>\<open>build_kms_context\<close> of \<^verbatim>\<open>sar-archive\<close>.  The ciphers and the key
  derivation functions themselves come from other packages and are the fields of
  \<open>Primitives\<close>, an argument of the definitions that call them.  The lemmas show that the payload
  parsers accept exactly the serialized parameters within the documented bounds, followed by
  anything.
\<close>

section \<open>Registries and errors\<close>

datatype SarCryptoError = AuthFailed | KeyMissing | Malformed | Unsupported | ReservedValue |
  InvalidLength | Internal | NonceReuse | FlagConflict

primrec SarError_from_SarCryptoError :: "SarCryptoError \<Rightarrow> SarError" where
  "SarError_from_SarCryptoError SarCryptoError.AuthFailed = SarError.AuthFailed"
| "SarError_from_SarCryptoError SarCryptoError.KeyMissing = SarError.KeyMissing"
| "SarError_from_SarCryptoError SarCryptoError.Malformed = SarError.Malformed"
| "SarError_from_SarCryptoError SarCryptoError.Unsupported = SarError.Unsupported"
| "SarError_from_SarCryptoError SarCryptoError.ReservedValue = SarError.ReservedValue"
| "SarError_from_SarCryptoError SarCryptoError.InvalidLength = SarError.InvalidLength"
| "SarError_from_SarCryptoError SarCryptoError.Internal = SarError.Internal"
| "SarError_from_SarCryptoError SarCryptoError.NonceReuse = SarError.NonceReuse"
| "SarError_from_SarCryptoError SarCryptoError.FlagConflict = SarError.FlagConflict"

abbreviation (input) "ENCR_PLAINTEXT \<equiv> 0x00 :: u8"
abbreviation (input) "ENCR_AES256_GCM \<equiv> 0x01 :: u8"
abbreviation (input) "ENCR_CHACHA20 \<equiv> 0x02 :: u8"
abbreviation (input) "ENCR_AES256_CBC \<equiv> 0x03 :: u8"
abbreviation (input) "ENCR_XCHACHA20_POLY \<equiv> 0x04 :: u8"
abbreviation (input) "ENCR_CHACHA20_POLY1305 \<equiv> 0x05 :: u8"
abbreviation (input) "KMS_PBKDF2 \<equiv> 0x01 :: u8"
abbreviation (input) "KMS_ARGON2 \<equiv> 0x02 :: u8"
abbreviation (input) "KMS_ASYMMETRIC_WRAP \<equiv> 0x03 :: u8"
abbreviation (input) "KMS_TLS_EXPORTER \<equiv> 0x04 :: u8"
abbreviation (input) "PBKDF2_PRF_HMAC_SHA256 \<equiv> 0x01 :: u8"
abbreviation (input) "PBKDF2_PRF_HMAC_SHA512 \<equiv> 0x02 :: u8"
abbreviation (input) "PBKDF2_PRF_HMAC_SHA3_256 \<equiv> 0x03 :: u8"
abbreviation (input) "ARGON2_VARIANT_D \<equiv> 0x01 :: u8"
abbreviation (input) "ARGON2_VARIANT_I \<equiv> 0x02 :: u8"
abbreviation (input) "ARGON2_VARIANT_ID \<equiv> 0x03 :: u8"
abbreviation (input) "AEAD_TAG_SIZE \<equiv> 16 :: nat"
abbreviation (input) "AEAD_KEY_SIZE \<equiv> 32 :: nat"
abbreviation (input) "TLS_EXPORTER_CONTEXT_VERSION_1 \<equiv> 0x01 :: u8"
abbreviation (input) "TLS_EXPORTER_KDF_DIRECT \<equiv> 0x00 :: u8"

definition validate_encr_algo_id :: "u8 \<Rightarrow> SarCryptoError + unit" where
  "validate_encr_algo_id algo_id =
     (if algo_id = ENCR_PLAINTEXT \<or> algo_id = ENCR_AES256_GCM then Inr ()
      else if algo_id = ENCR_CHACHA20 \<or> algo_id = ENCR_AES256_CBC then Inl SarCryptoError.Unsupported
      else if algo_id = ENCR_XCHACHA20_POLY then Inr ()
      else if algo_id = ENCR_CHACHA20_POLY1305 then Inl SarCryptoError.Unsupported
      else if algo_id \<le> 0xEF then Inl SarCryptoError.ReservedValue
      else Inl SarCryptoError.Unsupported)"

definition validate_kms_mode_id :: "u8 \<Rightarrow> SarCryptoError + unit" where
  "validate_kms_mode_id mode_id =
     (if mode_id = KMS_PBKDF2 \<or> mode_id = KMS_ARGON2 \<or> mode_id = KMS_ASYMMETRIC_WRAP then Inr ()
      else if mode_id = KMS_TLS_EXPORTER then Inl SarCryptoError.Unsupported
      else if 0xF0 \<le> mode_id then Inl SarCryptoError.Unsupported
      else Inl SarCryptoError.ReservedValue)"

section \<open>Authenticated encryption\<close>

text \<open>
  The functions of other packages: a seal takes key, nonce, additional data and plaintext and
  returns ciphertext and tag; an open takes key, nonce, additional data, ciphertext and tag;
  \<^const>\<open>None\<close> is an error of the package.
\<close>

record Primitives =
  aes_gcm_seal :: "bytes \<Rightarrow> bytes \<Rightarrow> bytes \<Rightarrow> bytes \<Rightarrow> (bytes \<times> bytes) option"
  aes_gcm_open :: "bytes \<Rightarrow> bytes \<Rightarrow> bytes \<Rightarrow> bytes \<Rightarrow> bytes \<Rightarrow> bytes option"
  xchacha_seal :: "bytes \<Rightarrow> bytes \<Rightarrow> bytes \<Rightarrow> bytes \<Rightarrow> (bytes \<times> bytes) option"
  xchacha_open :: "bytes \<Rightarrow> bytes \<Rightarrow> bytes \<Rightarrow> bytes \<Rightarrow> bytes \<Rightarrow> bytes option"
  pbkdf2_hmac_sha256 :: "bytes \<Rightarrow> bytes \<Rightarrow> u32 \<Rightarrow> nat \<Rightarrow> bytes"
  argon2_params :: "u32 \<Rightarrow> u32 \<Rightarrow> u32 \<Rightarrow> nat \<Rightarrow> bool"
  argon2id :: "u32 \<Rightarrow> u32 \<Rightarrow> u32 \<Rightarrow> bytes \<Rightarrow> bytes \<Rightarrow> nat \<Rightarrow> bytes option"

definition build_aead_aad :: "bytes \<Rightarrow> bytes \<Rightarrow> bytes" where
  "build_aead_aad global_flags_section lfh_bytes = global_flags_section @ lfh_bytes"

definition validate_nonce_field :: "u8 \<Rightarrow> bytes \<Rightarrow> bool \<Rightarrow> SarCryptoError + unit" where
  "validate_nonce_field algo_id field strict =
     (if algo_id = ENCR_AES256_GCM then
        (if strict \<and> list_ex (\<lambda>b. b \<noteq> 0) (drop 12 field) then Inl SarCryptoError.Malformed else Inr ())
      else if algo_id = ENCR_XCHACHA20_POLY then Inr ()
      else Inl SarCryptoError.Unsupported)"

definition aead_encrypt ::
    "Primitives \<Rightarrow> u8 \<Rightarrow> bytes \<Rightarrow> bytes \<Rightarrow> bytes \<Rightarrow> bytes \<Rightarrow> SarCryptoError + bytes" where
  "aead_encrypt prims algo_id key iv_nonce_field aad plaintext =
     (if length key \<noteq> AEAD_KEY_SIZE then Inl SarCryptoError.InvalidLength else
      bindR (validate_nonce_field algo_id iv_nonce_field True) (\<lambda>_.
      if algo_id = ENCR_AES256_GCM then
        let nonce = take 12 iv_nonce_field in
        if length nonce \<noteq> 12 then Inl SarCryptoError.InvalidLength else
        (case aes_gcm_seal prims key nonce aad plaintext of
           None \<Rightarrow> Inl SarCryptoError.Internal
         | Some (ciphertext, tag) \<Rightarrow> Inr (ciphertext @ tag))
      else if algo_id = ENCR_XCHACHA20_POLY then
        if length iv_nonce_field \<noteq> 24 then Inl SarCryptoError.InvalidLength else
        (case xchacha_seal prims key iv_nonce_field aad plaintext of
           None \<Rightarrow> Inl SarCryptoError.Internal
         | Some (ciphertext, tag) \<Rightarrow> Inr (ciphertext @ tag))
      else Inl SarCryptoError.Unsupported))"

definition aead_decrypt ::
    "Primitives \<Rightarrow> u8 \<Rightarrow> bytes \<Rightarrow> bytes \<Rightarrow> bytes \<Rightarrow> bytes \<Rightarrow> SarCryptoError + bytes" where
  "aead_decrypt prims algo_id key iv_nonce_field aad ciphertext_with_tag =
     (if length key \<noteq> AEAD_KEY_SIZE then Inl SarCryptoError.InvalidLength else
      if length ciphertext_with_tag < AEAD_TAG_SIZE then Inl SarCryptoError.InvalidLength else
      let ct_len = length ciphertext_with_tag - AEAD_TAG_SIZE;
          ciphertext = take ct_len ciphertext_with_tag;
          tag = drop ct_len ciphertext_with_tag in
      bindR (validate_nonce_field algo_id iv_nonce_field True) (\<lambda>_.
      if algo_id = ENCR_AES256_GCM then
        let nonce = take 12 iv_nonce_field in
        if length nonce \<noteq> 12 then Inl SarCryptoError.InvalidLength else
        ok_or (aes_gcm_open prims key nonce aad ciphertext tag) SarCryptoError.AuthFailed
      else if algo_id = ENCR_XCHACHA20_POLY then
        if length iv_nonce_field \<noteq> 24 then Inl SarCryptoError.InvalidLength else
        ok_or (xchacha_open prims key iv_nonce_field aad ciphertext tag) SarCryptoError.AuthFailed
      else Inl SarCryptoError.Unsupported))"

section \<open>Key-management payloads\<close>

record Pbkdf2Params =
  pb_prf_algo_id :: u8
  pb_salt :: bytes
  pb_iterations :: u32
  pb_derived_key_length :: u16

record Argon2Params =
  ar_variant :: u8
  ar_version :: u8
  ar_salt :: bytes
  ar_memory_cost_kib :: u32
  ar_time_cost :: u32
  ar_parallelism :: u16
  ar_derived_key_length :: u16

record AsymmetricRecipient =
  re_recipient_id :: bytes
  re_wrapped_key :: bytes

record AsymmetricWrapParams =
  aw_wrap_algo_id :: u8
  aw_recipients :: "AsymmetricRecipient list"

record TlsExporterParams =
  te_exporter_label :: bytes
  te_context_version :: u8
  te_aead_algo_id :: u8
  te_kdf_algo_id :: u8
  te_global_header_hash_algo_id :: u8
  te_salt :: bytes
  te_derived_key_length :: u16
  te_flags :: u16

datatype KmsParams = Pbkdf2 Pbkdf2Params | Argon2 Argon2Params | AsymmetricWrap AsymmetricWrapParams |
  TlsExporter TlsExporterParams

record KmsContext =
  kc_mode_id :: u8
  kc_params :: KmsParams

definition serialize_tls_exporter_kms_payload :: "TlsExporterParams \<Rightarrow> bytes" where
  "serialize_tls_exporter_kms_payload params =
     [of_nat (length (te_exporter_label params))] @ te_exporter_label params @
     [te_context_version params, te_aead_algo_id params, te_kdf_algo_id params,
      te_global_header_hash_algo_id params, of_nat (length (te_salt params))] @ te_salt params @
     le_bytes 2 (te_derived_key_length params) @ le_bytes 2 (te_flags params)"

definition serialize_recipient :: "AsymmetricRecipient \<Rightarrow> bytes" where
  "serialize_recipient recipient =
     [of_nat (length (re_recipient_id recipient))] @ re_recipient_id recipient @
     le_bytes 2 (of_nat (length (re_wrapped_key recipient)) :: u16) @ re_wrapped_key recipient"

primrec serialize_kms_payload :: "KmsParams \<Rightarrow> bytes" where
  "serialize_kms_payload (Pbkdf2 p) =
     [pb_prf_algo_id p, of_nat (length (pb_salt p))] @ pb_salt p @
     le_bytes 4 (pb_iterations p) @ le_bytes 2 (pb_derived_key_length p)"
| "serialize_kms_payload (Argon2 p) =
     [ar_variant p, ar_version p, of_nat (length (ar_salt p))] @ ar_salt p @
     le_bytes 4 (ar_memory_cost_kib p) @ le_bytes 4 (ar_time_cost p) @
     le_bytes 2 (ar_parallelism p) @ le_bytes 2 (ar_derived_key_length p)"
| "serialize_kms_payload (AsymmetricWrap p) =
     [aw_wrap_algo_id p, of_nat (length (aw_recipients p))] @
     concat (map serialize_recipient (aw_recipients p))"
| "serialize_kms_payload (TlsExporter p) = serialize_tls_exporter_kms_payload p"

definition parse_pbkdf2 :: "bytes \<Rightarrow> SarCryptoError + KmsParams" where
  "parse_pbkdf2 payload =
     (if length payload < 2 then Inl SarCryptoError.Malformed else
      let prf_algo_id = payload ! 0 in
      if prf_algo_id = PBKDF2_PRF_HMAC_SHA512 \<or> prf_algo_id = PBKDF2_PRF_HMAC_SHA3_256
      then Inl SarCryptoError.Unsupported else
      if prf_algo_id \<noteq> PBKDF2_PRF_HMAC_SHA256 then Inl SarCryptoError.ReservedValue else
      let salt_len = unat (payload ! 1) in
      if salt_len < 16 then Inl SarCryptoError.Malformed else
      let salt_end = 2 + salt_len in
      if length payload < salt_end + 6 then Inl SarCryptoError.Malformed else
      let salt = slice payload 2 salt_len;
          iterations = from_le (slice payload salt_end 4) :: u32 in
      if iterations < 100000 then Inl SarCryptoError.Malformed else
      if iterations > 10000000 then Inl SarCryptoError.Malformed else
      let derived_key_length = from_le (slice payload (salt_end + 4) 2) :: u16 in
      if derived_key_length \<noteq> 32 then Inl SarCryptoError.Malformed else
      Inr (Pbkdf2 \<lparr> pb_prf_algo_id = prf_algo_id, pb_salt = salt, pb_iterations = iterations,
                    pb_derived_key_length = derived_key_length \<rparr>))"

definition parse_argon2 :: "bytes \<Rightarrow> SarCryptoError + KmsParams" where
  "parse_argon2 payload =
     (if length payload < 3 then Inl SarCryptoError.Malformed else
      let variant = payload ! 0 in
      if variant = ARGON2_VARIANT_D \<or> variant = ARGON2_VARIANT_I then Inl SarCryptoError.Unsupported else
      if variant \<noteq> ARGON2_VARIANT_ID then Inl SarCryptoError.ReservedValue else
      let version = payload ! 1 in
      if version = 0 then Inl SarCryptoError.Malformed else
      let salt_len = unat (payload ! 2) in
      if salt_len < 16 then Inl SarCryptoError.Malformed else
      let salt_end = 3 + salt_len in
      if length payload < salt_end + 12 then Inl SarCryptoError.Malformed else
      let salt = slice payload 3 salt_len;
          memory_cost_kib = from_le (slice payload salt_end 4) :: u32 in
      if memory_cost_kib < 65536 then Inl SarCryptoError.Malformed else
      if memory_cost_kib > 2097152 then Inl SarCryptoError.Malformed else
      let time_cost = from_le (slice payload (salt_end + 4) 4) :: u32 in
      if time_cost < 1 then Inl SarCryptoError.Malformed else
      if time_cost > 100 then Inl SarCryptoError.Malformed else
      let parallelism = from_le (slice payload (salt_end + 8) 2) :: u16 in
      if parallelism < 1 then Inl SarCryptoError.Malformed else
      if parallelism > 256 then Inl SarCryptoError.Malformed else
      let derived_key_length = from_le (slice payload (salt_end + 10) 2) :: u16 in
      if derived_key_length \<noteq> 32 then Inl SarCryptoError.Malformed else
      Inr (Argon2 \<lparr> ar_variant = variant, ar_version = version, ar_salt = salt,
                    ar_memory_cost_kib = memory_cost_kib, ar_time_cost = time_cost,
                    ar_parallelism = parallelism, ar_derived_key_length = derived_key_length \<rparr>))"

definition parse_recipient ::
    "bytes \<Rightarrow> nat \<times> AsymmetricRecipient list \<Rightarrow> SarCryptoError + (nat \<times> AsymmetricRecipient list)" where
  "parse_recipient payload = (\<lambda>(pos, recipients).
     if pos \<ge> length payload then Inl SarCryptoError.Malformed else
     let recipient_id_len = unat (payload ! pos);
         pos = pos + 1 in
     if pos + recipient_id_len > length payload then Inl SarCryptoError.Malformed else
     let recipient_id = slice payload pos recipient_id_len;
         pos = pos + recipient_id_len in
     if pos + 2 > length payload then Inl SarCryptoError.Malformed else
     let wrapped_key_len = unat (from_le (slice payload pos 2) :: u16);
         pos = pos + 2 in
     if wrapped_key_len = 0 then Inl SarCryptoError.Malformed else
     if pos + wrapped_key_len > length payload then Inl SarCryptoError.Malformed else
     let wrapped_key = slice payload pos wrapped_key_len;
         pos = pos + wrapped_key_len in
     Inr (pos, recipients @ [\<lparr> re_recipient_id = recipient_id, re_wrapped_key = wrapped_key \<rparr>]))"

definition parse_asymmetric_wrap :: "bytes \<Rightarrow> SarCryptoError + KmsParams" where
  "parse_asymmetric_wrap payload =
     (if length payload < 2 then Inl SarCryptoError.Malformed else
      let wrap_algo_id = payload ! 0;
          recipient_count = unat (payload ! 1) in
      if recipient_count < 1 then Inl SarCryptoError.Malformed else
      bindR (foldR (\<lambda>_. parse_recipient payload) [0..<recipient_count] (2, [])) (\<lambda>(_, recipients).
      Inr (AsymmetricWrap \<lparr> aw_wrap_algo_id = wrap_algo_id, aw_recipients = recipients \<rparr>)))"

definition parse_kms_payload :: "u8 \<Rightarrow> bytes \<Rightarrow> SarCryptoError + KmsParams" where
  "parse_kms_payload mode_id payload =
     (if mode_id = KMS_PBKDF2 then parse_pbkdf2 payload
      else if mode_id = KMS_ARGON2 then parse_argon2 payload
      else if mode_id = KMS_ASYMMETRIC_WRAP then parse_asymmetric_wrap payload
      else if mode_id = KMS_TLS_EXPORTER then Inl SarCryptoError.Unsupported
      else if 0xF0 \<le> mode_id then Inl SarCryptoError.Unsupported
      else Inl SarCryptoError.ReservedValue)"

definition parse_tls_exporter_kms_payload :: "bytes \<Rightarrow> SarCryptoError + TlsExporterParams" where
  "parse_tls_exporter_kms_payload payload =
     (if payload = [] then Inl SarCryptoError.Malformed else
      let label_len = unat (payload ! 0) in
      bindR (ok_or (checked_add_usize 1 label_len) SarCryptoError.Malformed) (\<lambda>label_end.
      if length payload < label_end + 7 then Inl SarCryptoError.Malformed else
      let label_bytes = slice payload 1 label_len in
      if \<not> list_all (\<lambda>b. b < 0x80) label_bytes then Inl SarCryptoError.Malformed else
      if label_bytes = [] then Inl SarCryptoError.Malformed else
      if \<not> utf8_valid label_bytes then Inl SarCryptoError.Malformed else
      let pos = label_end;
          context_version = payload ! pos in
      if context_version \<noteq> TLS_EXPORTER_CONTEXT_VERSION_1 then Inl SarCryptoError.Unsupported else
      let aead_algo_id = payload ! (pos + 1);
          kdf_algo_id = payload ! (pos + 2) in
      if kdf_algo_id \<noteq> TLS_EXPORTER_KDF_DIRECT then Inl SarCryptoError.ReservedValue else
      let global_header_hash_algo_id = payload ! (pos + 3);
          pos = pos + 4 in
      if pos \<ge> length payload then Inl SarCryptoError.Malformed else
      let salt_len = unat (payload ! pos);
          pos = pos + 1 in
      bindR (ok_or (checked_add_usize pos salt_len) SarCryptoError.Malformed) (\<lambda>salt_end.
      if length payload < salt_end + 4 then Inl SarCryptoError.Malformed else
      let salt = slice payload pos salt_len;
          pos = salt_end;
          derived_key_length = from_le (slice payload pos 2) :: u16 in
      if derived_key_length = 0 then Inl SarCryptoError.Malformed else
      let flags = from_le (slice payload (pos + 2) 2) :: u16 in
      if flags \<noteq> 0 then Inl SarCryptoError.ReservedValue else
      Inr \<lparr> te_exporter_label = label_bytes, te_context_version = context_version,
            te_aead_algo_id = aead_algo_id, te_kdf_algo_id = kdf_algo_id,
            te_global_header_hash_algo_id = global_header_hash_algo_id, te_salt = salt,
            te_derived_key_length = derived_key_length, te_flags = flags \<rparr>)))"

primrec params_mode_id :: "KmsParams \<Rightarrow> u8" where
  "params_mode_id (Pbkdf2 _) = KMS_PBKDF2"
| "params_mode_id (Argon2 _) = KMS_ARGON2"
| "params_mode_id (AsymmetricWrap _) = KMS_ASYMMETRIC_WRAP"
| "params_mode_id (TlsExporter _) = KMS_TLS_EXPORTER"

definition build_kms_context :: "GlobalHeader \<Rightarrow> SarError + KmsContext" where
  "build_kms_context header =
     bindR (ok_or (gh_kms header) SarError.Malformed) (\<lambda>kms.
     bindR (if kms_mode_id kms = KMS_TLS_EXPORTER
            then bindR (map_err SarError_from_SarCryptoError
                         (parse_tls_exporter_kms_payload (kms_payload kms))) (\<lambda>p. Inr (TlsExporter p))
            else map_err SarError_from_SarCryptoError
                   (parse_kms_payload (kms_mode_id kms) (kms_payload kms))) (\<lambda>params.
     Inr \<lparr> kc_mode_id = kms_mode_id kms, kc_params = params \<rparr>))"

section \<open>Key derivation and resolution\<close>

definition pbkdf2_derive_key :: "Primitives \<Rightarrow> Pbkdf2Params \<Rightarrow> bytes \<Rightarrow> SarCryptoError + bytes" where
  "pbkdf2_derive_key prims params password =
     (if length (pb_salt params) < 16 then Inl SarCryptoError.Malformed else
      if pb_iterations params < 100000 then Inl SarCryptoError.Malformed else
      if pb_derived_key_length params \<noteq> 32 then Inl SarCryptoError.Malformed else
      if pb_prf_algo_id params \<noteq> PBKDF2_PRF_HMAC_SHA256 then Inl SarCryptoError.Unsupported else
      Inr (pbkdf2_hmac_sha256 prims password (pb_salt params) (pb_iterations params) AEAD_KEY_SIZE))"

definition argon2_derive_key :: "Primitives \<Rightarrow> Argon2Params \<Rightarrow> bytes \<Rightarrow> SarCryptoError + bytes" where
  "argon2_derive_key prims params password =
     (if ar_variant params \<noteq> ARGON2_VARIANT_ID then Inl SarCryptoError.Unsupported else
      if ar_version params = 0 then Inl SarCryptoError.Malformed else
      if length (ar_salt params) < 16 then Inl SarCryptoError.Malformed else
      if ar_memory_cost_kib params < 65536 then Inl SarCryptoError.Malformed else
      if ar_time_cost params < 1 then Inl SarCryptoError.Malformed else
      if ar_parallelism params < 1 then Inl SarCryptoError.Malformed else
      if ar_derived_key_length params \<noteq> 32 then Inl SarCryptoError.Malformed else
      let m = ar_memory_cost_kib params; t = ar_time_cost params;
          lanes = ucast (ar_parallelism params) :: u32 in
      if \<not> argon2_params prims m t lanes AEAD_KEY_SIZE then Inl SarCryptoError.Malformed else
      ok_or (argon2id prims m t lanes password (ar_salt params) AEAD_KEY_SIZE) SarCryptoError.Internal)"

text \<open>A key provider is the caller's implementation of the trait, as the functions it offers.\<close>

record KeyProvider =
  password_for :: "KmsContext \<Rightarrow> SarCryptoError + bytes option"
  unwrap_key :: "KmsContext \<Rightarrow> bytes \<Rightarrow> SarCryptoError + bytes option"
  external_key :: "KmsContext \<Rightarrow> SarCryptoError + bytes option"

primrec unwrap_first :: "KeyProvider \<Rightarrow> KmsContext \<Rightarrow> AsymmetricRecipient list \<Rightarrow> SarCryptoError + bytes" where
  "unwrap_first provider context [] = Inl SarCryptoError.KeyMissing"
| "unwrap_first provider context (recipient # recipients) =
     bindR (unwrap_key provider context (re_wrapped_key recipient)) (\<lambda>key.
     case key of Some k \<Rightarrow> Inr k | None \<Rightarrow> unwrap_first provider context recipients)"

definition resolve_cek :: "Primitives \<Rightarrow> KeyProvider \<Rightarrow> KmsContext \<Rightarrow> SarCryptoError + bytes" where
  "resolve_cek prims provider context =
     bindR (external_key provider context) (\<lambda>key.
     case key of Some k \<Rightarrow> Inr k | None \<Rightarrow>
     case kc_params context of
       Pbkdf2 params \<Rightarrow>
         bindR (password_for provider context) (\<lambda>password.
         bindR (ok_or password SarCryptoError.KeyMissing) (pbkdf2_derive_key prims params))
     | Argon2 params \<Rightarrow>
         bindR (password_for provider context) (\<lambda>password.
         bindR (ok_or password SarCryptoError.KeyMissing) (argon2_derive_key prims params))
     | AsymmetricWrap params \<Rightarrow> unwrap_first provider context (aw_recipients params)
     | TlsExporter _ \<Rightarrow> Inl SarCryptoError.Unsupported)"

section \<open>Exactness of the payload parsers\<close>

text \<open>The parameters that the parsers accept.\<close>

definition recipient_ok :: "AsymmetricRecipient \<Rightarrow> bool" where
  "recipient_ok r \<longleftrightarrow> length (re_recipient_id r) < 256 \<and> re_wrapped_key r \<noteq> [] \<and>
     length (re_wrapped_key r) < 65536"

primrec kms_params_ok :: "KmsParams \<Rightarrow> bool" where
  "kms_params_ok (Pbkdf2 p) \<longleftrightarrow> pb_prf_algo_id p = PBKDF2_PRF_HMAC_SHA256 \<and>
     16 \<le> length (pb_salt p) \<and> length (pb_salt p) < 256 \<and>
     100000 \<le> pb_iterations p \<and> pb_iterations p \<le> 10000000 \<and> pb_derived_key_length p = 32"
| "kms_params_ok (Argon2 p) \<longleftrightarrow> ar_variant p = ARGON2_VARIANT_ID \<and> ar_version p \<noteq> 0 \<and>
     16 \<le> length (ar_salt p) \<and> length (ar_salt p) < 256 \<and>
     65536 \<le> ar_memory_cost_kib p \<and> ar_memory_cost_kib p \<le> 2097152 \<and>
     ar_time_cost p \<noteq> 0 \<and> ar_time_cost p \<le> 100 \<and>
     ar_parallelism p \<noteq> 0 \<and> ar_parallelism p \<le> 256 \<and> ar_derived_key_length p = 32"
| "kms_params_ok (AsymmetricWrap p) \<longleftrightarrow> aw_recipients p \<noteq> [] \<and> length (aw_recipients p) < 256 \<and>
     list_all recipient_ok (aw_recipients p)"
| "kms_params_ok (TlsExporter p) \<longleftrightarrow> te_exporter_label p \<noteq> [] \<and>
     length (te_exporter_label p) < 256 \<and> list_all (\<lambda>b. b < 0x80) (te_exporter_label p) \<and>
     te_context_version p = TLS_EXPORTER_CONTEXT_VERSION_1 \<and> te_kdf_algo_id p = TLS_EXPORTER_KDF_DIRECT \<and>
     length (te_salt p) < 256 \<and> te_derived_key_length p \<noteq> 0 \<and> te_flags p = 0"

lemma slice_skip: "length xs \<le> i \<Longrightarrow> slice (xs @ ys) i n = slice ys (i - length xs) n"
  by (simp add: slice_def)

lemma slice_skip1: "0 < i \<Longrightarrow> slice (x # xs) i n = slice xs (i - 1) n"
  by (cases i) (simp_all add: slice_def)

lemma slice_here: "length xs = n \<Longrightarrow> slice (xs @ ys) 0 n = xs"
  by (simp add: slice_def)

lemmas slice_eval = slice_skip slice_skip1 slice_here

lemma prefixE:
  assumes "n \<le> length xs"
  obtains ys zs where "xs = ys @ zs" "length ys = n"
  using assms by (metis append_take_drop_id length_take min.absorb2)

lemma word_prefixE:
  assumes "8 * n = LENGTH('a)" "n \<le> length xs"
  obtains w :: "'a::len word" and zs where "xs = le_bytes n w @ zs"
proof -
  from prefixE [OF assms(2)] obtain ys zs where "xs = ys @ zs" "length ys = n" .
  with le_bytes_from_le [of ys, where 'a = 'a] assms(1) show ?thesis
    by (intro that [of "from_le ys" zs]) simp
qed

lemma ascii_utf8: "list_all (\<lambda>b. b < 0x80) bs \<Longrightarrow> utf8_valid bs"
  by (induction bs) auto

lemma unat_byte_len: "length xs < 256 \<Longrightarrow> length xs = unat (of_nat (length xs) :: u8)"
  by simp

text \<open>Each parser on a payload cut into its fields.\<close>

lemma parse_pbkdf2_fields:
  assumes "length salt = unat b"
  shows "parse_pbkdf2 (a # b # salt @ le_bytes 4 it @ le_bytes 2 dk @ rest) = Inr params \<longleftrightarrow>
    params = Pbkdf2 \<lparr> pb_prf_algo_id = a, pb_salt = salt, pb_iterations = it, pb_derived_key_length = dk \<rparr> \<and>
    kms_params_ok params"
  using assms
  by (simp add: parse_pbkdf2_def Let_def slice_eval from_le_le_bytes if_Inl_eq_Inr not_less) auto

lemma parse_pbkdf2_Inr:
  "parse_pbkdf2 payload = Inr params \<longleftrightarrow> params_mode_id params = KMS_PBKDF2 \<and>
     kms_params_ok params \<and> (\<exists>rest. payload = serialize_kms_payload params @ rest)"
  (is "?l \<longleftrightarrow> ?r")
proof
  assume l: ?l
  then obtain a b tail where p: "payload = a # b # tail" and n: "unat b + 6 \<le> length tail"
    by (cases payload; cases "tl payload") (auto simp: parse_pbkdf2_def Let_def split: if_splits)
  from prefixE [of "unat b" tail] n obtain salt t1 where 1: "tail = salt @ t1" "length salt = unat b"
    by auto
  from word_prefixE [of 4 t1, where 'a = 32] n 1 obtain it :: u32 and t2 where 2: "t1 = le_bytes 4 it @ t2"
    by auto
  from word_prefixE [of 2 t2, where 'a = 16] n 1 2 obtain dk :: u16 and t3 where 3: "t2 = le_bytes 2 dk @ t3"
    by auto
  have "params = Pbkdf2 \<lparr> pb_prf_algo_id = a, pb_salt = salt, pb_iterations = it, pb_derived_key_length = dk \<rparr> \<and>
      kms_params_ok params"
    using l unfolding p 1(1) 2 3 parse_pbkdf2_fields [OF 1(2)] .
  then show ?r
    by (elim conjE) (simp add: p 1 2 3)
next
  assume r: ?r
  then obtain q rest where q: "params = Pbkdf2 q" and ok: "kms_params_ok params"
    and rest: "payload = serialize_kms_payload params @ rest"
    by (cases params) auto
  have "length (pb_salt q) = unat (of_nat (length (pb_salt q)) :: u8)"
    using ok by (simp add: q)
  from parse_pbkdf2_fields [OF this, of "pb_prf_algo_id q" "pb_iterations q" "pb_derived_key_length q" rest params]
  show ?l
    using ok by (simp add: rest q)
qed

lemma parse_argon2_fields:
  assumes "length salt = unat b"
  shows "parse_argon2 (a # v # b # salt @ le_bytes 4 m @ le_bytes 4 t @ le_bytes 2 l @ le_bytes 2 dk @ rest) =
      Inr params \<longleftrightarrow>
    params = Argon2 \<lparr> ar_variant = a, ar_version = v, ar_salt = salt, ar_memory_cost_kib = m,
      ar_time_cost = t, ar_parallelism = l, ar_derived_key_length = dk \<rparr> \<and>
    kms_params_ok params"
  using assms
  by (simp add: parse_argon2_def Let_def slice_eval from_le_le_bytes if_Inl_eq_Inr not_less) auto

lemma parse_argon2_Inr:
  "parse_argon2 payload = Inr params \<longleftrightarrow> params_mode_id params = KMS_ARGON2 \<and>
     kms_params_ok params \<and> (\<exists>rest. payload = serialize_kms_payload params @ rest)"
  (is "?l \<longleftrightarrow> ?r")
proof
  assume l: ?l
  then obtain a v b tail where p: "payload = a # v # b # tail" and n: "unat b + 12 \<le> length tail"
    by (cases payload; cases "tl payload"; cases "tl (tl payload)")
      (auto simp: parse_argon2_def Let_def split: if_splits)
  from prefixE [of "unat b" tail] n obtain salt t1 where 1: "tail = salt @ t1" "length salt = unat b"
    by auto
  from word_prefixE [of 4 t1, where 'a = 32] n 1 obtain m :: u32 and t2 where 2: "t1 = le_bytes 4 m @ t2"
    by auto
  from word_prefixE [of 4 t2, where 'a = 32] n 1 2 obtain t :: u32 and t3 where 3: "t2 = le_bytes 4 t @ t3"
    by auto
  from word_prefixE [of 2 t3, where 'a = 16] n 1 2 3 obtain q :: u16 and t4 where 4: "t3 = le_bytes 2 q @ t4"
    by auto
  from word_prefixE [of 2 t4, where 'a = 16] n 1 2 3 4 obtain dk :: u16 and t5 where 5: "t4 = le_bytes 2 dk @ t5"
    by auto
  have "params = Argon2 \<lparr> ar_variant = a, ar_version = v, ar_salt = salt, ar_memory_cost_kib = m,
      ar_time_cost = t, ar_parallelism = q, ar_derived_key_length = dk \<rparr> \<and> kms_params_ok params"
    using l unfolding p 1(1) 2 3 4 5 parse_argon2_fields [OF 1(2)] .
  then show ?r
    by (elim conjE) (simp add: p 1 2 3 4 5)
next
  assume r: ?r
  then obtain q rest where q: "params = Argon2 q" and ok: "kms_params_ok params"
    and rest: "payload = serialize_kms_payload params @ rest"
    by (cases params) auto
  have "length (ar_salt q) = unat (of_nat (length (ar_salt q)) :: u8)"
    using ok by (simp add: q)
  from parse_argon2_fields [OF this, of "ar_variant q" "ar_version q" "ar_memory_cost_kib q" "ar_time_cost q"
      "ar_parallelism q" "ar_derived_key_length q" rest params]
  show ?l
    using ok by (simp add: rest q)
qed

lemma parse_recipient_fields:
  assumes "length key_id = unat n" "length key = unat k"
  shows "parse_recipient (pre @ n # key_id @ le_bytes 2 (k :: u16) @ key @ rest) (length pre, rs) = Inr (pos, rs') \<longleftrightarrow>
    unat k \<noteq> 0 \<and> pos = length pre + 3 + unat n + unat k \<and>
    rs' = rs @ [\<lparr> re_recipient_id = key_id, re_wrapped_key = key \<rparr>]"
proof -
  let ?payload = "pre @ n # key_id @ le_bytes 2 k @ key @ rest"
  have "length ?payload = length pre + 3 + unat n + unat k + length rest" "?payload ! length pre = n"
    "slice ?payload (length pre + 1) (unat n) = key_id"
    "slice ?payload (length pre + 1 + unat n) 2 = le_bytes 2 k"
    "slice ?payload (length pre + 1 + unat n + 2) (unat k) = key"
    using assms by (simp_all add: slice_eval)
  then show ?thesis
    by (simp add: parse_recipient_def Let_def from_le_le_bytes if_Inl_eq_Inr not_less) auto
qed

lemma parse_recipient_Inr:
  "parse_recipient (pre @ tail) (length pre, rs) = Inr (pos, rs') \<longleftrightarrow>
     (\<exists>r rest. rs' = rs @ [r] \<and> recipient_ok r \<and> tail = serialize_recipient r @ rest \<and>
        pos = length (pre @ serialize_recipient r))"
  (is "?l \<longleftrightarrow> ?r")
proof
  assume l: ?l
  then obtain n t0 where p: "tail = n # t0" and n: "unat n + 2 \<le> length t0"
    by (cases tail) (auto simp: parse_recipient_def Let_def split: if_splits)
  from prefixE [of "unat n" t0] n obtain key_id t1 where 1: "t0 = key_id @ t1" "length key_id = unat n"
    by auto
  from word_prefixE [of 2 t1, where 'a = 16] n 1 obtain k :: u16 and t2 where 2: "t1 = le_bytes 2 k @ t2"
    by auto
  have "unat k \<le> length t2"
    using l 1(2) by (auto simp: parse_recipient_def Let_def p 1(1) 2 slice_eval from_le_le_bytes split: if_splits)
  from prefixE [OF this] obtain key t3 where 3: "t2 = key @ t3" "length key = unat k"
    by auto
  show ?r
    using l parse_recipient_fields [OF 1(2) 3(2), of pre t3 rs pos rs'] 1(2) 3(2)
      unat_u8_less [of n] unat_u16_less [of k]
    by (auto simp: p 1(1) 2 3(1) serialize_recipient_def recipient_ok_def
        simp del: unat_u8_less unat_u16_less intro!: exI [of _ t3])
next
  assume ?r
  then obtain r rest where r: "recipient_ok r" and *: "rs' = rs @ [r]" "tail = serialize_recipient r @ rest"
    "pos = length (pre @ serialize_recipient r)"
    by blast
  have "length (re_recipient_id r) = unat (of_nat (length (re_recipient_id r)) :: u8)"
    "length (re_wrapped_key r) = unat (of_nat (length (re_wrapped_key r)) :: u16)"
    using r by (simp_all add: recipient_ok_def)
  from parse_recipient_fields [OF this, of pre rest rs pos rs'] show ?l
    using r by (auto simp: * serialize_recipient_def recipient_ok_def)
qed

lemma parse_recipients_Inr:
  "(\<exists>pos. foldR (\<lambda>_. parse_recipient (pre @ tail)) ks (length pre, rs) = Inr (pos, rs')) \<longleftrightarrow>
     (\<exists>new rest. rs' = rs @ new \<and> length new = length ks \<and> list_all recipient_ok new \<and>
        tail = concat (map serialize_recipient new) @ rest)"
  (is "?l pre tail ks rs \<longleftrightarrow> ?r tail ks rs")
proof (induction ks arbitrary: pre tail rs)
  case (Cons k ks)
  show ?case
  proof
    assume "?l pre tail (k # ks) rs"
    then obtain pos p1 rs1 where 1: "parse_recipient (pre @ tail) (length pre, rs) = Inr (p1, rs1)"
      and 2: "foldR (\<lambda>_. parse_recipient (pre @ tail)) ks (p1, rs1) = Inr (pos, rs')"
      unfolding foldR.simps bindR_eq_Inr split_paired_Ex by blast
    from 1 obtain r rest where r: "rs1 = rs @ [r]" "recipient_ok r" "tail = serialize_recipient r @ rest"
      "p1 = length (pre @ serialize_recipient r)"
      unfolding parse_recipient_Inr by blast
    from 2 have "?l (pre @ serialize_recipient r) rest ks (rs @ [r])"
      unfolding r append_assoc by (rule exI)
    then obtain new rest' where new: "rs' = (rs @ [r]) @ new" "length new = length ks"
      "list_all recipient_ok new" "rest = concat (map serialize_recipient new) @ rest'"
      unfolding Cons.IH by blast
    show "?r tail (k # ks) rs"
      by (rule exI [of _ "r # new"], rule exI [of _ rest']) (simp add: new r(2,3))
  next
    assume "?r tail (k # ks) rs"
    then obtain r new rest where new: "rs' = rs @ r # new" "length new = length ks" "recipient_ok r"
      "list_all recipient_ok new" "tail = serialize_recipient r @ concat (map serialize_recipient new) @ rest"
      by (auto simp: length_Suc_conv)
    have 1: "parse_recipient (pre @ tail) (length pre, rs) = Inr (length (pre @ serialize_recipient r), rs @ [r])"
      unfolding parse_recipient_Inr
      by (rule exI [of _ r], rule exI [of _ "concat (map serialize_recipient new) @ rest"]) (simp add: new)
    have "?l (pre @ serialize_recipient r) (concat (map serialize_recipient new) @ rest) ks (rs @ [r])"
      unfolding Cons.IH by (rule exI [of _ new], rule exI [of _ rest]) (simp add: new)
    then show "?l pre tail (k # ks) rs"
      unfolding foldR.simps 1 bindR_Inr by (simp only: new(5) append_assoc)
  qed
qed auto

lemma parse_asymmetric_wrap_Inr:
  "parse_asymmetric_wrap payload = Inr params \<longleftrightarrow> params_mode_id params = KMS_ASYMMETRIC_WRAP \<and>
     kms_params_ok params \<and> (\<exists>rest. payload = serialize_kms_payload params @ rest)"
proof (cases "length payload < 2")
  case True
  then show ?thesis
    by (cases params) (auto simp: parse_asymmetric_wrap_def)
next
  case False
  then obtain a n tail where p: "payload = [a, n] @ tail"
    by (cases payload; cases "tl payload") auto
  have "parse_asymmetric_wrap payload = Inr params \<longleftrightarrow> unat n \<noteq> 0 \<and>
      (\<exists>rs. params = AsymmetricWrap \<lparr> aw_wrap_algo_id = a, aw_recipients = rs \<rparr> \<and>
        (\<exists>pos. foldR (\<lambda>_. parse_recipient payload) [0..<unat n] (length [a, n], []) = Inr (pos, rs)))"
    by (auto simp: parse_asymmetric_wrap_def p bindR_eq_Inr Let_def numeral_2_eq_2)
  also have "\<dots> \<longleftrightarrow> unat n \<noteq> 0 \<and>
      (\<exists>rs. params = AsymmetricWrap \<lparr> aw_wrap_algo_id = a, aw_recipients = rs \<rparr> \<and>
        length rs = unat n \<and> list_all recipient_ok rs \<and>
        (\<exists>rest. tail = concat (map serialize_recipient rs) @ rest))"
    unfolding p parse_recipients_Inr by auto
  also have "\<dots> \<longleftrightarrow> params_mode_id params = KMS_ASYMMETRIC_WRAP \<and> kms_params_ok params \<and>
      (\<exists>rest. payload = serialize_kms_payload params @ rest)"
  proof (cases params)
    case (AsymmetricWrap q)
    obtain w rs where q: "q = \<lparr> aw_wrap_algo_id = w, aw_recipients = rs \<rparr>"
      by (cases q)
    show ?thesis
      using unat_u8_less [of n]
      by (auto simp: AsymmetricWrap q p simp del: unat_u8_less)
  qed auto
  finally show ?thesis .
qed

lemma parse_tls_fields:
  assumes "length label = unat n" "length salt = unat b"
  shows "parse_tls_exporter_kms_payload (n # label @ [v, a, k, h, b] @ salt @ le_bytes 2 dk @ le_bytes 2 f @ rest) =
      Inr p \<longleftrightarrow>
    p = \<lparr> te_exporter_label = label, te_context_version = v, te_aead_algo_id = a, te_kdf_algo_id = k,
      te_global_header_hash_algo_id = h, te_salt = salt, te_derived_key_length = dk, te_flags = f \<rparr> \<and>
    kms_params_ok (TlsExporter p)"
proof -
  let ?payload = "n # label @ [v, a, k, h, b] @ salt @ le_bytes 2 dk @ le_bytes 2 f @ rest"
  have at: "length ?payload = unat n + unat b + 10 + length rest" "?payload ! 0 = n"
    "?payload ! (1 + unat n) = v" "?payload ! (1 + unat n + 1) = a" "?payload ! (1 + unat n + 2) = k"
    "?payload ! (1 + unat n + 3) = h" "?payload ! (1 + unat n + 4) = b"
    "slice ?payload 1 (unat n) = label"
    "slice ?payload (1 + unat n + 4 + 1) (unat b) = salt"
    "slice ?payload (1 + unat n + 4 + 1 + unat b) 2 = le_bytes 2 dk"
    "slice ?payload (1 + unat n + 4 + 1 + unat b + 2) 2 = le_bytes 2 f"
    using assms by (simp_all add: slice_eval nth_append)
  have fits: "checked_add_usize 1 (unat n) = Some (1 + unat n)"
    "checked_add_usize (1 + unat n + 4 + 1) (unat b) = Some (1 + unat n + 4 + 1 + unat b)"
    using unat_u8_less [of n] unat_u8_less [of b]
    by (simp_all add: checked_add_usize_def usize_max_def del: unat_u8_less)
  have "parse_tls_exporter_kms_payload ?payload = Inr p \<longleftrightarrow>
      list_all (\<lambda>b. b < 0x80) label \<and> label \<noteq> [] \<and> utf8_valid label \<and> v = 1 \<and> k = 0 \<and> dk \<noteq> 0 \<and> f = 0 \<and>
      p = \<lparr> te_exporter_label = label, te_context_version = v, te_aead_algo_id = a, te_kdf_algo_id = k,
        te_global_header_hash_algo_id = h, te_salt = salt, te_derived_key_length = dk, te_flags = f \<rparr>"
    unfolding parse_tls_exporter_kms_payload_def Let_def at fits ok_or_Some bindR_Inr
    by (auto simp: if_Inl_eq_Inr from_le_le_bytes)
  then show ?thesis
    using assms by (auto simp: ascii_utf8)
qed

lemma parse_tls_Inr:
  "parse_tls_exporter_kms_payload payload = Inr p \<longleftrightarrow>
     kms_params_ok (TlsExporter p) \<and> (\<exists>rest. payload = serialize_kms_payload (TlsExporter p) @ rest)"
  (is "?l \<longleftrightarrow> ?r")
proof
  assume l: ?l
  then obtain n t0 where p: "payload = n # t0" and n: "unat n + 7 \<le> length t0"
    by (cases payload)
      (auto simp: parse_tls_exporter_kms_payload_def Let_def bindR_eq_Inr checked_add_usize_Some ok_or_eq_Inr
        split: if_splits)
  from prefixE [of "unat n" t0] n obtain label t1 where 1: "t0 = label @ t1" "length label = unat n"
    by auto
  then obtain v a k h b t2 where 2: "t1 = [v, a, k, h, b] @ t2"
    using n by (auto simp: Suc_le_length_iff numeral_eq_Suc)
  have "unat b + 4 \<le> length t2"
    using l 1(2) by (auto simp: parse_tls_exporter_kms_payload_def p 1(1) 2 Let_def bindR_eq_Inr
        checked_add_usize_Some ok_or_eq_Inr nth_append split: if_splits)
  note b = this
  from prefixE [of "unat b" t2] b obtain salt t3 where 3: "t2 = salt @ t3" "length salt = unat b"
    by auto
  from word_prefixE [of 2 t3, where 'a = 16] b 3 obtain dk :: u16 and t4 where 4: "t3 = le_bytes 2 dk @ t4"
    by auto
  from word_prefixE [of 2 t4, where 'a = 16] b 3 4 obtain f :: u16 and t5 where 5: "t4 = le_bytes 2 f @ t5"
    by auto
  have "p = \<lparr> te_exporter_label = label, te_context_version = v, te_aead_algo_id = a, te_kdf_algo_id = k,
      te_global_header_hash_algo_id = h, te_salt = salt, te_derived_key_length = dk, te_flags = f \<rparr> \<and>
      kms_params_ok (TlsExporter p)"
    using l unfolding p 1(1) 2 3(1) 4 5 parse_tls_fields [OF 1(2) 3(2)] .
  then show ?r
    by (elim conjE) (simp add: p 1 2 3 4 5 serialize_tls_exporter_kms_payload_def)
next
  assume r: ?r
  then obtain rest where ok: "kms_params_ok (TlsExporter p)"
    and rest: "payload = serialize_kms_payload (TlsExporter p) @ rest"
    by blast
  have "length (te_exporter_label p) = unat (of_nat (length (te_exporter_label p)) :: u8)"
    "length (te_salt p) = unat (of_nat (length (te_salt p)) :: u8)"
    using ok by simp_all
  from parse_tls_fields [OF this, of "te_context_version p" "te_aead_algo_id p" "te_kdf_algo_id p"
      "te_global_header_hash_algo_id p" "te_derived_key_length p" "te_flags p" rest p]
  show ?l
    using ok by (simp add: rest serialize_tls_exporter_kms_payload_def)
qed

text \<open>Which mode a payload is parsed for decides which parameters come out of it.\<close>

lemma parse_kms_payload_Inr:
  "parse_kms_payload m payload = Inr params \<longleftrightarrow> m \<noteq> KMS_TLS_EXPORTER \<and> params_mode_id params = m \<and>
     kms_params_ok params \<and> (\<exists>rest. payload = serialize_kms_payload params @ rest)"
proof -
  have "params_mode_id params \<in> {1, 2, 3, 4}"
    by (cases params) simp_all
  then show ?thesis
    by (auto simp: parse_kms_payload_def parse_pbkdf2_Inr parse_argon2_Inr parse_asymmetric_wrap_Inr)
qed

lemma tls_params: "params_mode_id params = KMS_TLS_EXPORTER \<longleftrightarrow> (\<exists>p. params = TlsExporter p)"
  by (cases params) simp_all

lemma build_kms_context_iff:
  "build_kms_context header = Inr context \<longleftrightarrow>
     (\<exists>kms rest. gh_kms header = Some kms \<and> kc_mode_id context = kms_mode_id kms \<and>
        params_mode_id (kc_params context) = kms_mode_id kms \<and> kms_params_ok (kc_params context) \<and>
        kms_payload kms = serialize_kms_payload (kc_params context) @ rest)"
proof (cases "gh_kms header")
  case None
  then show ?thesis
    by (simp add: build_kms_context_def)
next
  case (Some kms)
  obtain m params where c: "context = \<lparr> kc_mode_id = m, kc_params = params \<rparr>"
    by (cases "context")
  show ?thesis
  proof (cases "kms_mode_id kms = KMS_TLS_EXPORTER")
    case True
    then show ?thesis
      using tls_params [of params]
      by (auto simp: build_kms_context_def Some c bindR_eq_Inr parse_tls_Inr simp del: kms_params_ok.simps
          serialize_kms_payload.simps)
  next
    case False
    then show ?thesis
      by (auto simp: build_kms_context_def Some c bindR_eq_Inr parse_kms_payload_Inr)
  qed
qed

text \<open>
  (C17) The key-management block of a header is read exactly as it is written: the reader obtains
  mode and parameters if and only if the block carries that mode, the parameters are within the
  documented bounds of the mode (salt of 16 to 255 bytes, 100000 to 10000000 PBKDF2 iterations,
  64 MiB to 2 GiB of Argon2 memory, at least one recipient and no empty wrapped key, an ASCII
  exporter label, and so on), and its payload starts with the serialized parameters.
\<close>

theorem kms_context_exact:
  "build_kms_context header = Inr context \<longleftrightarrow>
     (\<exists>kms rest. gh_kms header = Some kms \<and> kc_mode_id context = kms_mode_id kms \<and>
        params_mode_id (kc_params context) = kms_mode_id kms \<and> kms_params_ok (kc_params context) \<and>
        kms_payload kms = serialize_kms_payload (kc_params context) @ rest)"
  by (rule build_kms_context_iff)

definition sample_pbkdf2 :: KmsParams where
  "sample_pbkdf2 = Pbkdf2 \<lparr> pb_prf_algo_id = PBKDF2_PRF_HMAC_SHA256, pb_salt = replicate 16 7,
     pb_iterations = 100000, pb_derived_key_length = 32 \<rparr>"

theorem kms_context_exact_witness:
  "build_kms_context (sample_gh\<lparr> gh_kms := Some \<lparr> kms_mode_id = KMS_PBKDF2,
       kms_payload = serialize_kms_payload sample_pbkdf2 @ [9] \<rparr> \<rparr>) =
     Inr \<lparr> kc_mode_id = KMS_PBKDF2, kc_params = sample_pbkdf2 \<rparr>"
  unfolding kms_context_exact by (simp add: sample_pbkdf2_def)

section \<open>Keys for parsed parameters\<close>

text \<open>
  What the packages document of the two derivation functions.  PBKDF2 fills the requested number of
  bytes.  Argon2 accepts at least 8 KiB of memory per lane, at least one pass, 1 to \<open>2 ^ 24 - 1\<close> lanes
  and an output of 4 to \<open>2 ^ 32 - 1\<close> bytes; with such parameters it derives an output of the requested
  length from every salt of 8 to \<open>2 ^ 32 - 1\<close> bytes and password of at most \<open>2 ^ 32 - 1\<close> bytes.
\<close>

definition pbkdf2_documented :: "Primitives \<Rightarrow> bool" where
  "pbkdf2_documented prims \<longleftrightarrow>
     (\<forall>password salt iterations n. iterations \<noteq> 0 \<longrightarrow> n < 2 ^ 32 \<longrightarrow>
        length (pbkdf2_hmac_sha256 prims password salt iterations n) = n)"

definition argon2_documented :: "Primitives \<Rightarrow> bool" where
  "argon2_documented prims \<longleftrightarrow>
     (\<forall>m t lanes n. 8 * unat lanes \<le> unat m \<longrightarrow> t \<noteq> 0 \<longrightarrow> lanes \<noteq> 0 \<longrightarrow> lanes \<le> 0xFFFFFF \<longrightarrow>
        4 \<le> n \<longrightarrow> n < 2 ^ 32 \<longrightarrow> argon2_params prims m t lanes n) \<and>
     (\<forall>m t lanes password salt n. argon2_params prims m t lanes n \<longrightarrow> 8 \<le> length salt \<longrightarrow>
        length salt < 2 ^ 32 \<longrightarrow> length password < 2 ^ 32 \<longrightarrow>
        (\<exists>key. argon2id prims m t lanes password salt n = Some key \<and> length key = n))"

lemma pbkdf2_derives:
  assumes "pbkdf2_documented prims" "kms_params_ok (Pbkdf2 p)"
  shows "\<exists>key. pbkdf2_derive_key prims p password = Inr key \<and> length key = AEAD_KEY_SIZE"
proof -
  have "pb_iterations p \<noteq> 0" "\<not> pb_iterations p < 100000"
    using assms(2) by auto
  then show ?thesis
    using assms by (simp add: pbkdf2_derive_key_def pbkdf2_documented_def)
qed

lemma argon2_derives:
  assumes doc: "argon2_documented prims" and ok: "kms_params_ok (Argon2 p)" and pw: "length password < 2 ^ 32"
  shows "\<exists>key. argon2_derive_key prims p password = Inr key \<and> length key = AEAD_KEY_SIZE"
proof -
  let ?m = "ar_memory_cost_kib p" and ?t = "ar_time_cost p" and ?l = "ucast (ar_parallelism p) :: u32"
  have l: "unat ?l = unat (ar_parallelism p)"
    by (rule unat_ucast_up) simp
  have small: "unat (ar_parallelism p) \<le> 256" "65536 \<le> unat ?m" "unat (ar_parallelism p) \<noteq> 0"
    using ok by (simp_all add: word_le_nat_alt unat_eq_zero)
  have "8 * unat ?l \<le> unat ?m" "?t \<noteq> 0"
    using l small ok by simp_all
  moreover have "?l \<noteq> 0"
    using l small(3) by (auto simp only: unat_0)
  moreover have "?l \<le> 0xFFFFFF"
    using l small(1) by (simp add: word_le_nat_alt)
  moreover have "8 * unat ?l \<le> unat ?m \<longrightarrow> ?t \<noteq> 0 \<longrightarrow> ?l \<noteq> 0 \<longrightarrow> ?l \<le> 0xFFFFFF \<longrightarrow> 4 \<le> AEAD_KEY_SIZE \<longrightarrow>
      AEAD_KEY_SIZE < 2 ^ 32 \<longrightarrow> argon2_params prims ?m ?t ?l AEAD_KEY_SIZE"
    using doc unfolding argon2_documented_def by blast
  ultimately have par: "argon2_params prims ?m ?t ?l AEAD_KEY_SIZE"
    by simp
  moreover have "8 \<le> length (ar_salt p)" "length (ar_salt p) < 2 ^ 32"
    using ok by simp_all
  ultimately obtain key where "argon2id prims ?m ?t ?l password (ar_salt p) AEAD_KEY_SIZE = Some key"
    "length key = AEAD_KEY_SIZE"
    using doc pw unfolding argon2_documented_def by blast
  moreover have "\<not> ?m < 65536" "\<not> ?t < 1" "\<not> ar_parallelism p < 1"
    using ok by (simp_all add: not_less word_less_1)
  ultimately show ?thesis
    using par ok by (simp add: argon2_derive_key_def Let_def)
qed

lemma aead_opens:
  assumes seal: "\<And>k n a p c t. aes_gcm_seal prims k n a p = Some (c, t) \<Longrightarrow>
      length t = AEAD_TAG_SIZE \<and> aes_gcm_open prims k n a c t = Some p"
    "\<And>k n a p c t. xchacha_seal prims k n a p = Some (c, t) \<Longrightarrow>
      length t = AEAD_TAG_SIZE \<and> xchacha_open prims k n a c t = Some p"
    and "aead_encrypt prims algo_id key nonce aad plaintext = Inr sealed"
  shows "aead_decrypt prims algo_id key nonce aad sealed = Inr plaintext"
  using assms(3)
  by (auto simp: aead_encrypt_def aead_decrypt_def Let_def bindR_eq_Inr dest!: seal
      split: if_splits option.splits)

text \<open>
  (C18) A password always opens a header that was accepted: if the key-management block of a
  header was parsed as PBKDF2 or Argon2 parameters and the provider has no external key but a
  password of less than 4 GiB, the resolution of the content key succeeds and the key has the
  length that authenticated encryption requires.  No parameters pass the parser only to be refused
  by the derivation.
\<close>

theorem password_resolves:
  assumes "pbkdf2_documented prims" "argon2_documented prims"
    and parsed: "build_kms_context header = Inr context"
    and mode: "kc_mode_id context = KMS_PBKDF2 \<or> kc_mode_id context = KMS_ARGON2"
    and provider: "external_key provider context = Inr None" "password_for provider context = Inr (Some password)"
    and pw: "length password < 2 ^ 32"
  shows "\<exists>key. resolve_cek prims provider context = Inr key \<and> length key = AEAD_KEY_SIZE"
proof -
  from parsed have ok: "kms_params_ok (kc_params context)"
    and m: "params_mode_id (kc_params context) = kc_mode_id context"
    unfolding build_kms_context_iff by auto
  show ?thesis
  proof (cases "kc_params context")
    case (Pbkdf2 p)
    with pbkdf2_derives [OF assms(1), of p password] ok provider show ?thesis
      by (simp add: resolve_cek_def)
  next
    case (Argon2 p)
    with argon2_derives [OF assms(2), of p password] ok provider pw show ?thesis
      by (simp add: resolve_cek_def)
  qed (use m mode in auto)
qed

definition sample_prims :: Primitives where
  "sample_prims = \<lparr> aes_gcm_seal = \<lambda>k n a p. None, aes_gcm_open = \<lambda>k n a c t. None,
     xchacha_seal = \<lambda>k n a p. None, xchacha_open = \<lambda>k n a c t. None,
     pbkdf2_hmac_sha256 = \<lambda>password salt iterations n. replicate n 1,
     argon2_params = \<lambda>m t lanes n. 8 * unat lanes \<le> unat m \<and> t \<noteq> 0 \<and> lanes \<noteq> 0 \<and> 4 \<le> n \<and> n < 2 ^ 32,
     argon2id = \<lambda>m t lanes password salt n. if length salt < 8 then None else Some (replicate n 2) \<rparr>"

definition sample_provider :: KeyProvider where
  "sample_provider = \<lparr> password_for = \<lambda>_. Inr (Some [1, 2, 3]), unwrap_key = \<lambda>_ _. Inr None,
     external_key = \<lambda>_. Inr None \<rparr>"

definition sample_kms_header :: GlobalHeader where
  "sample_kms_header = sample_gh\<lparr> gh_kms := Some \<lparr> kms_mode_id = KMS_PBKDF2,
     kms_payload = serialize_kms_payload sample_pbkdf2 @ [9] \<rparr> \<rparr>"

lemma parse_sample_kms:
  "build_kms_context sample_kms_header = Inr \<lparr> kc_mode_id = KMS_PBKDF2, kc_params = sample_pbkdf2 \<rparr>"
  unfolding build_kms_context_iff by (simp add: sample_pbkdf2_def sample_kms_header_def)

theorem password_resolves_witness:
  "build_kms_context sample_kms_header = Inr \<lparr> kc_mode_id = KMS_PBKDF2, kc_params = sample_pbkdf2 \<rparr> \<and>
   (\<exists>key. resolve_cek sample_prims sample_provider \<lparr> kc_mode_id = KMS_PBKDF2, kc_params = sample_pbkdf2 \<rparr> =
      Inr key \<and> length key = 32)"
proof -
  have "pbkdf2_documented sample_prims" "argon2_documented sample_prims"
    by (simp_all add: pbkdf2_documented_def argon2_documented_def sample_prims_def)
  then show ?thesis
    using password_resolves [of sample_prims sample_kms_header _ sample_provider "[1, 2, 3]", OF _ _ parse_sample_kms]
    by (simp add: parse_sample_kms) (simp add: sample_provider_def)
qed

end
