(* ===== verification/Spec2Isabelle.thy ===== *)
theory Spec2Isabelle
  imports Sar_Fec Sar_Fastcdc Sar_Vcdiff Sar_Lfh_Laws Sar_Central Sar_Sparse Sar_Fragmentation
    Sar_Session_Order Sar_Kms
begin

text \<open>
  A verification library for SAR, the streamable archive format implemented by the Rust crates
  under \<^verbatim>\<open>src/crates\<close>.

  \<^bold>\<open>The program.\<close>  An archive is a global header, a sequence of entries, each a local file header
  (LFH) followed by its payload, and, unless the flag \<^verbatim>\<open>NO_INDEX\<close> is set, a Central Dictionary and a
  footer.  The bits of the global header decide which fields every LFH has.  A payload may be a
  sparse file, a fragment, a patch against a base, a list of chunk hashes, encrypted, and protected
  by an erasure code whose parity is stored in the LFH.  The same entries carry the replication
  protocol: entries marked as session control open, resume, acknowledge and close streams, and the
  receiver's session manager decides which entries become filesystem actions.

  \<^bold>\<open>Foundations.\<close>
  \<^item> \<open>Sar_Prelude\<close>: machine words, results and early return, checked arithmetic, slices,
    little-endian encodings with both round trips.
  \<^item> \<open>Sar_Std\<close>: UTF-8 validity and \<^verbatim>\<open>BTreeMap\<close>, with the interface \<open>finite_map\<close>.
  \<^item> \<open>Sar_Error\<close> (\<^verbatim>\<open>sar-core/src/error.rs\<close>), \<open>Sar_Limits\<close> (\<^verbatim>\<open>limits.rs\<close>), \<open>Sar_Flags\<close> (\<^verbatim>\<open>flags.rs\<close>).
  \<^item> \<open>Sar_Io\<close> (\<^verbatim>\<open>io.rs\<close>): parse cursor and binary writer.  The interface \<open>field_codec\<close> states that a
    reader accepts exactly the encodings of the admissible values; it is interpreted for every field
    reader of the format and its rules drive the proofs about the parsers.
  \<^item> \<open>Sar_Table\<close>: the interface \<open>record_table\<close> of tables of fixed-size records, interpreted for sparse
    maps and CDC maps.

  \<^bold>\<open>Archive format\<close> (\<^verbatim>\<open>sar-core/src/format.rs\<close>, \<^verbatim>\<open>tlv.rs\<close>).  \<open>Sar_Tlv\<close>, \<open>Sar_Format\<close>, \<open>Sar_Global\<close>,
  \<open>Sar_Lfh\<close>, \<open>Sar_Lfh_Laws\<close> and \<open>Sar_Central\<close> give each structure as a record and its parser and writer
  as functions of the same name.  The lemmas show, for each structure, that the parser accepts
  exactly the wire forms within the limits, both round trips, that the precomputed LFH size is the
  written size, and that the header bytes authenticated for an encrypted entry (\<open>entry_aad\<close>) determine
  every LFH field, except for the FEC value when an FEC algorithm is in use.

  \<^bold>\<open>Payloads.\<close>
  \<^item> \<open>Sar_Sparse\<close> (\<^verbatim>\<open>sar-sparse\<close>, \<^verbatim>\<open>sar-core/src/sparse.rs\<close>): reconstruction yields the one file that has
    the payload in its extents and zeros elsewhere; the map on the wire is exact.
  \<^item> \<open>Sar_Fragmentation\<close> (\<^verbatim>\<open>sar-fragmentation\<close>, \<^verbatim>\<open>sar-loss-tolerant\<close>): reassembly is sound, does not
    depend on the order of arrival, and inverts cutting.
  \<^item> \<open>Sar_Fec_Base\<close>, \<open>Sar_Fec_Blocks\<close>, \<open>Sar_Fec_Xor\<close>, \<open>Sar_Gf\<close>, \<open>Sar_Rs_Matrix\<close>, \<open>Sar_Rs\<close> and \<open>Sar_Fec\<close>
    (\<^verbatim>\<open>sar-fec\<close>, \<^verbatim>\<open>sar-core/src/fec.rs\<close>, the FEC settings of \<^verbatim>\<open>sar-archive/src/archive.rs\<close>): the interface
    \<open>erasure_codec\<close>, interpreted for the XOR and the Reed-Solomon codec.  The table arithmetic is
    shown to be a field, inversion to succeed exactly on regular matrices, and recovery to restore
    the protected bytes exactly when enough of them are left.
  \<^item> \<open>Sar_Cdc\<close>, \<open>Sar_Fastcdc\<close> (\<^verbatim>\<open>sar-cdc\<close>, \<^verbatim>\<open>sar-core/src/cdc.rs\<close>): maps and recipes are exact; chunking
    ends, covers the data, cuts at the first admissible position, and cuts equal tails equally.
  \<^item> \<open>Sar_Delta\<close>, \<open>Sar_Vcdiff\<close> (\<^verbatim>\<open>sar-delta\<close>): application of a BSDIFF patch refines its meaning as a
    list of control triples; generated patches restore their target; what a VCDIFF
    copy accepts and writes is exact for every address, including those whose unchecked sum wraps
    into an earlier window.
  \<^item> \<open>Sar_Kms\<close> (\<^verbatim>\<open>sar-crypto\<close>, \<^verbatim>\<open>build_kms_context\<close> of \<^verbatim>\<open>sar-archive/src/archive.rs\<close>): key-management
    payloads are read exactly as written within the bounds of their mode; parameters that are
    accepted never fail in the key derivation; what is sealed is opened.

  \<^bold>\<open>Sessions\<close> (\<^verbatim>\<open>sar-stream\<close>).  \<open>Sar_Protocol\<close> has the frames (\<^verbatim>\<open>protocol.rs\<close>) and their exactness.
  \<open>Sar_Session\<close> has the manager (\<^verbatim>\<open>session.rs\<close>); a handler returns its result and the state it leaves
  behind, also on an error.  \<open>Sar_Session_Laws\<close> gives the step relation \<open>session_step\<close>, the memory and
  uniqueness invariant of the reachable managers and the simulation by one small automaton per
  stream; \<open>Sar_Session_Order\<close> derives properties of whole runs, refused entries included: consecutive
  numbering, exactly which entries become actions, and that a delivered entry is refused as long as
  its stream stays open and its 16-bit numbers have not come round.

  \<^bold>\<open>Conventions and bounds.\<close>  \<^verbatim>\<open>u8\<close> to \<^verbatim>\<open>u64\<close> are words; \<^verbatim>\<open>usize\<close> is \<^typ>\<open>nat\<close>, with the bound of a
  64-bit target in every checked operation, and byte strings in hypotheses are at most \<^verbatim>\<open>isize::MAX\<close>
  long, as in Rust; \<^verbatim>\<open>i64\<close> is \<^typ>\<open>int\<close> with its range checked.  An addition that the source leaves
  unchecked wraps where a bound does not exclude it.  \<^verbatim>\<open>Err\<close> is \<^const>\<open>Inl\<close> and carries the kind of
  the error without its message.  There is no fuel: loops recurse on a list, or have a termination
  proof because each round reads a byte, or, for the chunking loop, are a partial function whose
  result is proved to exist.

  \<^bold>\<open>Code of other packages\<close> is an argument of the definitions: SHA-256 and BLAKE3 for chunk hashes,
  and in \<open>Sar_Kms\<close> the ciphers, PBKDF2 and Argon2.  What is assumed of them is what they document
  (\<open>pbkdf2_documented\<close>, \<open>argon2_documented\<close>: accepted lengths and cost parameters, with their upper
  bounds, and the length of the result), stated as
  hypotheses and satisfied by concrete functions in the witnesses.

  \<^bold>\<open>Not modelled.\<close>  The archive reader and writer (\<^verbatim>\<open>sar-archive/src/archive.rs\<close>, \<^verbatim>\<open>transform.rs\<close>) beyond
  the FEC settings, the key-management context and the associated data of an entry, the forward-only
  parser (\<^verbatim>\<open>stream.rs\<close>), recovery, profiles and conformance reports: they sequence the modelled codecs over files, through the
  compression packages.  The compression registry (\<^verbatim>\<open>sar-compression\<close>) and the display records
  (\<^verbatim>\<open>sar-core/src/metadata.rs\<close>).  In \<^verbatim>\<open>sar-crypto\<close>: random nonces, streaming hashers, \<^verbatim>\<open>unwrap_cek\<close>,
  \<^verbatim>\<open>global_header_aad_bytes\<close>, the exporter context, and zeroization, which has no observable result.
  Session transcripts, the transports (asynchronous network input and output) and the command line
  (terminal and file system effects).  \<^verbatim>\<open>sar-partition\<close> is a placeholder without behaviour.  Failure
  of memory allocation, display texts and serialization for display are left out throughout.
\<close>

end
